(* ===== verification/Prelude.thy ===== *)
theory Prelude
  imports Main "HOL-Library.Word" "HOL-Library.List_Lexorder" "HOL-Library.Sublist"
begin

text \<open>
  Shared vocabulary of the development: Go's byte slices and strings, 64-bit integers,
  error values, the outcome of a call, decimal formatting, and the generic lemmas on
  lists and byte strings that several components use.
\<close>

section \<open>Bytes, strings, integers\<close>

text \<open>
  A Go \<open>string\<close> is an immutable sequence of bytes: it is a HOL \<open>string\<close>, whose
  characters are 8-bit values.  A Go \<open>[]byte\<close> is a list of 8-bit words.  The
  conversions \<open>[]byte(s)\<close> and \<open>string(b)\<close> copy the bytes.
\<close>

type_synonym byte = "8 word"
type_synonym bytes = "byte list"
type_synonym int64 = "64 word"

definition byte_of :: "char \<Rightarrow> byte" where
  "byte_of c = of_nat (of_char c)"

definition chr_of :: "byte \<Rightarrow> char" where
  "chr_of b = char_of (unat b)"

definition bytes_of :: "string \<Rightarrow> bytes" where
  "bytes_of s = map byte_of s"

definition str_of :: "bytes \<Rightarrow> string" where
  "str_of b = map chr_of b"

lemma of_char_less_256: "(of_char c :: nat) < 256"
  by (cases c) (simp add: of_char_def horner_sum_simps of_bool_def)

lemma chr_byte [simp]: "chr_of (byte_of c) = c"
proof -
  have "unat (of_nat (of_char c) :: byte) = of_char c"
    using of_char_less_256 [of c] by (simp add: unat_of_nat)
  then show ?thesis by (simp add: chr_of_def byte_of_def)
qed

lemma byte_chr [simp]: "byte_of (chr_of b) = b"
proof -
  have "unat b < 256" using unsigned_less [of b] by simp
  then have "of_char (char_of (unat b) :: char) = unat b" by simp
  then show ?thesis by (simp add: chr_of_def byte_of_def)
qed

lemma str_bytes [simp]: "str_of (bytes_of s) = s"
  by (simp add: str_of_def bytes_of_def comp_def)

lemma bytes_str [simp]: "bytes_of (str_of b) = b"
  by (simp add: str_of_def bytes_of_def comp_def)

lemma bytes_of_append [simp]: "bytes_of (s @ t) = bytes_of s @ bytes_of t"
  by (simp add: bytes_of_def)

lemma str_of_append [simp]: "str_of (s @ t) = str_of s @ str_of t"
  by (simp add: str_of_def)

lemma bytes_of_Cons: "bytes_of (c # s) = byte_of c # bytes_of s"
  by (simp add: bytes_of_def)

lemma bytes_of_Nil [simp]: "bytes_of [] = []"
  by (simp add: bytes_of_def)

lemma str_of_Nil [simp]: "str_of [] = []"
  by (simp add: str_of_def)

lemma bytes_of_eq [simp]: "bytes_of s = bytes_of t \<longleftrightarrow> s = t"
  by (metis str_bytes)

lemma bytes_of_empty [simp]: "bytes_of s = [] \<longleftrightarrow> s = []"
  by (simp add: bytes_of_def)

lemma length_bytes_of [simp]: "length (bytes_of s) = length s"
  by (simp add: bytes_of_def)

lemma length_str_of [simp]: "length (str_of b) = length b"
  by (simp add: str_of_def)

lemma prefix_str_of: "prefix p (str_of k) \<longleftrightarrow> prefix (bytes_of p) k"
proof
  assume "prefix p (str_of k)"
  then obtain r where "str_of k = p @ r" by (auto simp: prefix_def)
  then have "k = bytes_of (p @ r)" by (metis bytes_str)
  then show "prefix (bytes_of p) k" by simp
next
  assume "prefix (bytes_of p) k"
  then obtain r where "k = bytes_of p @ r" by (auto simp: prefix_def)
  then show "prefix p (str_of k)" by simp
qed

text \<open>\<open>strings.HasPrefix\<close> and \<open>strings.TrimPrefix\<close>.\<close>

definition HasPrefix :: "string \<Rightarrow> string \<Rightarrow> bool" where
  "HasPrefix s p \<longleftrightarrow> prefix p s"

definition TrimPrefix :: "string \<Rightarrow> string \<Rightarrow> string" where
  "TrimPrefix s p = (if HasPrefix s p then drop (length p) s else s)"

lemma TrimPrefix_append [simp]: "TrimPrefix (p @ s) p = s"
  by (simp add: TrimPrefix_def HasPrefix_def)

section \<open>Errors and outcomes\<close>

text \<open>The gRPC status codes the program uses, by the names of \<open>google.golang.org/grpc/codes\<close>.\<close>

datatype code =
    Unauthenticated
  | ResourceExhausted
  | Internal
  | AlreadyExists
  | FailedPrecondition

text \<open>
  A Go \<open>error\<close> value: \<open>Errorf\<close> is one made by the program itself, \<open>Wrapf\<close> one made with
  \<open>%w\<close> (the prefix and the wrapped error), \<open>Status\<close> a gRPC status, \<open>PgErr\<close> an error of
  the database with its SQLSTATE code, \<open>Lib\<close> any other error a library returns.
\<close>

datatype error =
    Errorf string
  | Wrapf string error
  | Status code string
  | PgErr string string
  | Lib string

fun code_name :: "code \<Rightarrow> string" where
  "code_name Unauthenticated = ''Unauthenticated''"
| "code_name ResourceExhausted = ''ResourceExhausted''"
| "code_name Internal = ''Internal''"
| "code_name AlreadyExists = ''AlreadyExists''"
| "code_name FailedPrecondition = ''FailedPrecondition''"

text \<open>The text \<open>%v\<close> prints for an error.\<close>

fun error_text :: "error \<Rightarrow> string" where
  "error_text (Errorf s) = s"
| "error_text (Wrapf p e) = p @ '': '' @ error_text e"
| "error_text (Status c m) = ''rpc error: code = '' @ code_name c @ '' desc = '' @ m"
| "error_text (PgErr c m) = m"
| "error_text (Lib s) = s"

text \<open>
  The outcome of a call: a value, an error value, a run-time panic, or no return at all.
\<close>

datatype 'a res = Ok 'a | Err error | Panic | Hang

primrec is_ok :: "'a res \<Rightarrow> bool" where
  "is_ok (Ok x) = True"
| "is_ok (Err e) = False"
| "is_ok Panic = False"
| "is_ok Hang = False"

text \<open>\<open>if err != nil { return fmt.Errorf("p: %w", err) }\<close>\<close>

fun wrap_err :: "string \<Rightarrow> 'a res \<Rightarrow> 'a res" where
  "wrap_err p (Err e) = Err (Wrapf p e)"
| "wrap_err p r = r"

lemma is_ok_iff: "is_ok r \<longleftrightarrow> (\<exists>x. r = Ok x)"
  by (cases r) auto

lemma wrap_err_Ok [simp]: "wrap_err p r = Ok x \<longleftrightarrow> r = Ok x"
  by (cases r) auto

lemma map_res_Ok [simp]: "map_res f r = Ok y \<longleftrightarrow> (\<exists>x. r = Ok x \<and> y = f x)"
  by (cases r) auto

text \<open>A call that came back with a value or an error.\<close>

primrec returned :: "'a res \<Rightarrow> bool" where
  "returned (Ok x) \<longleftrightarrow> True"
| "returned (Err e) \<longleftrightarrow> True"
| "returned Panic \<longleftrightarrow> False"
| "returned Hang \<longleftrightarrow> False"

text \<open>\<open>x, err := f(); if err != nil { return nil, err }; ...\<close> in a function without effects.\<close>

fun bind_res :: "'a res \<Rightarrow> ('a \<Rightarrow> 'b res) \<Rightarrow> 'b res" where
  "bind_res (Ok x) f = f x"
| "bind_res (Err e) f = Err e"
| "bind_res Panic f = Panic"
| "bind_res Hang f = Hang"

lemma bind_res_Ok [simp]: "bind_res r f = Ok y \<longleftrightarrow> (\<exists>x. r = Ok x \<and> f x = Ok y)"
  by (cases r) auto

lemma returned_bind_res: "returned r \<Longrightarrow> (\<And>x. r = Ok x \<Longrightarrow> returned (f x)) \<Longrightarrow> returned (bind_res r f)"
  by (cases r) auto

lemma returned_wrap_err [simp]: "returned (wrap_err p r) \<longleftrightarrow> returned r"
  by (cases r) auto

text \<open>A call that gives a value or an error and never anything else is a sum.\<close>

fun res_of :: "error + 'a \<Rightarrow> 'a res" where
  "res_of (Inl e) = Err e"
| "res_of (Inr x) = Ok x"

lemma res_of_Ok [simp]: "res_of q = Ok x \<longleftrightarrow> q = Inr x"
  by (cases q) auto

lemma returned_res_of [simp]: "returned (res_of q)"
  by (cases q) auto

text \<open>
  \<open>x, err := f(); if err != nil { return nil, g(err) }; ...\<close> in a function that also changes a
  state: an error returns with the state as it is, a value goes on.
\<close>

fun try_res :: "'a res \<Rightarrow> (error \<Rightarrow> error) \<Rightarrow> 's \<Rightarrow> ('a \<Rightarrow> 'b res \<times> 's) \<Rightarrow> 'b res \<times> 's" where
  "try_res (Ok x) g s k = k x"
| "try_res (Err e) g s k = (Err (g e), s)"
| "try_res Panic g s k = (Panic, s)"
| "try_res Hang g s k = (Hang, s)"

lemma try_res_split:
  "P (try_res r g s k) \<longleftrightarrow>
     (\<forall>x. r = Ok x \<longrightarrow> P (k x)) \<and> (\<forall>e. r = Err e \<longrightarrow> P (Err (g e), s)) \<and>
     (r = Panic \<longrightarrow> P (Panic, s)) \<and> (r = Hang \<longrightarrow> P (Hang, s))"
  by (cases r) auto

lemma try_res_split_asm:
  "P (try_res r g s k) \<longleftrightarrow>
     \<not> ((\<exists>x. r = Ok x \<and> \<not> P (k x)) \<or> (\<exists>e. r = Err e \<and> \<not> P (Err (g e), s)) \<or>
       r = Panic \<and> \<not> P (Panic, s) \<or> r = Hang \<and> \<not> P (Hang, s))"
  by (cases r) auto

lemmas try_res_splits = try_res_split try_res_split_asm

text \<open>The same for a call that changes the state itself.\<close>

fun and_then :: "'a res \<times> 's \<Rightarrow> ('a \<Rightarrow> 's \<Rightarrow> 'b res \<times> 's) \<Rightarrow> 'b res \<times> 's" where
  "and_then (Ok x, s) k = k x s"
| "and_then (Err e, s) k = (Err e, s)"
| "and_then (Panic, s) k = (Panic, s)"
| "and_then (Hang, s) k = (Hang, s)"

lemma and_then_Ok: "and_then p k = (Ok y, s') \<longleftrightarrow> (\<exists>x s. p = (Ok x, s) \<and> k x s = (Ok y, s'))"
  by (cases p; cases "fst p") auto

lemma try_res_Ok: "try_res r g s k = (Ok y, s') \<longleftrightarrow> (\<exists>x. r = Ok x \<and> k x = (Ok y, s'))"
  by (cases r) auto

text \<open>\<open>x, _ := f()\<close>: an error is dropped and leaves the zero value.\<close>

fun drop_err :: "'a \<Rightarrow> 'a res \<Rightarrow> 'a res" where
  "drop_err z (Ok x) = Ok x"
| "drop_err z (Err e) = Ok z"
| "drop_err z Panic = Panic"
| "drop_err z Hang = Hang"

lemma returned_iff: "returned r \<longleftrightarrow> r \<noteq> Panic \<and> r \<noteq> Hang"
  by (cases r) auto

lemma returned_drop_err [simp]: "returned (drop_err z r) \<longleftrightarrow> returned r"
  by (cases r) auto

lemma drop_err_Ok: "returned r \<Longrightarrow> \<exists>x. drop_err z r = Ok x"
  by (cases r) auto

text \<open>A call that comes back, in a state with a property; the rule composes such calls.\<close>

definition settles :: "('s \<Rightarrow> bool) \<Rightarrow> 'a res \<times> 's \<Rightarrow> bool" where
  "settles Q p \<longleftrightarrow> returned (fst p) \<and> Q (snd p)"

lemma settles_simps [simp]:
  "settles Q (Ok x, s) \<longleftrightarrow> Q s" "settles Q (Err e, s) \<longleftrightarrow> Q s"
  "\<not> settles Q (Panic, s)" "\<not> settles Q (Hang, s)"
  "settles Q (drop_err z r, s) \<longleftrightarrow> settles Q (r, s)"
  by (simp_all add: settles_def)

lemma settles_and_then:
  "settles Q p \<Longrightarrow> (\<And>x s. p = (Ok x, s) \<Longrightarrow> Q s \<Longrightarrow> settles R (k x s)) \<Longrightarrow> (\<And>s. Q s \<Longrightarrow> R s) \<Longrightarrow>
     settles R (and_then p k)"
  by (cases p; cases "fst p") auto

lemma settles_mono: "settles Q p \<Longrightarrow> (\<And>s. Q s \<Longrightarrow> R s) \<Longrightarrow> settles R p"
  by (simp add: settles_def)

lemma returned_map_res [simp]: "returned (map_res f r) \<longleftrightarrow> returned r"
  by (cases r) auto

lemma is_ok_map_res [simp]: "is_ok (map_res f r) \<longleftrightarrow> is_ok r"
  by (cases r) auto

section \<open>Decimal formatting (the verb \<open>%d\<close>)\<close>

fun dec_nat :: "nat \<Rightarrow> string" where
  "dec_nat n = (if n < 10 then [char_of (48 + n)] else dec_nat (n div 10) @ [char_of (48 + n mod 10)])"

declare dec_nat.simps [simp del]

definition dec_int :: "int \<Rightarrow> string" where
  "dec_int i = (if i < 0 then ''-'' @ dec_nat (nat (- i)) else dec_nat (nat i))"

definition undec :: "string \<Rightarrow> nat" where
  "undec s = foldl (\<lambda>a c. a * 10 + (of_char c - 48)) 0 s"

lemma undec_dec_nat [simp]: "undec (dec_nat n) = n"
proof (induction n rule: dec_nat.induct)
  case (1 n)
  show ?case
  proof (cases "n < 10")
    case True
    then show ?thesis by (subst dec_nat.simps) (simp add: undec_def)
  next
    case False
    with 1 have "undec (dec_nat (n div 10)) = n div 10" by simp
    with False show ?thesis by (subst dec_nat.simps) (simp add: undec_def)
  qed
qed

lemma dec_nat_inject [simp]: "dec_nat m = dec_nat n \<longleftrightarrow> m = n"
  by (metis undec_dec_nat)

section \<open>Byte strings in lexicographic order\<close>

text \<open>
  Keys of the local database are ordered bytewise (\<open>bytes.Compare\<close>), the order that
  \<open>List_Lexorder\<close> puts on lists of words.  The keys with a given prefix are contiguous.
\<close>

lemma prefix_le: "prefix p k \<Longrightarrow> p \<le> (k :: 'a :: linorder list)"
proof (induction p arbitrary: k)
  case Nil
  then show ?case by simp
next
  case (Cons a p)
  then show ?case by (cases k) auto
qed

lemma prefix_interval:
  "p \<le> k \<Longrightarrow> \<not> prefix p k \<Longrightarrow> k \<le> k' \<Longrightarrow> \<not> prefix p (k' :: 'a :: linorder list)"
proof (induction p arbitrary: k k')
  case Nil
  then show ?case by simp
next
  case (Cons a p)
  from Cons.prems(1) obtain b k0 where k: "k = b # k0" by (cases k) auto
  with Cons.prems(3) obtain c k1 where k': "k' = c # k1" by (cases k') auto
  show ?case
  proof (cases "a = b")
    case True
    with Cons.prems k have "p \<le> k0" "\<not> prefix p k0" by auto
    with True k k' Cons.prems(3) Cons.IH [of k0 k1] show ?thesis by auto
  next
    case False
    with Cons.prems(1,3) k k' show ?thesis by auto
  qed
qed

text \<open>
  A key is a namespace, a separator and an identifier.  Splitting at the first separator
  is unambiguous when the namespace does not contain it.
\<close>

lemma append_sep_inject:
  assumes "u @ c # i = u' @ c # i'" and "c \<notin> set u" and "c \<notin> set u'"
  shows "u = u' \<and> i = i'"
  using assms by (induction u arbitrary: u') (auto simp: Cons_eq_append_conv append_eq_Cons_conv)

section \<open>Lists\<close>

lemma map_of_filter_neq: "map_of (filter (\<lambda>p. fst p \<noteq> k) xs) = (map_of xs)(k := None)"
  by (induction xs) (auto simp: fun_eq_iff)

lemma sorted_wrt_distinct: "sorted_wrt (<) (xs :: 'a :: linorder list) \<Longrightarrow> distinct xs"
  by (induction xs) auto

end
