(* ===== verification/Bolt.thy ===== *)
theory Bolt
  imports Prelude
begin

text \<open>
  The interface of the embedded key-value library \<open>go.etcd.io/bbolt\<close>, which is not part of
  the repository.  The library is a parameter of the model: a record \<open>bolt_ops\<close> of the calls
  the program makes.  The locales \<open>bolt\<close> and \<open>bolt_reliable\<close> state the documented
  behaviour the program relies on; \<open>ref_bolt\<close> is a concrete instance that obeys it, used
  to evaluate the model.
\<close>

section \<open>The calls\<close>

text \<open>
  A database is a set of named buckets.  \<open>db_update d f\<close> is \<open>db.Update(fn)\<close>: the callback
  gets the transaction's view of the database and returns the changed view or an error.
  \<open>db_view_err d\<close> is the error \<open>db.View(fn)\<close> returns without running the callback, if any.
  A cursor is the key it stands on: \<open>cur_seek b s\<close> is \<open>c.Seek(s)\<close>, \<open>cur_next b k\<close> is
  \<open>c.Next()\<close> on a cursor that stands on \<open>k\<close>; \<open>None\<close> is the nil key.
\<close>

record 'b db =
  buckets :: "string \<Rightarrow> 'b option"
  is_open :: bool

record 'b bolt_ops =
  bk_new :: 'b
  bk_get :: "'b \<Rightarrow> bytes \<Rightarrow> bytes option"
  bk_put :: "'b \<Rightarrow> bytes \<Rightarrow> bytes \<Rightarrow> error + 'b"
  bk_delete :: "'b \<Rightarrow> bytes \<Rightarrow> error + 'b"
  cur_seek :: "'b \<Rightarrow> bytes \<Rightarrow> (bytes \<times> bytes) option"
  cur_next :: "'b \<Rightarrow> bytes \<Rightarrow> (bytes \<times> bytes) option"
  tx_create :: "'b db \<Rightarrow> string \<Rightarrow> error + 'b db"
  db_update :: "'b db \<Rightarrow> ('b db \<Rightarrow> 'b db res) \<Rightarrow> unit res \<times> 'b db"
  db_view_err :: "'b db \<Rightarrow> error option"

text \<open>What a transaction that begins and commits does with its callback's outcome.\<close>

fun tx_result :: "'b db \<Rightarrow> 'b db res \<Rightarrow> unit res \<times> 'b db" where
  "tx_result d (Ok d') = (Ok (), d')"
| "tx_result d (Err e) = (Err e, d)"
| "tx_result d Panic = (Panic, d)"
| "tx_result d Hang = (Hang, d)"

text \<open>\<open>CreateBucketIfNotExists\<close>, when it returns no error.\<close>

definition with_bucket :: "'b \<Rightarrow> 'b db \<Rightarrow> string \<Rightarrow> 'b db" where
  "with_bucket b0 d n = (if buckets d n = None then d\<lparr>buckets := (buckets d)(n \<mapsto> b0)\<rparr> else d)"

text \<open>
  A cursor position is right for the keys that satisfy an upward closed predicate when it is
  the least stored key among them, with its value, or nil when there is none.
\<close>

definition least_pos :: "(bytes \<Rightarrow> bytes option) \<Rightarrow> (bytes \<Rightarrow> bool) \<Rightarrow> (bytes \<times> bytes) option \<Rightarrow> bool" where
  "least_pos m P c \<longleftrightarrow>
     (case c of
        None \<Rightarrow> (\<forall>k. P k \<longrightarrow> m k = None)
      | Some (k, v) \<Rightarrow> P k \<and> m k = Some v \<and> (\<forall>k'. P k' \<longrightarrow> m k' \<noteq> None \<longrightarrow> k \<le> k'))"

section \<open>The contract\<close>

locale bolt =
  fixes B :: "'b bolt_ops"
  assumes get_new: "bk_get B (bk_new B) k = None"
    and get_put: "bk_put B b k v = Inr b' \<Longrightarrow> bk_get B b' = (bk_get B b)(k \<mapsto> v)"
    and get_delete: "bk_delete B b k = Inr b' \<Longrightarrow> bk_get B b' = (bk_get B b)(k := None)"
    and finite_bucket: "finite (dom (bk_get B b))"
    and seek: "least_pos (bk_get B b) (\<lambda>k. s \<le> k) (cur_seek B b s)"
    and cursor_next: "bk_get B b s \<noteq> None \<Longrightarrow> least_pos (bk_get B b) (\<lambda>k. s < k) (cur_next B b s)"
    and create: "tx_create B d n = Inr d' \<Longrightarrow> d' = with_bucket (bk_new B) d n"
    and update: "db_update B d f = tx_result d (f d) \<or> (\<exists>e. db_update B d f = (Err e, d))"

text \<open>
  The limits bbolt documents: a key is not blank and at most 32768 bytes long, a value at most
  \<open>2 ^ 31 - 2\<close> bytes.
\<close>

definition put_ok :: "bytes \<Rightarrow> bytes \<Rightarrow> bool" where
  "put_ok k v \<longleftrightarrow> k \<noteq> [] \<and> length k \<le> 32768 \<and> length v \<le> 2 ^ 31 - 2"

text \<open>A database on a disk that does not fail.\<close>

locale bolt_reliable = bolt +
  assumes put_total: "put_ok k v \<Longrightarrow> \<exists>b'. bk_put B b k v = Inr b'"
    and delete_total: "\<exists>b'. bk_delete B b k = Inr b'"
    and create_total: "\<exists>d'. tx_create B d n = Inr d'"
    and update_total: "is_open d \<Longrightarrow> db_update B d f = tx_result d (f d)"
    and view_total: "is_open d \<Longrightarrow> db_view_err B d = None"

section \<open>Prefix scans\<close>

text \<open>
  The list of pairs a loop
  \<open>for k, v := c.Seek(p); k != nil && HasPrefix(k, p); k, v = c.Next()\<close> goes through.
\<close>

primrec chain :: "'b bolt_ops \<Rightarrow> 'b \<Rightarrow> bytes \<Rightarrow> (bytes \<times> bytes) option \<Rightarrow> (bytes \<times> bytes) list \<Rightarrow> bool" where
  "chain B b p c [] \<longleftrightarrow> (case c of None \<Rightarrow> True | Some kv \<Rightarrow> \<not> prefix p (fst kv))"
| "chain B b p c (kv # r) \<longleftrightarrow>
     c = Some kv \<and> prefix p (fst kv) \<and> chain B b p (cur_next B b (fst kv)) r"

definition with_prefix :: "'b bolt_ops \<Rightarrow> 'b \<Rightarrow> bytes \<Rightarrow> (bytes \<times> bytes) set" where
  "with_prefix B b p = {(k, v). bk_get B b k = Some v \<and> prefix p k}"

context bolt
begin

lemma chain_from:
  assumes "least_pos (bk_get B b) P c"
    and "\<And>x y. P x \<Longrightarrow> x \<le> y \<Longrightarrow> P y" and "\<And>x. P x \<Longrightarrow> p \<le> x"
  shows "\<exists>kvs. chain B b p c kvs \<and> sorted_wrt (<) (map fst kvs) \<and>
           set kvs = {(k, v). bk_get B b k = Some v \<and> prefix p k \<and> P k}"
  using assms
proof (induction "card {k \<in> dom (bk_get B b). P k}" arbitrary: P c rule: less_induct)
  case less
  let ?m = "bk_get B b"
  show ?case
  proof (cases c)
    case None
    with less.prems(1) have "\<forall>k. P k \<longrightarrow> ?m k = None" by (simp add: least_pos_def)
    then have "{(k, v). ?m k = Some v \<and> prefix p k \<and> P k} = {}" by auto
    with None show ?thesis by (intro exI [of _ "[]"]) simp
  next
    case (Some kv)
    obtain k v where kv: "kv = (k, v)" by (cases kv)
    with Some less.prems(1) have k: "P k" "?m k = Some v"
      and least: "\<And>k'. P k' \<Longrightarrow> ?m k' \<noteq> None \<Longrightarrow> k \<le> k'"
      by (auto simp: least_pos_def)
    show ?thesis
    proof (cases "prefix p k")
      case False
      have "{(k, v). ?m k = Some v \<and> prefix p k \<and> P k} = {}"
        using prefix_interval [OF less.prems(3) [OF k(1)] False] least by auto
      with False Some kv show ?thesis by (intro exI [of _ "[]"]) simp
    next
      case True
      let ?Q = "\<lambda>x. k < x"
      have sub: "{x \<in> dom ?m. k < x} \<subset> {x \<in> dom ?m. P x}"
        using k less.prems(2) by (auto intro: less_imp_le)
      have "card {x \<in> dom ?m. k < x} < card {x \<in> dom ?m. P x}"
        using sub finite_bucket by (intro psubset_card_mono) auto
      moreover have "least_pos ?m ?Q (cur_next B b k)"
        using k cursor_next by simp
      ultimately obtain r where r: "chain B b p (cur_next B b k) r" "sorted_wrt (<) (map fst r)"
        and sr: "set r = {(x, v). ?m x = Some v \<and> prefix p x \<and> k < x}"
        using less.hyps [of ?Q "cur_next B b k"] less.prems(3) [OF k(1)] by fastforce
      have "chain B b p c ((k, v) # r)" using r Some kv True by simp
      moreover have "sorted_wrt (<) (map fst ((k, v) # r))" using r sr by auto
      moreover have "(x, w) \<in> set ((k, v) # r) \<longleftrightarrow> ?m x = Some w \<and> prefix p x \<and> P x" for x w
      proof (cases "x = k")
        case True
        with k \<open>prefix p k\<close> sr show ?thesis by auto
      next
        case False
        have "P x \<longleftrightarrow> k < x" if "?m x = Some w"
          using that False least [of x] less.prems(2) [OF k(1), of x] by auto
        with False sr show ?thesis by auto
      qed
      then have "set ((k, v) # r) = {(x, w). ?m x = Some w \<and> prefix p x \<and> P x}" by auto
      ultimately show ?thesis by blast
    qed
  qed
qed

lemma prefix_scan:
  "\<exists>kvs. chain B b p (cur_seek B b p) kvs \<and> sorted_wrt (<) (map fst kvs) \<and>
     set kvs = with_prefix B b p"
proof -
  have "{(k, v). bk_get B b k = Some v \<and> prefix p k \<and> p \<le> k} = with_prefix B b p"
    using prefix_le by (auto simp: with_prefix_def)
  then show ?thesis using chain_from [OF seek [of b p], of p] by auto
qed

end

section \<open>A reference instance\<close>

type_synonym alist = "(bytes \<times> bytes) list"

definition ref_least :: "(bytes \<Rightarrow> bool) \<Rightarrow> alist \<Rightarrow> (bytes \<times> bytes) option" where
  "ref_least P b =
     (case filter P (map fst b) of
        [] \<Rightarrow> None
      | k # ks \<Rightarrow> (let m = fold min ks k in map_option (Pair m) (map_of b m)))"

definition ref_bolt :: "alist bolt_ops" where
  "ref_bolt = \<lparr>
     bk_new = [],
     bk_get = map_of,
     bk_put = (\<lambda>b k v. if put_ok k v then Inr ((k, v) # filter (\<lambda>p. fst p \<noteq> k) b)
                       else Inl (Lib ''key or value size'')),
     bk_delete = (\<lambda>b k. Inr (filter (\<lambda>p. fst p \<noteq> k) b)),
     cur_seek = (\<lambda>b s. ref_least (\<lambda>k. s \<le> k) b),
     cur_next = (\<lambda>b s. ref_least (\<lambda>k. s < k) b),
     tx_create = (\<lambda>d n. Inr (with_bucket [] d n)),
     db_update = (\<lambda>d f. if is_open d then tx_result d (f d) else (Err (Lib ''database not open''), d)),
     db_view_err = (\<lambda>d. if is_open d then None else Some (Lib ''database not open'')) \<rparr>"

lemma fold_min: "fold min ks (k :: 'a :: linorder) = Min (insert k (set ks))"
  by (simp add: Min.set_eq_fold [symmetric])

lemma ref_least_pos: "least_pos (map_of b) P (ref_least P b)"
proof (cases "filter P (map fst b)")
  case Nil
  then have "\<forall>k. P k \<longrightarrow> map_of b k = None"
    by (auto simp: filter_empty_conv map_of_eq_None_iff)
  with Nil show ?thesis by (simp add: ref_least_def least_pos_def)
next
  case (Cons k ks)
  let ?S = "{x \<in> fst ` set b. P x}"
  have S: "insert k (set ks) = ?S" using arg_cong [OF Cons, of set] by auto
  have fin: "finite ?S" "?S \<noteq> {}" unfolding S [symmetric] by simp_all
  have m: "Min ?S \<in> ?S" using fin by (rule Min_in)
  then obtain v where v: "map_of b (Min ?S) = Some v"
    by (metis (mono_tags, lifting) map_of_eq_None_iff mem_Collect_eq not_None_eq)
  have "ref_least P b = Some (Min ?S, v)"
    using Cons v S by (simp add: ref_least_def fold_min)
  moreover have "Min ?S \<le> k'" if "P k'" "map_of b k' \<noteq> None" for k'
    using that fin(1) by (intro Min_le) (auto simp: map_of_eq_None_iff)
  ultimately show ?thesis using v m by (simp add: least_pos_def)
qed

interpretation ref: bolt_reliable ref_bolt
  by unfold_locales
    (auto simp: ref_bolt_def put_ok_def map_of_filter_neq ref_least_pos finite_dom_map_of
       split: if_splits)

text \<open>A newly opened reference database, for evaluating the model.\<close>

definition ref_db :: "alist db" where
  "ref_db = \<lparr>buckets = Map.empty, is_open = True\<rparr>"

end
