(* ===== verification/Store.thy ===== *)
theory Store
  imports Bolt
begin

text \<open>
  The local encrypted store of the client, \<open>internal/client/store/store.go\<close>: two buckets of
  one bbolt database, \<open>entries\<close> for the ciphertexts and \<open>versions\<close> for their versions,
  both keyed by \<open>userID + ":" + entryID\<close>.  Every method holds the store's mutex for its whole
  body, so a call is one step on the database value \<open>'b db\<close>.
\<close>

section \<open>Versions as bytes\<close>

text \<open>\<open>binary.BigEndian.PutUint64(buf, uint64(i))\<close> into a new buffer of 8 bytes.\<close>

definition int64ToBytes :: "int64 \<Rightarrow> bytes" where
  "int64ToBytes i = map (\<lambda>k. ucast (drop_bit (56 - 8 * k) i)) [0..<8]"

text \<open>
  \<open>int64(binary.BigEndian.Uint64(b))\<close> reads the first 8 bytes; on a shorter slice its bounds
  check panics, which is \<open>None\<close> here.
\<close>

definition bytesToInt64 :: "bytes \<Rightarrow> int64 option" where
  "bytesToInt64 b =
     (if length b < 8 then None
      else Some (foldl (\<lambda>a x. or (push_bit 8 a) (ucast x)) 0 (take 8 b)))"

lemma upt8: "[0..<8] = [0, 1, 2, 3, 4, 5, 6, 7 :: nat]"
  by (simp add: upt_rec)

lemma length_int64ToBytes [simp]: "length (int64ToBytes i) = 8"
  by (simp add: int64ToBytes_def)

lemma bytesToInt64_int64ToBytes [simp]: "bytesToInt64 (int64ToBytes i) = Some i"
proof -
  have step: "or (push_bit 8 (drop_bit (8 + k) i)) (ucast (ucast (drop_bit k i) :: byte)) = drop_bit k i" for k
    by (rule bit_word_eqI) (auto simp: bit_simps)
  have "drop_bit 64 i = 0" by (rule bit_word_eqI) (auto simp: bit_simps)
  then have "foldl (\<lambda>a x. or (push_bit 8 a) (ucast x)) 0 (int64ToBytes i) = i"
    using step [of 56] step [of 48] step [of 40] step [of 32] step [of 24] step [of 16] step [of 8] step [of 0]
    by (simp add: int64ToBytes_def upt8)
  then show ?thesis by (simp add: bytesToInt64_def)
qed

lemma bytesToInt64_total: "length b = 8 \<Longrightarrow> \<exists>v. bytesToInt64 b = Some v"
  by (simp add: bytesToInt64_def)

section \<open>Operations\<close>

definition key :: "string \<Rightarrow> string \<Rightarrow> bytes" where
  "key userID entryID = bytes_of (userID @ '':'' @ entryID)"

text \<open>
  \<open>NewStore\<close> opens the file (\<open>opened\<close> is what \<open>bbolt.Open\<close> returns) and creates both
  buckets in one transaction; when that fails it closes the database again.
\<close>

definition NewStore :: "'b bolt_ops \<Rightarrow> (error + 'b db) \<Rightarrow> 'b db res \<times> 'b db option" where
  "NewStore B opened =
     (case opened of
        Inl e \<Rightarrow> (Err (Wrapf ''open bolt'' e), None)
      | Inr d \<Rightarrow>
          (case db_update B d (\<lambda>tx.
                  case tx_create B tx ''entries'' of
                    Inl e \<Rightarrow> Err e
                  | Inr tx1 \<Rightarrow>
                      (case tx_create B tx1 ''versions'' of
                         Inl e \<Rightarrow> Err e
                       | Inr tx2 \<Rightarrow> Ok tx2)) of
             (Ok _, d') \<Rightarrow> (Ok d', Some d')
           | (Err e, d') \<Rightarrow> (Err (Wrapf ''create buckets'' e), Some (d'\<lparr>is_open := False\<rparr>))
           | (Panic, d') \<Rightarrow> (Panic, Some d')
           | (Hang, d') \<Rightarrow> (Hang, Some d')))"

definition Put :: "'b bolt_ops \<Rightarrow> 'b db \<Rightarrow> string \<Rightarrow> string \<Rightarrow> bytes \<Rightarrow> unit res \<times> 'b db" where
  "Put B d userID entryID encryptedData =
     db_update B d (\<lambda>tx.
       case buckets tx ''entries'' of
         None \<Rightarrow> Panic
       | Some b \<Rightarrow>
           (case bk_put B b (key userID entryID) encryptedData of
              Inl e \<Rightarrow> Err e
            | Inr b' \<Rightarrow> Ok (tx\<lparr>buckets := (buckets tx)(''entries'' \<mapsto> b')\<rparr>)))"

definition Get :: "'b bolt_ops \<Rightarrow> 'b db \<Rightarrow> string \<Rightarrow> string \<Rightarrow> bytes res" where
  "Get B d userID entryID =
     (case db_view_err B d of
        Some e \<Rightarrow> Err e
      | None \<Rightarrow>
          (case buckets d ''entries'' of
             None \<Rightarrow> Panic
           | Some b \<Rightarrow>
               (case bk_get B b (key userID entryID) of
                  None \<Rightarrow> Err (Errorf ''entry not found'')
                | Some v \<Rightarrow> Ok v)))"

text \<open>The cursor loop of \<open>List\<close>; \<open>None\<close> is a loop that never ends.\<close>

partial_function (option) list_loop ::
  "'b bolt_ops \<Rightarrow> 'b \<Rightarrow> string \<Rightarrow> (bytes \<times> bytes) option \<Rightarrow> string list \<Rightarrow> string list option" where
  "list_loop B b p cur ids =
     (case cur of
        None \<Rightarrow> Some ids
      | Some kv \<Rightarrow>
          if HasPrefix (str_of (fst kv)) p
          then list_loop B b p (cur_next B b (fst kv)) (ids @ [TrimPrefix (str_of (fst kv)) p])
          else Some ids)"

definition List :: "'b bolt_ops \<Rightarrow> 'b db \<Rightarrow> string \<Rightarrow> string list res" where
  "List B d userID =
     (let p = userID @ '':''
      in case db_view_err B d of
           Some e \<Rightarrow> Err e
         | None \<Rightarrow>
             (case buckets d ''entries'' of
                None \<Rightarrow> Panic
              | Some b \<Rightarrow>
                  (case list_loop B b p (cur_seek B b (bytes_of p)) [] of
                     None \<Rightarrow> Hang
                   | Some ids \<Rightarrow> Ok ids)))"

definition Delete :: "'b bolt_ops \<Rightarrow> 'b db \<Rightarrow> string \<Rightarrow> string \<Rightarrow> unit res \<times> 'b db" where
  "Delete B d userID entryID =
     db_update B d (\<lambda>tx.
       case buckets tx ''entries'' of
         None \<Rightarrow> Panic
       | Some b \<Rightarrow>
           (case bk_delete B b (key userID entryID) of
              Inl e \<Rightarrow> Err e
            | Inr b' \<Rightarrow> Ok (tx\<lparr>buckets := (buckets tx)(''entries'' \<mapsto> b')\<rparr>)))"

text \<open>\<open>Close\<close>: a closed database runs no further transaction.\<close>

definition Close :: "'b db \<Rightarrow> 'b db" where
  "Close d = d\<lparr>is_open := False\<rparr>"

definition PutVersion :: "'b bolt_ops \<Rightarrow> 'b db \<Rightarrow> string \<Rightarrow> string \<Rightarrow> int64 \<Rightarrow> unit res \<times> 'b db" where
  "PutVersion B d userID entryID version =
     db_update B d (\<lambda>tx.
       case buckets tx ''versions'' of
         None \<Rightarrow> Panic
       | Some b \<Rightarrow>
           (case bk_put B b (key userID entryID) (int64ToBytes version) of
              Inl e \<Rightarrow> Err e
            | Inr b' \<Rightarrow> Ok (tx\<lparr>buckets := (buckets tx)(''versions'' \<mapsto> b')\<rparr>)))"

definition GetVersion :: "'b bolt_ops \<Rightarrow> 'b db \<Rightarrow> string \<Rightarrow> string \<Rightarrow> int64 res" where
  "GetVersion B d userID entryID =
     (case db_view_err B d of
        Some e \<Rightarrow> Err e
      | None \<Rightarrow>
          (case buckets d ''versions'' of
             None \<Rightarrow> Err (Errorf ''versions bucket not found'')
           | Some b \<Rightarrow>
               (case bk_get B b (key userID entryID) of
                  None \<Rightarrow> Err (Errorf ''version not found'')
                | Some data \<Rightarrow>
                    (case bytesToInt64 data of
                       None \<Rightarrow> Panic
                     | Some ver \<Rightarrow> Ok ver))))"

definition DeleteVersion :: "'b bolt_ops \<Rightarrow> 'b db \<Rightarrow> string \<Rightarrow> string \<Rightarrow> unit res \<times> 'b db" where
  "DeleteVersion B d userID entryID =
     db_update B d (\<lambda>tx.
       case buckets tx ''versions'' of
         None \<Rightarrow> Ok tx
       | Some b \<Rightarrow>
           (case bk_delete B b (key userID entryID) of
              Inl e \<Rightarrow> Err e
            | Inr b' \<Rightarrow> Ok (tx\<lparr>buckets := (buckets tx)(''versions'' \<mapsto> b')\<rparr>)))"

text \<open>The cursor loop of \<open>GetMaxVersion\<close>; int64 values are compared as signed integers.\<close>

partial_function (option) max_loop ::
  "'b bolt_ops \<Rightarrow> 'b \<Rightarrow> string \<Rightarrow> (bytes \<times> bytes) option \<Rightarrow> int64 \<Rightarrow> int64 res option" where
  "max_loop B b p cur mx =
     (case cur of
        None \<Rightarrow> Some (Ok mx)
      | Some kv \<Rightarrow>
          if HasPrefix (str_of (fst kv)) p
          then (case bytesToInt64 (snd kv) of
                  None \<Rightarrow> Some Panic
                | Some ver \<Rightarrow>
                    max_loop B b p (cur_next B b (fst kv)) (if sint mx < sint ver then ver else mx))
          else Some (Ok mx))"

definition GetMaxVersion :: "'b bolt_ops \<Rightarrow> 'b db \<Rightarrow> string \<Rightarrow> int64 res" where
  "GetMaxVersion B d userID =
     (let p = userID @ '':''
      in case db_view_err B d of
           Some e \<Rightarrow> Err e
         | None \<Rightarrow>
             (case buckets d ''versions'' of
                None \<Rightarrow> Ok 0
              | Some b \<Rightarrow>
                  (case max_loop B b p (cur_seek B b (bytes_of p)) 0 of
                     None \<Rightarrow> Hang
                   | Some r \<Rightarrow> r)))"

section \<open>Abstract view and invariant\<close>

text \<open>
  The store means two maps from keys: \<open>entry_cell\<close> to ciphertexts and \<open>version_cell\<close> to
  versions.  It is well formed when \<open>NewStore\<close>'s buckets exist and every stored version is 8
  bytes long, so that reading it cannot panic.
\<close>

definition entry_cell :: "'b bolt_ops \<Rightarrow> 'b db \<Rightarrow> bytes \<Rightarrow> bytes option" where
  "entry_cell B d k = Option.bind (buckets d ''entries'') (\<lambda>b. bk_get B b k)"

definition version_cell :: "'b bolt_ops \<Rightarrow> 'b db \<Rightarrow> bytes \<Rightarrow> int64 option" where
  "version_cell B d k =
     Option.bind (buckets d ''versions'') (\<lambda>b. Option.bind (bk_get B b k) bytesToInt64)"

definition store_ok :: "'b bolt_ops \<Rightarrow> 'b db \<Rightarrow> bool" where
  "store_ok B d \<longleftrightarrow>
     (\<exists>b. buckets d ''entries'' = Some b) \<and>
     (\<exists>b. buckets d ''versions'' = Some b \<and>
        (\<forall>k data. bk_get B b k = Some data \<longrightarrow> length data = 8))"

lemma key_inject:
  "CHR '':'' \<notin> set u \<Longrightarrow> CHR '':'' \<notin> set u' \<Longrightarrow> key u i = key u' i' \<longleftrightarrow> u = u' \<and> i = i'"
  using append_sep_inject [of u "CHR '':''" i u' i'] by (auto simp: key_def simp del: bytes_of_append)

lemma key_same_user [simp]: "key u i = key u i' \<longleftrightarrow> i = i'"
  by (auto simp: key_def simp del: bytes_of_append)

lemma length_key: "length (key u i) = length u + 1 + length i"
  by (simp add: key_def)

lemma key_nonempty [simp]: "key u i \<noteq> []"
  using length_key [of u i] by (metis add_is_0 length_0_conv one_neq_zero)

lemma prefix_key: "prefix (bytes_of (u @ '':'')) k \<longleftrightarrow> (\<exists>i. k = key u i)"
proof
  assume "prefix (bytes_of (u @ '':'')) k"
  then obtain r where "k = bytes_of (u @ '':'') @ r" by (auto simp: prefix_def)
  then have "k = key u (str_of r)" by (simp add: key_def bytes_of_Cons)
  then show "\<exists>i. k = key u i" ..
qed (auto simp: key_def prefix_def bytes_of_Cons)

section \<open>The contract of a keyed cell\<close>

text \<open>
  \<open>Put\<close>, \<open>Get\<close>, \<open>Delete\<close> on one bucket and \<open>PutVersion\<close>, \<open>GetVersion\<close>, \<open>DeleteVersion\<close> on the
  other keep the same contract: a write either succeeds and changes exactly its key, or
  returns an error and changes nothing; a read returns what the map holds or an error.
\<close>

locale keyed_cell =
  fixes put :: "'st \<Rightarrow> string \<Rightarrow> string \<Rightarrow> 'v \<Rightarrow> unit res \<times> 'st"
    and get :: "'st \<Rightarrow> string \<Rightarrow> string \<Rightarrow> 'v res"
    and del :: "'st \<Rightarrow> string \<Rightarrow> string \<Rightarrow> unit res \<times> 'st"
    and cell :: "'st \<Rightarrow> bytes \<Rightarrow> 'v option"
    and inv :: "'st \<Rightarrow> bool"
  assumes put_step: "inv d \<Longrightarrow> put d u i v = (r, d') \<Longrightarrow>
        inv d' \<and> (r = Ok () \<and> cell d' = (cell d)(key u i \<mapsto> v) \<or> (\<exists>e. r = Err e) \<and> d' = d)"
    and del_step: "inv d \<Longrightarrow> del d u i = (r, d') \<Longrightarrow>
        inv d' \<and> (r = Ok () \<and> cell d' = (cell d)(key u i := None) \<or> (\<exists>e. r = Err e) \<and> d' = d)"
    and get_step: "inv d \<Longrightarrow> get d u i = q \<Longrightarrow>
        (\<exists>e. q = Err e) \<or> (\<exists>v. cell d (key u i) = Some v \<and> q = Ok v)"
begin

lemma get_after_put:
  assumes "inv d" and "put d u i v = (Ok (), d')" and "get d' u i = Ok w"
  shows "w = v"
  using put_step [OF assms(1,2)] get_step [OF _ assms(3)] by auto

lemma get_other_after_put:
  assumes "inv d" and "put d u i v = (r, d')" and "key u' i' \<noteq> key u i"
    and "get d u' i' = Ok x" and "get d' u' i' = Ok y"
  shows "x = y"
  using put_step [OF assms(1,2)] get_step [OF assms(1,4)] get_step [OF _ assms(5)] assms(3) by auto

lemma get_after_del:
  assumes "inv d" and "del d u i = (Ok (), d')"
  shows "\<exists>e. get d' u i = Err e"
  using del_step [OF assms] get_step [of d' u i] by fastforce

lemma put_no_panic: "inv d \<Longrightarrow> is_ok (fst (put d u i v)) \<or> (\<exists>e. fst (put d u i v) = Err e)"
  using put_step [of d u i v "fst (put d u i v)" "snd (put d u i v)"] by auto

lemma get_no_panic: "inv d \<Longrightarrow> is_ok (get d u i) \<or> (\<exists>e. get d u i = Err e)"
  using get_step by fastforce

end

section \<open>The operations over bbolt\<close>

lemma list_loop_chain:
  "chain B b (bytes_of p) cur kvs \<Longrightarrow>
   list_loop B b p cur ids = Some (ids @ map (\<lambda>kv. TrimPrefix (str_of (fst kv)) p) kvs)"
proof (induction kvs arbitrary: cur ids)
  case Nil
  then show ?case
    by (subst list_loop.simps) (auto simp: HasPrefix_def prefix_str_of split: option.splits)
next
  case (Cons kv kvs)
  then show ?case
    by (subst list_loop.simps) (auto simp: HasPrefix_def prefix_str_of)
qed

definition smax :: "int64 \<Rightarrow> int64 \<Rightarrow> int64" where
  "smax a b = (if sint a < sint b then b else a)"

lemma sint_smax: "sint (smax a b) = max (sint a) (sint b)"
  by (simp add: smax_def)

lemma sint_foldl_smax: "sint (foldl smax m vs) = Max (insert (sint m) (sint ` set vs))"
proof (induction vs arbitrary: m)
  case Nil
  then show ?case by simp
next
  case (Cons v vs)
  have "insert (max (sint m) (sint v)) (sint ` set vs) \<noteq> {}" by simp
  have "Max (insert (max (sint m) (sint v)) (sint ` set vs)) =
        Max (insert (sint m) (insert (sint v) (sint ` set vs)))"
    by (cases "vs = []") (simp_all add: Max_insert max.assoc)
  with Cons show ?case by (simp add: sint_smax)
qed

lemma max_loop_chain:
  assumes "chain B b (bytes_of p) cur kvs" and "\<forall>kv \<in> set kvs. length (snd kv) = 8"
  shows "max_loop B b p cur mx =
           Some (Ok (foldl smax mx (map (\<lambda>kv. the (bytesToInt64 (snd kv))) kvs)))"
  using assms
proof (induction kvs arbitrary: cur mx)
  case Nil
  then show ?case
    by (subst max_loop.simps) (auto simp: HasPrefix_def prefix_str_of split: option.splits)
next
  case (Cons kv kvs)
  from Cons.prems(2) obtain v where "bytesToInt64 (snd kv) = Some v"
    using bytesToInt64_total by fastforce
  with Cons show ?case
    by (subst max_loop.simps) (auto simp: HasPrefix_def prefix_str_of smax_def [symmetric])
qed

context bolt
begin

lemma Put_step:
  assumes "store_ok B d" and "Put B d u i data = (r, d')"
  shows "store_ok B d' \<and> version_cell B d' = version_cell B d \<and> is_open d' = is_open d \<and>
    (r = Ok () \<and> entry_cell B d' = (entry_cell B d)(key u i \<mapsto> data) \<or> (\<exists>e. r = Err e) \<and> d' = d)"
proof -
  obtain b where b: "buckets d ''entries'' = Some b"
    using assms(1) by (auto simp: store_ok_def)
  let ?f = "\<lambda>tx. case buckets tx ''entries'' of
         None \<Rightarrow> Panic
       | Some b \<Rightarrow>
           (case bk_put B b (key u i) data of
              Inl e \<Rightarrow> Err e
            | Inr b' \<Rightarrow> Ok (tx\<lparr>buckets := (buckets tx)(''entries'' \<mapsto> b')\<rparr>))"
  show ?thesis
    using update [of d ?f] assms b unfolding Put_def
    by (cases "bk_put B b (key u i) data")
      (auto simp: entry_cell_def version_cell_def store_ok_def fun_eq_iff dest!: get_put)
qed

lemma Delete_step:
  assumes "store_ok B d" and "Delete B d u i = (r, d')"
  shows "store_ok B d' \<and> version_cell B d' = version_cell B d \<and> is_open d' = is_open d \<and>
    (r = Ok () \<and> entry_cell B d' = (entry_cell B d)(key u i := None) \<or> (\<exists>e. r = Err e) \<and> d' = d)"
proof -
  obtain b where b: "buckets d ''entries'' = Some b"
    using assms(1) by (auto simp: store_ok_def)
  let ?f = "\<lambda>tx. case buckets tx ''entries'' of
         None \<Rightarrow> Panic
       | Some b \<Rightarrow>
           (case bk_delete B b (key u i) of
              Inl e \<Rightarrow> Err e
            | Inr b' \<Rightarrow> Ok (tx\<lparr>buckets := (buckets tx)(''entries'' \<mapsto> b')\<rparr>))"
  show ?thesis
    using update [of d ?f] assms b unfolding Delete_def
    by (cases "bk_delete B b (key u i)")
      (auto simp: entry_cell_def version_cell_def store_ok_def fun_eq_iff dest!: get_delete)
qed

lemma PutVersion_step:
  assumes "store_ok B d" and "PutVersion B d u i v = (r, d')"
  shows "store_ok B d' \<and> entry_cell B d' = entry_cell B d \<and> is_open d' = is_open d \<and>
    (r = Ok () \<and> version_cell B d' = (version_cell B d)(key u i \<mapsto> v) \<or> (\<exists>e. r = Err e) \<and> d' = d)"
proof -
  obtain b where b: "buckets d ''versions'' = Some b"
    using assms(1) by (auto simp: store_ok_def)
  let ?f = "\<lambda>tx. case buckets tx ''versions'' of
         None \<Rightarrow> Panic
       | Some b \<Rightarrow>
           (case bk_put B b (key u i) (int64ToBytes v) of
              Inl e \<Rightarrow> Err e
            | Inr b' \<Rightarrow> Ok (tx\<lparr>buckets := (buckets tx)(''versions'' \<mapsto> b')\<rparr>))"
  show ?thesis
    using update [of d ?f] assms b unfolding PutVersion_def
    by (cases "bk_put B b (key u i) (int64ToBytes v)")
      (auto simp: entry_cell_def version_cell_def store_ok_def fun_eq_iff dest!: get_put split: if_splits)
qed

lemma DeleteVersion_step:
  assumes "store_ok B d" and "DeleteVersion B d u i = (r, d')"
  shows "store_ok B d' \<and> entry_cell B d' = entry_cell B d \<and> is_open d' = is_open d \<and>
    (r = Ok () \<and> version_cell B d' = (version_cell B d)(key u i := None) \<or> (\<exists>e. r = Err e) \<and> d' = d)"
proof -
  obtain b where b: "buckets d ''versions'' = Some b"
    using assms(1) by (auto simp: store_ok_def)
  let ?f = "\<lambda>tx. case buckets tx ''versions'' of
         None \<Rightarrow> Ok tx
       | Some b \<Rightarrow>
           (case bk_delete B b (key u i) of
              Inl e \<Rightarrow> Err e
            | Inr b' \<Rightarrow> Ok (tx\<lparr>buckets := (buckets tx)(''versions'' \<mapsto> b')\<rparr>))"
  show ?thesis
    using update [of d ?f] assms b unfolding DeleteVersion_def
    by (cases "bk_delete B b (key u i)")
      (auto simp: entry_cell_def version_cell_def store_ok_def fun_eq_iff dest!: get_delete split: if_splits)
qed

lemma Get_cases:
  assumes "store_ok B d"
  shows "Get B d u i =
    (case db_view_err B d of
       Some e \<Rightarrow> Err e
     | None \<Rightarrow> (case entry_cell B d (key u i) of
                 None \<Rightarrow> Err (Errorf ''entry not found'') | Some v \<Rightarrow> Ok v))"
  using assms by (auto simp: Get_def store_ok_def entry_cell_def split: option.splits)

lemma GetVersion_cases:
  assumes "store_ok B d"
  shows "GetVersion B d u i =
    (case db_view_err B d of
       Some e \<Rightarrow> Err e
     | None \<Rightarrow> (case version_cell B d (key u i) of
                 None \<Rightarrow> Err (Errorf ''version not found'') | Some v \<Rightarrow> Ok v))"
  using assms
  by (auto simp: GetVersion_def store_ok_def version_cell_def bytesToInt64_def split: option.splits)

end

sublocale bolt \<subseteq> entries: keyed_cell "Put B" "Get B" "Delete B" "entry_cell B" "store_ok B"
proof unfold_locales
  show "store_ok B d \<Longrightarrow> Put B d u i v = (r, d') \<Longrightarrow>
      store_ok B d' \<and> (r = Ok () \<and> entry_cell B d' = (entry_cell B d)(key u i \<mapsto> v) \<or>
        (\<exists>e. r = Err e) \<and> d' = d)" for d u i v r d'
    using Put_step by blast
  show "store_ok B d \<Longrightarrow> Delete B d u i = (r, d') \<Longrightarrow>
      store_ok B d' \<and> (r = Ok () \<and> entry_cell B d' = (entry_cell B d)(key u i := None) \<or>
        (\<exists>e. r = Err e) \<and> d' = d)" for d u i r d'
    using Delete_step by blast
  show "store_ok B d \<Longrightarrow> Get B d u i = q \<Longrightarrow>
      (\<exists>e. q = Err e) \<or> (\<exists>v. entry_cell B d (key u i) = Some v \<and> q = Ok v)" for d u i q
    by (auto simp: Get_cases split: option.splits)
qed

sublocale bolt \<subseteq> versions: keyed_cell "PutVersion B" "GetVersion B" "DeleteVersion B" "version_cell B" "store_ok B"
proof unfold_locales
  show "store_ok B d \<Longrightarrow> PutVersion B d u i v = (r, d') \<Longrightarrow>
      store_ok B d' \<and> (r = Ok () \<and> version_cell B d' = (version_cell B d)(key u i \<mapsto> v) \<or>
        (\<exists>e. r = Err e) \<and> d' = d)" for d u i v r d'
    using PutVersion_step by blast
  show "store_ok B d \<Longrightarrow> DeleteVersion B d u i = (r, d') \<Longrightarrow>
      store_ok B d' \<and> (r = Ok () \<and> version_cell B d' = (version_cell B d)(key u i := None) \<or>
        (\<exists>e. r = Err e) \<and> d' = d)" for d u i r d'
    using DeleteVersion_step by blast
  show "store_ok B d \<Longrightarrow> GetVersion B d u i = q \<Longrightarrow>
      (\<exists>e. q = Err e) \<or> (\<exists>v. version_cell B d (key u i) = Some v \<and> q = Ok v)" for d u i q
    by (auto simp: GetVersion_cases split: option.splits)
qed

section \<open>Scans: List and GetMaxVersion\<close>

text \<open>The identifiers of a user, in the order of their keys.\<close>

definition ids_of :: "(bytes \<Rightarrow> 'v option) \<Rightarrow> string \<Rightarrow> string set" where
  "ids_of m u = {i. m (key u i) \<noteq> None}"

context bolt
begin

lemma List_cases:
  assumes "store_ok B d"
  shows "(\<exists>e. List B d u = Err e) \<or>
    (\<exists>ids. List B d u = Ok ids \<and> set ids = ids_of (entry_cell B d) u \<and>
       sorted_wrt (\<lambda>i j. key u i < key u j) ids)"
proof (cases "db_view_err B d")
  case (Some e)
  then show ?thesis by (simp add: List_def)
next
  case None
  obtain b where b: "buckets d ''entries'' = Some b"
    using assms by (auto simp: store_ok_def)
  let ?p = "u @ '':''"
  obtain kvs where kvs: "chain B b (bytes_of ?p) (cur_seek B b (bytes_of ?p)) kvs"
    "sorted_wrt (<) (map fst kvs)" "set kvs = with_prefix B b (bytes_of ?p)"
    using prefix_scan by blast
  let ?id = "\<lambda>kv :: bytes \<times> bytes. TrimPrefix (str_of (fst kv)) ?p"
  let ?ids = "map ?id kvs"
  have id: "fst kv = key u (?id kv)" if "kv \<in> set kvs" for kv
  proof -
    have "prefix (bytes_of ?p) (fst kv)" using that kvs(3) by (auto simp: with_prefix_def)
    then obtain i where "fst kv = key u i" by (auto simp only: prefix_key)
    then show ?thesis
      using TrimPrefix_append [of ?p i] by (simp add: key_def del: bytes_of_append TrimPrefix_append)
  qed
  have l: "List B d u = Ok ?ids"
    using list_loop_chain [OF kvs(1), of "[]"] None b by (simp add: List_def Let_def)
  have "map (key u) ?ids = map fst kvs" using id by simp
  then have sorted: "sorted_wrt (\<lambda>i j. key u i < key u j) ?ids"
    using kvs(2) by (metis sorted_wrt_map)
  have "set ?ids = ids_of (entry_cell B d) u"
  proof (intro set_eqI iffI)
    fix i assume "i \<in> set ?ids"
    then obtain kv where "kv \<in> set kvs" "i = ?id kv" by auto
    then show "i \<in> ids_of (entry_cell B d) u"
      using id kvs(3) b by (fastforce simp: ids_of_def entry_cell_def with_prefix_def)
  next
    fix i assume "i \<in> ids_of (entry_cell B d) u"
    then obtain v where "bk_get B b (key u i) = Some v"
      using b by (auto simp: ids_of_def entry_cell_def)
    then have kv: "(key u i, v) \<in> set kvs"
      using prefix_key [of u "key u i"] kvs(3) by (auto simp: with_prefix_def)
    from id [OF kv] have "?id (key u i, v) = i" by simp
    with kv show "i \<in> set ?ids" by force
  qed
  with l sorted show ?thesis by blast
qed

lemma List_reliable:
  assumes "store_ok B d" and "db_view_err B d = None"
  obtains ids where "List B d u = Ok ids" and "set ids = ids_of (entry_cell B d) u"
    and "sorted_wrt (\<lambda>i j. key u i < key u j) ids"
proof -
  obtain b where b: "buckets d ''entries'' = Some b"
    using assms by (auto simp: store_ok_def)
  have "\<nexists>e. List B d u = Err e"
    using assms b by (auto simp: List_def Let_def split: option.splits)
  with List_cases [OF assms(1), of u] that show ?thesis by blast
qed

lemma GetMaxVersion_cases:
  assumes "store_ok B d"
  shows "(\<exists>e. GetMaxVersion B d u = Err e \<and> db_view_err B d = Some e) \<or>
    (\<exists>m. GetMaxVersion B d u = Ok m \<and>
       sint m = Max (insert 0 {sint v | i v. version_cell B d (key u i) = Some v}))"
proof (cases "db_view_err B d")
  case (Some e)
  then show ?thesis by (simp add: GetMaxVersion_def)
next
  case None
  obtain b where b: "buckets d ''versions'' = Some b"
    and eight: "\<And>k data. bk_get B b k = Some data \<Longrightarrow> length data = 8"
    using assms by (auto simp: store_ok_def)
  let ?p = "u @ '':''"
  let ?dec = "\<lambda>kv :: bytes \<times> bytes. the (bytesToInt64 (snd kv))"
  obtain kvs where kvs: "chain B b (bytes_of ?p) (cur_seek B b (bytes_of ?p)) kvs"
    "set kvs = with_prefix B b (bytes_of ?p)"
    using prefix_scan by blast
  have len: "\<forall>kv \<in> set kvs. length (snd kv) = 8"
    using kvs(2) eight by (auto simp: with_prefix_def)
  have "GetMaxVersion B d u = Ok (foldl smax 0 (map ?dec kvs))"
    using max_loop_chain [OF kvs(1) len] None b by (simp add: GetMaxVersion_def Let_def)
  moreover have "sint ` set (map ?dec kvs) = {sint v | i v. version_cell B d (key u i) = Some v}"
  proof -
    have "(w \<in> ?dec ` with_prefix B b (bytes_of ?p)) \<longleftrightarrow> (\<exists>i. version_cell B d (key u i) = Some w)" for w
    proof
      assume "w \<in> ?dec ` with_prefix B b (bytes_of ?p)"
      then obtain k data where k: "bk_get B b k = Some data" "prefix (bytes_of ?p) k"
        "w = the (bytesToInt64 data)"
        by (auto simp: with_prefix_def)
      then obtain i where "k = key u i" by (auto simp only: prefix_key)
      moreover have "bytesToInt64 data = Some w"
        using k(3) bytesToInt64_total [OF eight [OF k(1)]] by auto
      ultimately have "version_cell B d (key u i) = Some w"
        using k(1) b by (simp add: version_cell_def)
      then show "\<exists>i. version_cell B d (key u i) = Some w" ..
    next
      assume "\<exists>i. version_cell B d (key u i) = Some w"
      then obtain i data where i: "bk_get B b (key u i) = Some data" "bytesToInt64 data = Some w"
        using b by (auto simp: version_cell_def bind_eq_Some_conv)
      then have "(key u i, data) \<in> with_prefix B b (bytes_of ?p)"
        using prefix_key [of u "key u i"] by (auto simp: with_prefix_def)
      with i(2) show "w \<in> ?dec ` with_prefix B b (bytes_of ?p)" by force
    qed
    then have "?dec ` set kvs = {w. \<exists>i. version_cell B d (key u i) = Some w}"
      unfolding kvs(2) by (intro set_eqI) simp
    then have "sint ` set (map ?dec kvs) = sint ` {w. \<exists>i. version_cell B d (key u i) = Some w}"
      by simp
    then show ?thesis by blast
  qed
  ultimately show ?thesis by (simp add: sint_foldl_smax)
qed

end

section \<open>Sequences of operations\<close>

text \<open>
  The abstract store is the pair of maps; an operation that succeeds changes exactly its key,
  one that fails changes nothing.
\<close>

datatype store_op =
    OpPut string string bytes
  | OpDelete string string
  | OpPutVersion string string int64
  | OpDeleteVersion string string

type_synonym maps = "(bytes \<Rightarrow> bytes option) \<times> (bytes \<Rightarrow> int64 option)"

fun run_op :: "'b bolt_ops \<Rightarrow> store_op \<Rightarrow> 'b db \<Rightarrow> unit res \<times> 'b db" where
  "run_op B (OpPut u i x) d = Put B d u i x"
| "run_op B (OpDelete u i) d = Delete B d u i"
| "run_op B (OpPutVersion u i v) d = PutVersion B d u i v"
| "run_op B (OpDeleteVersion u i) d = DeleteVersion B d u i"

fun run_ops :: "'b bolt_ops \<Rightarrow> store_op list \<Rightarrow> 'b db \<Rightarrow> unit res list \<times> 'b db" where
  "run_ops B [] d = ([], d)"
| "run_ops B (p # ps) d =
     (case run_op B p d of (r, d1) \<Rightarrow> (case run_ops B ps d1 of (rs, d2) \<Rightarrow> (r # rs, d2)))"

fun spec_op :: "store_op \<Rightarrow> maps \<Rightarrow> maps" where
  "spec_op (OpPut u i x) (E, V) = (E(key u i \<mapsto> x), V)"
| "spec_op (OpDelete u i) (E, V) = (E(key u i := None), V)"
| "spec_op (OpPutVersion u i v) (E, V) = (E, V(key u i \<mapsto> v))"
| "spec_op (OpDeleteVersion u i) (E, V) = (E, V(key u i := None))"

fun spec_ops :: "store_op list \<Rightarrow> unit res list \<Rightarrow> maps \<Rightarrow> maps" where
  "spec_ops (p # ps) (r # rs) m = spec_ops ps rs (if r = Ok () then spec_op p m else m)"
| "spec_ops _ _ m = m"

definition maps_of :: "'b bolt_ops \<Rightarrow> 'b db \<Rightarrow> maps" where
  "maps_of B d = (entry_cell B d, version_cell B d)"

context bolt
begin

lemma run_op_spec:
  assumes "store_ok B d" and "run_op B p d = (r, d')"
  shows "store_ok B d' \<and> returned r \<and> maps_of B d' = (if r = Ok () then spec_op p (maps_of B d) else maps_of B d)"
proof (cases p)
  case (OpPut u i x)
  then show ?thesis using Put_step [OF assms(1), of u i x r d'] assms(2) by (auto simp: maps_of_def)
next
  case (OpDelete u i)
  then show ?thesis using Delete_step [OF assms(1), of u i r d'] assms(2) by (auto simp: maps_of_def)
next
  case (OpPutVersion u i v)
  then show ?thesis using PutVersion_step [OF assms(1), of u i v r d'] assms(2) by (auto simp: maps_of_def)
next
  case (OpDeleteVersion u i)
  then show ?thesis using DeleteVersion_step [OF assms(1), of u i r d'] assms(2) by (auto simp: maps_of_def)
qed

lemma run_ops_spec:
  "store_ok B d \<Longrightarrow> run_ops B ps d = (rs, d') \<Longrightarrow>
     store_ok B d' \<and> length rs = length ps \<and> (\<forall>r \<in> set rs. returned r) \<and>
     maps_of B d' = spec_ops ps rs (maps_of B d)"
proof (induction ps arbitrary: d rs)
  case (Cons p ps)
  then show ?case using run_op_spec [of d p] by (auto split: prod.splits)
qed simp

lemma NewStore_step:
  assumes "NewStore B (Inr d) = (Ok d', fin)"
    and "\<And>b k data. buckets d ''versions'' = Some b \<Longrightarrow> bk_get B b k = Some data \<Longrightarrow> length data = 8"
  shows "store_ok B d' \<and> maps_of B d' = maps_of B d \<and> is_open d' = is_open d"
proof -
  let ?f = "\<lambda>tx. case tx_create B tx ''entries'' of
                    Inl e \<Rightarrow> Err e
                  | Inr tx1 \<Rightarrow>
                      (case tx_create B tx1 ''versions'' of
                         Inl e \<Rightarrow> Err e
                       | Inr tx2 \<Rightarrow> Ok tx2)"
  have "db_update B d ?f = (Ok (), d')"
    using assms(1) by (auto simp: NewStore_def split: prod.splits res.splits)
  then have "tx_result d (?f d) = (Ok (), d')" using update [of d ?f] by auto
  then obtain tx1 where 1: "tx_create B d ''entries'' = Inr tx1" "tx_create B tx1 ''versions'' = Inr d'"
    by (auto split: sum.splits)
  have d': "d' = with_bucket (bk_new B) (with_bucket (bk_new B) d ''entries'') ''versions''"
    using create [OF 1(1)] create [OF 1(2)] by simp
  show ?thesis
    using assms(2)
    by (auto simp: d' with_bucket_def store_ok_def maps_of_def entry_cell_def version_cell_def get_new fun_eq_iff)
qed

end

text \<open>An empty reference store, for evaluating the model.\<close>

definition ref_store :: "alist db" where
  "ref_store = \<lparr>buckets = [''entries'' \<mapsto> [], ''versions'' \<mapsto> []], is_open = True\<rparr>"

lemma ref_store_ok [simp]: "store_ok ref_bolt ref_store"
  by (simp add: store_ok_def ref_store_def ref_bolt_def)

lemma ref_bolt_axioms: "bolt ref_bolt" "bolt_reliable ref_bolt"
  by unfold_locales

section \<open>Properties\<close>

text \<open>
  A version survives its encoding as 8 big-endian bytes, over the whole range of \<open>int64\<close>
  (the tombstone -1 included), and the encoding has the length that \<open>GetVersion\<close> and
  \<open>GetMaxVersion\<close> need to read it without a panic.
\<close>

theorem version_bytes_roundtrip:
  "bytesToInt64 (int64ToBytes i) = Some i \<and> length (int64ToBytes i) = 8"
  by simp


text \<open>
  Opening the database gives a well-formed store with the contents it had: the buckets that
  are missing are made, nothing is lost.
\<close>

theorem NewStore_opens:
  assumes "bolt B" and "NewStore B (Inr d) = (Ok d', fin)"
    and "\<And>b k data. buckets d ''versions'' = Some b \<Longrightarrow> bk_get B b k = Some data \<Longrightarrow> length data = 8"
  shows "store_ok B d' \<and> maps_of B d' = maps_of B d \<and> is_open d' = is_open d"
  using bolt.NewStore_step [OF assms] .

text \<open>
  \<open>List\<close> answers exactly the ids the user has entries under, each once, in the order of
  their keys, or with an error; it never panics and its loop ends.
\<close>

theorem List_exact:
  assumes "bolt B" and "store_ok B d"
  shows "(\<exists>e. List B d u = Err e) \<or>
    (\<exists>ids. List B d u = Ok ids \<and> distinct ids \<and> set ids = {i. entry_cell B d (key u i) \<noteq> None} \<and>
       sorted_wrt (\<lambda>i j. key u i < key u j) ids)"
proof -
  have "distinct ids" if "sorted_wrt (\<lambda>i j. key u i < key u j) ids" for ids
    using that by (induction ids) auto
  then show ?thesis using bolt.List_cases [OF assms, of u] by (auto simp: ids_of_def)
qed

text \<open>
  C21. \<open>GetMaxVersion\<close> is the highest version the user has, as signed integers and never below
  0, so that tombstones do not count; its loop ends.
\<close>

theorem GetMaxVersion_exact:
  assumes "bolt B" and "store_ok B d"
  shows "(\<exists>e. GetMaxVersion B d u = Err e \<and> db_view_err B d = Some e) \<or>
    (\<exists>m. GetMaxVersion B d u = Ok m \<and>
       sint m = Max (insert 0 {sint v | i v. version_cell B d (key u i) = Some v}))"
  using bolt.GetMaxVersion_cases [OF assms] .

text \<open>
  C22. Users are isolated when their ids contain no colon, as UUIDs do not: what one user writes
  or deletes changes no other user's entry or version.
\<close>

theorem users_isolated:
  assumes "bolt B" and "store_ok B d" and "run_op B p d = (r, d')"
    and "p \<in> {OpPut u i x, OpDelete u i, OpPutVersion u i v, OpDeleteVersion u i}"
    and "CHR '':'' \<notin> set u" and "CHR '':'' \<notin> set u'" and "u' \<noteq> u"
  shows "entry_cell B d' (key u' j) = entry_cell B d (key u' j) \<and>
         version_cell B d' (key u' j) = version_cell B d (key u' j)"
proof -
  have "key u' j \<noteq> key u i" using key_inject [OF assms(6,5)] assms(7) by simp
  then show ?thesis
    using bolt.run_op_spec [OF assms(1-3)] assms(4) by (auto simp: maps_of_def split: if_splits)
qed

text \<open>
  The key format does not separate a user id that contains a colon: what is stored for
  user \<open>a\<close> under the id \<open>b:c\<close> is read back by user \<open>a:b\<close> under the id \<open>c\<close>.
\<close>

theorem colon_keys_collide:
  assumes "bolt B" and "store_ok B d" and "Put B d ''a'' ''b:c'' x = (Ok (), d')" and "db_view_err B d' = None"
  shows "Get B d' ''a:b'' ''c'' = Ok x"
proof -
  have "key ''a:b'' ''c'' = key ''a'' ''b:c''" by (simp add: key_def)
  then show ?thesis
    using bolt.Put_step [OF assms(1-3)] bolt.Get_cases [OF assms(1), of d' "''a:b''" "''c''"] assms(4)
    by auto
qed

section \<open>Witnesses\<close>

lemma ref_put:
  "length x \<le> 100 \<Longrightarrow> length u + length i \<le> 100 \<Longrightarrow> Put ref_bolt ref_store u i x =
     (Ok (), ref_store\<lparr>buckets := (buckets ref_store)(''entries'' \<mapsto> [(key u i, x)])\<rparr>)"
  by (simp add: Put_def ref_bolt_def ref_store_def put_ok_def length_key)


theorem NewStore_opens_witness: "store_ok ref_bolt ref_store \<and> maps_of ref_bolt ref_store = maps_of ref_bolt ref_db"
proof -
  have "NewStore ref_bolt (Inr ref_db) = (Ok ref_store, Some ref_store)"
    by (simp add: NewStore_def ref_bolt_def ref_db_def ref_store_def with_bucket_def)
  from NewStore_opens [OF ref_bolt_axioms(1) this] show ?thesis by (simp add: ref_db_def)
qed

theorem List_exact_witness:
  "\<exists>ids. List ref_bolt ref_store ''u'' = Ok ids \<and> distinct ids \<and>
     set ids = {i. entry_cell ref_bolt ref_store (key ''u'' i) \<noteq> None}"
proof -
  have "\<nexists>e. List ref_bolt ref_store ''u'' = Err e"
    by (auto simp: List_def ref_bolt_def ref_store_def Let_def split: option.splits)
  then show ?thesis using List_exact [OF ref_bolt_axioms(1) ref_store_ok, of "''u''"] by blast
qed

theorem GetMaxVersion_exact_witness:
  "\<exists>m. GetMaxVersion ref_bolt ref_store ''u'' = Ok m \<and>
     sint m = Max (insert 0 {sint v | i v. version_cell ref_bolt ref_store (key ''u'' i) = Some v})"
proof -
  have "db_view_err ref_bolt ref_store = None" by (simp add: ref_bolt_def ref_store_def)
  then show ?thesis using GetMaxVersion_exact [OF ref_bolt_axioms(1) ref_store_ok, of "''u''"] by auto
qed

theorem users_isolated_witness:
  "entry_cell ref_bolt (snd (Put ref_bolt ref_store ''u'' ''i'' [1])) (key ''v'' ''i'') = None"
proof -
  have run: "run_op ref_bolt (OpPut ''u'' ''i'' [1]) ref_store =
      (Ok (), ref_store\<lparr>buckets := (buckets ref_store)(''entries'' \<mapsto> [(key ''u'' ''i'', [1])])\<rparr>)"
    by (simp add: ref_put)
  show ?thesis
    using users_isolated [OF ref_bolt_axioms(1) ref_store_ok run, of "''u''" "''i''" "[1]" 0 "''v''" "''i''"] run
    by (simp add: ref_store_def ref_bolt_def entry_cell_def)
qed

theorem colon_keys_collide_witness:
  "Get ref_bolt (snd (Put ref_bolt ref_store ''a'' ''b:c'' [7])) ''a:b'' ''c'' = Ok [7]"
proof -
  let ?d = "ref_store\<lparr>buckets := (buckets ref_store)(''entries'' \<mapsto> [(key ''a'' ''b:c'', [7])])\<rparr>"
  have run: "Put ref_bolt ref_store ''a'' ''b:c'' [7] = (Ok (), ?d)" by (simp add: ref_put)
  have "db_view_err ref_bolt ?d = None" by (simp add: ref_bolt_def ref_store_def)
  then show ?thesis using colon_keys_collide [OF ref_bolt_axioms(1) ref_store_ok run] run by simp
qed

end
