(* ===== verification/Policy.thy ===== *)
theory Policy
  imports Prelude
begin

text \<open>
  The conflict policies of \<open>internal/sync/policy.go\<close>: the interface \<open>ConflictResolver\<close> as a
  locale, its three implementations and \<open>NewResolver\<close>.
\<close>

section \<open>Data\<close>

record policy_entry =
  pe_ID :: string
  pe_Version :: int64
  pe_EncryptedData :: bytes
  pe_UpdatedAt :: int64

text \<open>
  \<open>Resolve(local, remote *Entry)\<close> returns one of its two pointers, and \<open>FullSync\<close> compares the
  returned pointer with the one it passed.  The model returns which of the two it is.
\<close>

datatype which = LocalPtr | RemotePtr

fun deref :: "policy_entry \<Rightarrow> policy_entry \<Rightarrow> which \<Rightarrow> policy_entry" where
  "deref l r LocalPtr = l"
| "deref l r RemotePtr = r"

text \<open>The dynamic type of a \<open>ConflictResolver\<close> value.\<close>

datatype resolver = LastWriteWins | ServerAuthoritative | ClientAuthoritative

definition PolicyLastWriteWins :: string where
  "PolicyLastWriteWins = ''last-write-wins''"

definition PolicyServerAuthoritative :: string where
  "PolicyServerAuthoritative = ''server-authoritative''"

definition PolicyClientAuthoritative :: string where
  "PolicyClientAuthoritative = ''client-authoritative''"

section \<open>Operations\<close>

definition lww_Resolve :: "policy_entry \<Rightarrow> policy_entry \<Rightarrow> which res" where
  "lww_Resolve local remote =
     (if sint (pe_UpdatedAt remote) > sint (pe_UpdatedAt local) then Ok RemotePtr else Ok LocalPtr)"

definition server_Resolve :: "policy_entry \<Rightarrow> policy_entry \<Rightarrow> which res" where
  "server_Resolve _ remote = Ok RemotePtr"

definition client_Resolve :: "policy_entry \<Rightarrow> policy_entry \<Rightarrow> which res" where
  "client_Resolve local _ = Ok LocalPtr"

fun Resolve :: "resolver \<Rightarrow> policy_entry \<Rightarrow> policy_entry \<Rightarrow> which res" where
  "Resolve LastWriteWins l r = lww_Resolve l r"
| "Resolve ServerAuthoritative l r = server_Resolve l r"
| "Resolve ClientAuthoritative l r = client_Resolve l r"

definition NewResolver :: "string \<Rightarrow> resolver res" where
  "NewResolver policy =
     (if policy = PolicyLastWriteWins \<or> policy = '''' then Ok LastWriteWins
      else if policy = PolicyServerAuthoritative then Ok ServerAuthoritative
      else if policy = PolicyClientAuthoritative then Ok ClientAuthoritative
      else Err (Errorf (''unknown sync policy: '' @ policy)))"

section \<open>The interface \<open>ConflictResolver\<close>\<close>

text \<open>
  What \<open>FullSync\<close> relies on: resolution never fails, depends only on the update times, and
  once the remote side wins it keeps winning when its update time grows.
\<close>

locale conflict_resolver =
  fixes resolve :: "policy_entry \<Rightarrow> policy_entry \<Rightarrow> which res"
  assumes total: "resolve l r = Ok LocalPtr \<or> resolve l r = Ok RemotePtr"
    and by_time: "pe_UpdatedAt l = pe_UpdatedAt l' \<Longrightarrow> pe_UpdatedAt r = pe_UpdatedAt r' \<Longrightarrow>
        resolve l r = resolve l' r'"
    and monotone: "resolve l r = Ok RemotePtr \<Longrightarrow> sint (pe_UpdatedAt r) \<le> sint (pe_UpdatedAt r') \<Longrightarrow>
        resolve l r' = Ok RemotePtr"
begin

lemma never_fails: "\<exists>w. resolve l r = Ok w"
  using total by blast

lemma local_antitone:
  assumes "resolve l r = Ok LocalPtr" and "sint (pe_UpdatedAt r') \<le> sint (pe_UpdatedAt r)"
  shows "resolve l r' = Ok LocalPtr"
proof (rule ccontr)
  assume "resolve l r' \<noteq> Ok LocalPtr"
  with total have "resolve l r' = Ok RemotePtr" by blast
  then have "resolve l r = Ok RemotePtr" using assms(2) by (rule monotone)
  with assms(1) show False by simp
qed

end

interpretation lww: conflict_resolver "Resolve LastWriteWins"
  by unfold_locales (auto simp: lww_Resolve_def split: if_splits)

interpretation server_auth: conflict_resolver "Resolve ServerAuthoritative"
  by unfold_locales (auto simp: server_Resolve_def)

interpretation client_auth: conflict_resolver "Resolve ClientAuthoritative"
  by unfold_locales (auto simp: client_Resolve_def)

lemma NewResolver_default [simp]: "NewResolver ''last-write-wins'' = Ok LastWriteWins"
  by (simp add: NewResolver_def PolicyLastWriteWins_def)

lemma lww_zero_local:
  "pe_UpdatedAt l = 0 \<Longrightarrow>
   Resolve LastWriteWins l r = Ok (if 0 < sint (pe_UpdatedAt r) then RemotePtr else LocalPtr)"
  by (simp add: lww_Resolve_def)

section \<open>Properties\<close>

text \<open>
  The three policies: last-write-wins takes the remote side exactly when it is dated
  strictly later, as signed 64-bit seconds; the other two ignore the dates; the empty name is
  last-write-wins and a name that is none of the three is an error.
\<close>

theorem policies_resolve:
  "Resolve LastWriteWins l r = Ok (if sint (pe_UpdatedAt l) < sint (pe_UpdatedAt r) then RemotePtr else LocalPtr) \<and>
   Resolve ServerAuthoritative l r = Ok RemotePtr \<and> Resolve ClientAuthoritative l r = Ok LocalPtr \<and>
   NewResolver [] = Ok LastWriteWins \<and> NewResolver ''last-write-wins'' = Ok LastWriteWins \<and>
   NewResolver ''server-authoritative'' = Ok ServerAuthoritative \<and>
   NewResolver ''client-authoritative'' = Ok ClientAuthoritative \<and>
   (is_ok (NewResolver p) = (p \<in> {[], ''last-write-wins'', ''server-authoritative'', ''client-authoritative''}))"
  by (simp add: lww_Resolve_def server_Resolve_def client_Resolve_def NewResolver_def
      PolicyLastWriteWins_def PolicyServerAuthoritative_def PolicyClientAuthoritative_def)

end
