(* ===== verification/Json.thy ===== *)
theory Json
  imports Prelude
begin

text \<open>
  The part of Go's standard \<open>encoding/json\<close> and \<open>encoding/base64\<close> that the program uses:
  strings with their escapes and UTF-8 coercion, a full reader for JSON texts (the check
  \<open>json.Unmarshal\<close> runs over its whole input, then the value), the writer for the values the
  program marshals, and the assignment of object members to struct fields.
\<close>

section \<open>Values\<close>

text \<open>A number keeps its literal; a string is the Go string after unquoting.\<close>

datatype json =
    JNull
  | JBool bool
  | JNum string
  | JStr string
  | JArr "json list"
  | JObj "(string \<times> json) list"

section \<open>UTF-8\<close>

definition cc :: "char \<Rightarrow> nat" where
  "cc c = of_char c"

definition ch :: "nat \<Rightarrow> char" where
  "ch n = char_of n"

lemma cc_less [simp]: "cc c < 256"
  using of_char_less_256 by (simp add: cc_def)

lemma ch_cc [simp]: "ch (cc c) = c"
  by (simp add: ch_def cc_def)

lemma cc_ch [simp]: "n < 256 \<Longrightarrow> cc (ch n) = n"
  by (simp add: ch_def cc_def)

lemma cc_eq: "cc a = cc b \<longleftrightarrow> a = b"
  by (metis ch_cc)

lemma ch_eq_iff: "n < 256 \<Longrightarrow> ch n = c \<longleftrightarrow> cc c = n"
  by auto

definition cont :: "char \<Rightarrow> bool" where
  "cont c \<longleftrightarrow> 128 \<le> cc c \<and> cc c < 192"

text \<open>
  The size of the rune at the front of a string (\<open>utf8.DecodeRune\<close>): 0 for an invalid or
  empty front, where Go reports \<open>RuneError\<close> of size 1 (or 0).
\<close>

definition second_ok :: "nat \<Rightarrow> nat \<Rightarrow> bool" where
  "second_ok a b \<longleftrightarrow>
     (if a = 224 then 160 \<le> b \<and> b < 192
      else if a = 237 then 128 \<le> b \<and> b < 160
      else if a = 240 then 144 \<le> b \<and> b < 192
      else if a = 244 then 128 \<le> b \<and> b < 144
      else 128 \<le> b \<and> b < 192)"

fun rune_len :: "string \<Rightarrow> nat" where
  "rune_len [] = 0"
| "rune_len (a # r) =
     (if cc a < 128 then 1
      else (case r of
              [] \<Rightarrow> 0
            | b # r2 \<Rightarrow>
                if 194 \<le> cc a \<and> cc a \<le> 223 then (if cont b then 2 else 0)
                else (case r2 of
                        [] \<Rightarrow> 0
                      | c # r3 \<Rightarrow>
                          if 224 \<le> cc a \<and> cc a \<le> 239
                          then (if second_ok (cc a) (cc b) \<and> cont c then 3 else 0)
                          else (case r3 of
                                  [] \<Rightarrow> 0
                                | d # r4 \<Rightarrow>
                                    if 240 \<le> cc a \<and> cc a \<le> 244 \<and> second_ok (cc a) (cc b) \<and> cont c \<and> cont d
                                    then 4 else 0))))"

lemma rune_len_le: "rune_len s \<le> length s"
  by (cases s) (auto split: list.splits)

lemma rune_len_take:
  "0 < rune_len s \<Longrightarrow> rune_len (take (rune_len s) s @ z) = rune_len s"
  by (cases s) (auto split: list.splits if_splits)

text \<open>\<open>utf8.AppendRune\<close> for a code point below \<open>0x110000\<close> that is not a surrogate.\<close>

definition utf8_enc :: "nat \<Rightarrow> string" where
  "utf8_enc v =
     (if v < 128 then [ch v]
      else if v < 2048 then [ch (192 + v div 64), ch (128 + v mod 64)]
      else if v < 65536 then [ch (224 + v div 4096), ch (128 + v div 64 mod 64), ch (128 + v mod 64)]
      else [ch (240 + v div 262144), ch (128 + v div 4096 mod 64), ch (128 + v div 64 mod 64), ch (128 + v mod 64)])"

definition rune_error :: string where
  "rune_error = utf8_enc 65533"

text \<open>\<open>utf8.ValidString\<close>\<close>

function utf8_valid :: "string \<Rightarrow> bool" where
  "utf8_valid s =
     (if s = [] then True
      else if rune_len s = 0 then False
      else utf8_valid (drop (rune_len s) s))"
  by pat_completeness auto
termination by (relation "measure length") auto

declare utf8_valid.simps [simp del]

lemma utf8_valid_Nil [simp]: "utf8_valid []"
  by (subst utf8_valid.simps) simp

section \<open>Strings\<close>

definition hex_digit :: "nat \<Rightarrow> char" where
  "hex_digit n = (if n < 10 then ch (48 + n) else ch (87 + n))"

definition hex_val :: "char \<Rightarrow> nat option" where
  "hex_val c =
     (if 48 \<le> cc c \<and> cc c \<le> 57 then Some (cc c - 48)
      else if 97 \<le> cc c \<and> cc c \<le> 102 then Some (cc c - 87)
      else if 65 \<le> cc c \<and> cc c \<le> 70 then Some (cc c - 55)
      else None)"

fun hex4 :: "string \<Rightarrow> (nat \<times> string) option" where
  "hex4 (a # b # c # d # r) =
     (case (hex_val a, hex_val b, hex_val c, hex_val d) of
        (Some w, Some x, Some y, Some z) \<Rightarrow> Some (4096 * w + 256 * x + 16 * y + z, r)
      | _ \<Rightarrow> None)"
| "hex4 _ = None"

text \<open>
  The escape after a backslash: what it stands for and the rest.  A \<open>\u\<close> escape of a
  surrogate takes a following \<open>\u\<close> escape with it when the two form a pair, and stands for
  U+FFFD otherwise.
\<close>

definition esc_u :: "string \<Rightarrow> (string \<times> string) option" where
  "esc_u r =
     (case hex4 r of
        None \<Rightarrow> None
      | Some (v, r2) \<Rightarrow>
          if 55296 \<le> v \<and> v < 57344
          then (case r2 of
                  b # u # r3 \<Rightarrow>
                    if cc b = 92 \<and> u = CHR ''u''
                    then (case hex4 r3 of
                            None \<Rightarrow> Some (rune_error, r2)
                          | Some (v2, r4) \<Rightarrow>
                              if v < 56320 \<and> 56320 \<le> v2 \<and> v2 < 57344
                              then Some (utf8_enc (65536 + (v - 55296) * 1024 + (v2 - 56320)), r4)
                              else Some (rune_error, r2))
                    else Some (rune_error, r2)
                | _ \<Rightarrow> Some (rune_error, r2))
          else Some (utf8_enc v, r2))"

definition esc :: "string \<Rightarrow> (string \<times> string) option" where
  "esc s =
     (case s of
        [] \<Rightarrow> None
      | e # r \<Rightarrow>
          if cc e = 34 \<or> cc e = 92 \<or> cc e = 47 then Some ([e], r)
          else if e = CHR ''b'' then Some ([ch 8], r)
          else if e = CHR ''f'' then Some ([ch 12], r)
          else if e = CHR ''n'' then Some ([ch 10], r)
          else if e = CHR ''r'' then Some ([ch 13], r)
          else if e = CHR ''t'' then Some ([ch 9], r)
          else if e = CHR ''u'' then esc_u r
          else None)"

lemma hex4_length: "hex4 s = Some (v, r) \<Longrightarrow> length r < length s"
  by (induction s rule: hex4.induct) (auto split: option.splits)

lemma esc_u_length: "esc_u s = Some (t, r) \<Longrightarrow> length r < length s"
  by (auto simp: esc_u_def split: option.splits if_splits list.splits dest!: hex4_length)

lemma esc_length: "esc s = Some (t, r) \<Longrightarrow> length r < length s"
  by (auto simp: esc_def split: list.splits if_splits dest!: esc_u_length)

text \<open>
  The body of a string after its opening quote: the unquoted string and what follows the
  closing quote.  Control characters are not allowed; an invalid byte becomes U+FFFD.
\<close>

function str_tail :: "string \<Rightarrow> (string \<times> string) option" where
  "str_tail s =
     (case s of
        [] \<Rightarrow> None
      | c # r \<Rightarrow>
          if cc c = 34 then Some ([], r)
          else if cc c = 92
          then (case esc r of
                  None \<Rightarrow> None
                | Some (t, r2) \<Rightarrow> map_option (\<lambda>(u, z). (t @ u, z)) (str_tail r2))
          else if cc c < 32 then None
          else if rune_len s = 0 then map_option (\<lambda>(u, z). (rune_error @ u, z)) (str_tail r)
          else map_option (\<lambda>(u, z). (take (rune_len s) s @ u, z)) (str_tail (drop (rune_len s) s)))"
  by pat_completeness auto
termination by (relation "measure length") (auto dest: esc_length)

declare str_tail.simps [simp del]

text \<open>
  The writer's escapes (\<open>appendString\<close> with HTML escaping, as \<open>json.Marshal\<close> uses it).
\<close>

definition html_safe :: "char \<Rightarrow> bool" where
  "html_safe c \<longleftrightarrow> 32 \<le> cc c \<and> cc c \<notin> {34, 92, 60, 62, 38}"

definition esc_ascii :: "char \<Rightarrow> string" where
  "esc_ascii c =
     (if cc c = 34 \<or> cc c = 92 then [ch 92, c]
      else if cc c = 8 then [ch 92, CHR ''b'']
      else if cc c = 12 then [ch 92, CHR ''f'']
      else if cc c = 10 then [ch 92, CHR ''n'']
      else if cc c = 13 then [ch 92, CHR ''r'']
      else if cc c = 9 then [ch 92, CHR ''t'']
      else [ch 92, CHR ''u'', CHR ''0'', CHR ''0'', hex_digit (cc c div 16), hex_digit (cc c mod 16)])"

function enc_chars :: "string \<Rightarrow> string" where
  "enc_chars s =
     (case s of
        [] \<Rightarrow> []
      | c # r \<Rightarrow>
          if cc c < 128 then (if html_safe c then [c] else esc_ascii c) @ enc_chars r
          else if rune_len s = 0 then ch 92 # ''ufffd'' @ enc_chars r
          else (if take (rune_len s) s = utf8_enc 8232 then ch 92 # ''u2028''
                else if take (rune_len s) s = utf8_enc 8233 then ch 92 # ''u2029''
                else take (rune_len s) s) @ enc_chars (drop (rune_len s) s))"
  by pat_completeness auto
termination by (relation "measure length") auto

declare enc_chars.simps [simp del]

definition quote :: "string \<Rightarrow> string" where
  "quote s = ch 34 # enc_chars s @ [ch 34]"

section \<open>Reading back a written string\<close>

lemma hex_val_digit [simp]: "n < 16 \<Longrightarrow> hex_val (hex_digit n) = Some n"
  by (auto simp: hex_val_def hex_digit_def)

lemma cc_lits [simp]:
  "cc CHR ''u'' = 117" "cc CHR ''0'' = 48" "cc CHR ''2'' = 50" "cc CHR ''8'' = 56" "cc CHR ''9'' = 57"
  "cc CHR ''b'' = 98" "cc CHR ''f'' = 102" "cc CHR ''n'' = 110" "cc CHR ''r'' = 114" "cc CHR ''t'' = 116"
  by (simp_all add: cc_def)

lemma hex_val_zero [simp]: "hex_val CHR ''0'' = Some 0"
  by (simp add: hex_val_def)

lemma str_tail_safe:
  assumes "cc c < 128" and "html_safe c"
  shows "str_tail (c # x) = map_option (\<lambda>(u, z). (c # u, z)) (str_tail x)"
  using assms by (subst str_tail.simps) (auto simp: html_safe_def)

lemma str_tail_esc:
  assumes "esc r = Some (t, x)"
  shows "str_tail (ch 92 # r) = map_option (\<lambda>(u, z). (t @ u, z)) (str_tail x)"
  using assms by (subst str_tail.simps) simp

lemma esc_u_ascii:
  assumes "cc c < 128"
  shows "esc_u (CHR ''0'' # CHR ''0'' # hex_digit (cc c div 16) # hex_digit (cc c mod 16) # x) = Some ([c], x)"
  using assms by (simp add: esc_u_def utf8_enc_def)

lemma cc_eq_lit: "cc c = n \<Longrightarrow> c = ch n"
  by auto

lemma str_tail_esc_ascii:
  assumes "cc c < 128" and "\<not> html_safe c"
  shows "str_tail (esc_ascii c @ x) = map_option (\<lambda>(u, z). (c # u, z)) (str_tail x)"
proof -
  have "\<exists>t. esc_ascii c = ch 92 # t \<and> esc (t @ x) = Some ([c], x)"
  proof (cases "cc c \<in> {34, 92, 8, 12, 10, 13, 9}")
    case True
    then show ?thesis by (auto simp: esc_ascii_def esc_def dest!: cc_eq_lit)
  next
    case False
    then show ?thesis using assms(1) by (auto simp: esc_ascii_def esc_def esc_u_ascii)
  qed
  then show ?thesis using str_tail_esc by fastforce
qed

lemma str_tail_rune:
  assumes "s = c # r" and "128 \<le> cc c" and "0 < rune_len s"
  shows "str_tail (take (rune_len s) s @ x) =
           map_option (\<lambda>(u, z). (take (rune_len s) s @ u, z)) (str_tail x)"
proof -
  let ?n = "rune_len s"
  obtain k where n: "?n = Suc k" using assms(3) by (cases ?n) auto
  then have t: "take ?n s @ x = c # (take k r @ x)" using assms(1) by simp
  have len: "rune_len (take ?n s @ x) = ?n" using assms(3) by (rule rune_len_take)
  have "length (take ?n s) = ?n" using rune_len_le [of s] by simp
  then have "take ?n (take ?n s @ x) = take ?n s" "drop ?n (take ?n s @ x) = x" by simp_all
  then show ?thesis
    using assms(2,3) len unfolding t by (subst str_tail.simps) (simp add: n)
qed

lemma esc_line_separators:
  "esc (''u2028'' @ x) = Some (utf8_enc 8232, x)" "esc (''u2029'' @ x) = Some (utf8_enc 8233, x)"
  by (simp_all add: esc_def esc_u_def hex_val_def)

theorem str_tail_enc_chars:
  "utf8_valid s \<Longrightarrow> str_tail (enc_chars s @ ch 34 # z) = Some (s, z)"
proof (induction s rule: utf8_valid.induct)
  case (1 s)
  show ?case
  proof (cases s)
    case Nil
    then show ?thesis by (subst enc_chars.simps, subst str_tail.simps) simp
  next
    case (Cons c r)
    have pos: "0 < rune_len s" and rest: "utf8_valid (drop (rune_len s) s)"
      using "1.prems" Cons by (subst (asm) utf8_valid.simps, simp split: if_splits)+
    note IH = "1.IH" [OF _ _ rest]
    show ?thesis
    proof (cases "cc c < 128")
      case True
      then have "rune_len s = 1" using Cons by simp
      then have "str_tail (enc_chars r @ ch 34 # z) = Some (r, z)" using IH Cons by simp
      with True Cons show ?thesis
        by (subst enc_chars.simps) (simp add: str_tail_safe str_tail_esc_ascii)
    next
      case False
      with Cons have big: "128 \<le> cc c" by simp
      let ?t = "take (rune_len s) s" and ?d = "drop (rune_len s) s"
      have IH': "str_tail (enc_chars ?d @ ch 34 # z) = Some (?d, z)" using IH Cons pos by simp
      let ?w = "if ?t = utf8_enc 8232 then ch 92 # ''u2028''
                else if ?t = utf8_enc 8233 then ch 92 # ''u2029'' else ?t"
      have "str_tail (?w @ x) = map_option (\<lambda>(u, z). (?t @ u, z)) (str_tail x)" for x
        using str_tail_esc [OF esc_line_separators(1)] str_tail_esc [OF esc_line_separators(2)]
          str_tail_rune [OF Cons big pos] by simp
      moreover have "enc_chars s = ?w @ enc_chars ?d"
        using Cons False pos by (subst enc_chars.simps) simp
      ultimately show ?thesis using IH' by simp
    qed
  qed
qed

section \<open>The reader\<close>

definition is_ws :: "char \<Rightarrow> bool" where
  "is_ws c \<longleftrightarrow> cc c = 32 \<or> cc c = 9 \<or> cc c = 10 \<or> cc c = 13"

definition skip_ws :: "string \<Rightarrow> string" where
  "skip_ws s = dropWhile is_ws s"

definition is_digit :: "char \<Rightarrow> bool" where
  "is_digit c \<longleftrightarrow> 48 \<le> cc c \<and> cc c \<le> 57"

text \<open>The digits at the front, and the rest.\<close>

definition digits :: "string \<Rightarrow> string \<times> string" where
  "digits s = (takeWhile is_digit s, dropWhile is_digit s)"

text \<open>An optional part of a number: a fraction after \<open>.\<close>, an exponent after \<open>e\<close> or \<open>E\<close>.\<close>

definition num_frac :: "string \<Rightarrow> (string \<times> string) option" where
  "num_frac s =
     (case s of
        c # r \<Rightarrow>
          if c = CHR ''.''
          then (case digits r of (ds, z) \<Rightarrow> if ds = [] then None else Some (c # ds, z))
          else Some ([], s)
      | [] \<Rightarrow> Some ([], s))"

definition num_exp :: "string \<Rightarrow> (string \<times> string) option" where
  "num_exp s =
     (case s of
        c # r \<Rightarrow>
          if c = CHR ''e'' \<or> c = CHR ''E''
          then (let (sg, r2) =
                  (case r of
                     d # r3 \<Rightarrow> if d = CHR ''+'' \<or> d = CHR ''-'' then ([d], r3) else ([], r)
                   | [] \<Rightarrow> ([], r))
                in case digits r2 of
                     (ds, z) \<Rightarrow> if ds = [] then None else Some (c # sg @ ds, z))
          else Some ([], s)
      | [] \<Rightarrow> Some ([], s))"

definition num_int :: "string \<Rightarrow> (string \<times> string) option" where
  "num_int s =
     (case s of
        c # r \<Rightarrow>
          if c = CHR ''0'' then Some ([c], r)
          else if is_digit c then (case digits r of (ds, z) \<Rightarrow> Some (c # ds, z))
          else None
      | [] \<Rightarrow> None)"

definition parse_number :: "string \<Rightarrow> (string \<times> string) option" where
  "parse_number s =
     (let (sg, s1) = (case s of c # r \<Rightarrow> if c = CHR ''-'' then ([c], r) else ([], s) | [] \<Rightarrow> ([], s))
      in case num_int s1 of
           None \<Rightarrow> None
         | Some (i, s2) \<Rightarrow>
             (case num_frac s2 of
                None \<Rightarrow> None
              | Some (f, s3) \<Rightarrow>
                  (case num_exp s3 of
                     None \<Rightarrow> None
                   | Some (e, z) \<Rightarrow> Some (sg @ i @ f @ e, z))))"

definition parse_lit :: "string \<Rightarrow> json \<Rightarrow> string \<Rightarrow> (json \<times> string) option" where
  "parse_lit w v s = (if prefix w s then Some (v, drop (length w) s) else None)"

text \<open>
  Values, array elements and object members.  The first argument is fuel: a value or a
  member takes at least one character before it recurses and an element none, so
  \<open>2 * length s + 2\<close> is enough (\<open>parse_json_fuel\<close> below).
  The second is the nesting depth, which \<open>encoding/json\<close> limits to 10000.
\<close>

fun parse_value :: "nat \<Rightarrow> nat \<Rightarrow> string \<Rightarrow> (json \<times> string) option"
  and parse_elems :: "nat \<Rightarrow> nat \<Rightarrow> string \<Rightarrow> (json list \<times> string) option"
  and parse_members :: "nat \<Rightarrow> nat \<Rightarrow> string \<Rightarrow> ((string \<times> json) list \<times> string) option"
where
  "parse_value 0 d s = None"
| "parse_value (Suc f) d s =
     (case skip_ws s of
        [] \<Rightarrow> None
      | c # r \<Rightarrow>
          if c = CHR ''{''
          then (if 10000 \<le> d then None
                else case skip_ws r of
                       [] \<Rightarrow> None
                     | c2 # r2 \<Rightarrow>
                         if c2 = CHR ''}'' then Some (JObj [], r2)
                         else map_option (\<lambda>(ms, z). (JObj ms, z)) (parse_members f (Suc d) r))
          else if c = CHR ''[''
          then (if 10000 \<le> d then None
                else case skip_ws r of
                       [] \<Rightarrow> None
                     | c2 # r2 \<Rightarrow>
                         if c2 = CHR '']'' then Some (JArr [], r2)
                         else map_option (\<lambda>(vs, z). (JArr vs, z)) (parse_elems f (Suc d) r))
          else if cc c = 34 then map_option (\<lambda>(t, z). (JStr t, z)) (str_tail r)
          else if c = CHR ''t'' then parse_lit ''true'' (JBool True) (c # r)
          else if c = CHR ''f'' then parse_lit ''false'' (JBool False) (c # r)
          else if c = CHR ''n'' then parse_lit ''null'' JNull (c # r)
          else map_option (\<lambda>(n, z). (JNum n, z)) (parse_number (c # r)))"
| "parse_elems 0 d s = None"
| "parse_elems (Suc f) d s =
     (case parse_value f d s of
        None \<Rightarrow> None
      | Some (v, r) \<Rightarrow>
          (case skip_ws r of
             [] \<Rightarrow> None
           | c # r2 \<Rightarrow>
               if c = CHR '','' then map_option (\<lambda>(vs, z). (v # vs, z)) (parse_elems f d r2)
               else if c = CHR '']'' then Some ([v], r2)
               else None))"
| "parse_members 0 d s = None"
| "parse_members (Suc f) d s =
     (case skip_ws s of
        [] \<Rightarrow> None
      | q # r \<Rightarrow>
          if cc q \<noteq> 34 then None
          else (case str_tail r of
                  None \<Rightarrow> None
                | Some (k, r1) \<Rightarrow>
                    (case skip_ws r1 of
                       [] \<Rightarrow> None
                     | c # r2 \<Rightarrow>
                         if c \<noteq> CHR '':'' then None
                         else (case parse_value f d r2 of
                                 None \<Rightarrow> None
                               | Some (v, r3) \<Rightarrow>
                                   (case skip_ws r3 of
                                      [] \<Rightarrow> None
                                    | c2 # r4 \<Rightarrow>
                                        if c2 = CHR '',''
                                        then map_option (\<lambda>(ms, z). ((k, v) # ms, z)) (parse_members f d r4)
                                        else if c2 = CHR ''}'' then Some ([(k, v)], r4)
                                        else None)))))"

declare parse_value.simps [simp del] parse_elems.simps [simp del] parse_members.simps [simp del]

text \<open>The whole input is one value; anything but white space after it is a syntax error.\<close>

definition parse_json :: "string \<Rightarrow> json option" where
  "parse_json s =
     (case parse_value (2 * length s + 2) 0 s of
        Some (v, r) \<Rightarrow> if skip_ws r = [] then Some v else None
      | None \<Rightarrow> None)"

section \<open>The writer\<close>

fun print_json :: "json \<Rightarrow> string"
  and print_elems :: "json list \<Rightarrow> string"
  and print_members :: "(string \<times> json) list \<Rightarrow> string"
where
  "print_json JNull = ''null''"
| "print_json (JBool b) = (if b then ''true'' else ''false'')"
| "print_json (JNum n) = n"
| "print_json (JStr s) = quote s"
| "print_json (JArr vs) = ''['' @ print_elems vs @ '']''"
| "print_json (JObj ms) = ''{'' @ print_members ms @ ''}''"
| "print_elems [] = []"
| "print_elems [v] = print_json v"
| "print_elems (v # w # vs) = print_json v @ '','' @ print_elems (w # vs)"
| "print_members [] = []"
| "print_members [(k, v)] = quote k @ '':'' @ print_json v"
| "print_members ((k, v) # m # ms) = quote k @ '':'' @ print_json v @ '','' @ print_members (m # ms)"

section \<open>The fuel is enough\<close>

lemma skip_ws_length: "length (skip_ws s) \<le> length s"
  by (simp add: skip_ws_def length_dropWhile_le)

lemma skip_ws_Cons_length: "skip_ws s = c # r \<Longrightarrow> length r < length s"
  using skip_ws_length [of s] by simp

lemma str_tail_length: "str_tail s = Some (t, z) \<Longrightarrow> length z < length s"
proof (induction s arbitrary: t z rule: str_tail.induct)
  case (1 s)
  show ?case
  proof (cases s)
    case Nil
    with "1.prems" show ?thesis by (subst (asm) str_tail.simps) simp
  next
    case (Cons c r)
    consider "cc c = 34" | e x where "cc c = 92" "esc r = Some (e, x)" | "cc c = 92" "esc r = None"
      | "cc c \<noteq> 34" "cc c \<noteq> 92" by fastforce
    then show ?thesis
    proof cases
      case 2
      then obtain u where "str_tail x = Some (u, z)"
        using "1.prems" Cons by (subst (asm) str_tail.simps) auto
      then have "length z < length x" using "1.IH"(1) Cons 2 by fastforce
      with esc_length [OF 2(2)] Cons show ?thesis by simp
    next
      case 4
      then obtain x u where "str_tail x = Some (u, z)" "length x < length s" "x = r \<or> x = drop (rune_len s) s"
        using "1.prems" Cons by (subst (asm) str_tail.simps) (auto split: if_splits)
      then show ?thesis using "1.IH"(2,3) Cons 4 "1.prems"
        by (subst (asm) (4) str_tail.simps) (fastforce split: if_splits)
    qed (use "1.prems" Cons in \<open>subst (asm) str_tail.simps, simp\<close>)+
  qed
qed

lemma digits_length: "digits s = (ds, z) \<Longrightarrow> length z \<le> length s"
  by (auto simp: digits_def length_dropWhile_le)

lemma num_int_length: "num_int s = Some (i, z) \<Longrightarrow> length z < length s"
  by (auto simp: num_int_def split: list.splits if_splits prod.splits dest!: digits_length)

lemma num_frac_length: "num_frac s = Some (f, z) \<Longrightarrow> length z \<le> length s"
  by (auto simp: num_frac_def split: list.splits if_splits prod.splits dest!: digits_length)

lemma num_exp_length: "num_exp s = Some (e, z) \<Longrightarrow> length z \<le> length s"
  by (auto simp: num_exp_def Let_def split: list.splits if_splits prod.splits dest!: digits_length)

lemma parse_number_length: "parse_number s = Some (n, z) \<Longrightarrow> length z < length s"
  by (fastforce simp: parse_number_def split: list.splits if_splits prod.splits option.splits
      dest: num_int_length num_frac_length num_exp_length)

lemma parse_lit_length: "parse_lit w v s = Some (x, z) \<Longrightarrow> w \<noteq> [] \<Longrightarrow> length z < length s"
  by (cases s) (auto simp: parse_lit_def split: if_splits)

lemma parse_length:
  "(parse_value f d s = Some (v, z) \<longrightarrow> length z < length s) \<and>
   (parse_elems f d s = Some (vs, z) \<longrightarrow> length z < length s) \<and>
   (parse_members f d s = Some (ms, z) \<longrightarrow> length z < length s)"
proof (induction f arbitrary: d s v vs ms z)
  case 0
  then show ?case by (simp add: parse_value.simps parse_elems.simps parse_members.simps)
next
  case (Suc f)
  note IHv = Suc.IH [THEN conjunct1, rule_format]
    and IHe = Suc.IH [THEN conjunct2, THEN conjunct1, rule_format]
    and IHm = Suc.IH [THEN conjunct2, THEN conjunct2, rule_format]
  note short = skip_ws_Cons_length str_tail_length parse_number_length
  have v: "length z < length s" if "parse_value (Suc f) d s = Some (v, z)"
    using that
    by (auto simp: parse_value.simps split: list.splits if_splits option.splits
        dest!: IHe IHm short parse_lit_length)
  have e: "length z < length s" if "parse_elems (Suc f) d s = Some (vs, z)"
    using that
    by (auto simp: parse_elems.simps split: list.splits if_splits option.splits
        dest!: IHe IHv short)
  have m: "length z < length s" if "parse_members (Suc f) d s = Some (ms, z)"
    using that
    by (auto simp: parse_members.simps split: list.splits if_splits option.splits
        dest!: IHm IHv short)
  from v e m show ?case by blast
qed

lemma parse_fuel:
  "(2 * length s + 1 \<le> f \<longrightarrow> parse_value (Suc f) d s = parse_value f d s) \<and>
   (2 * length s + 2 \<le> f \<longrightarrow> parse_elems (Suc f) d s = parse_elems f d s) \<and>
   (2 * length s + 1 \<le> f \<longrightarrow> parse_members (Suc f) d s = parse_members f d s)"
proof (induction f arbitrary: d s)
  case 0
  then show ?case by simp
next
  case (Suc f)
  note IHv = Suc.IH [THEN conjunct1, rule_format]
    and IHe = Suc.IH [THEN conjunct2, THEN conjunct1, rule_format]
    and IHm = Suc.IH [THEN conjunct2, THEN conjunct2, rule_format]
  have v: "parse_value (Suc (Suc f)) d s = parse_value (Suc f) d s" if "2 * length s + 1 \<le> Suc f"
  proof (cases "skip_ws s")
    case (Cons c r)
    with skip_ws_Cons_length that have "2 * length r + 2 \<le> f" by fastforce
    then show ?thesis using IHe [of r "Suc d"] IHm [of r "Suc d"] Cons
      by (simp only: parse_value.simps) (simp split: list.split)
  qed (simp add: parse_value.simps)
  have e: "parse_elems (Suc (Suc f)) d s = parse_elems (Suc f) d s" if len: "2 * length s + 2 \<le> Suc f"
  proof (cases "parse_value f d s")
    case None
    then show ?thesis using IHv [of s d] len by (simp only: parse_elems.simps) simp
  next
    case (Some p)
    obtain w r where p: "p = (w, r)" by (cases p)
    with Some parse_length have "length r < length s" by blast
    then have "parse_elems (Suc f) d r2 = parse_elems f d r2" if "skip_ws r = c # r2" for c r2
      using skip_ws_Cons_length [OF that] len IHe [of r2 d] by simp
    then show ?thesis using IHv [of s d] len Some p
      by (simp only: parse_elems.simps) (simp split: list.split)
  qed
  have m: "parse_members (Suc (Suc f)) d s = parse_members (Suc f) d s" if len: "2 * length s + 1 \<le> Suc f"
  proof -
    have 1: "parse_value (Suc f) d r2 = parse_value f d r2 \<and>
        (\<forall>w r3 r4 c4. parse_value f d r2 = Some (w, r3) \<longrightarrow> skip_ws r3 = c4 # r4 \<longrightarrow>
           parse_members (Suc f) d r4 = parse_members f d r4)"
      if "skip_ws s = q # r" "str_tail r = Some (k, r1)" "skip_ws r1 = c # r2" for q r k r1 c r2
    proof -
      have r2: "2 * length r2 + 1 \<le> f"
        using skip_ws_Cons_length [OF that(1)] str_tail_length [OF that(2)]
          skip_ws_Cons_length [OF that(3)] len by simp
      have "parse_members (Suc f) d r4 = parse_members f d r4"
        if "parse_value f d r2 = Some (w, r3)" "skip_ws r3 = c4 # r4" for w r3 r4 c4
      proof -
        have "length r3 < length r2" using that(1) parse_length by blast
        with skip_ws_Cons_length [OF that(2)] r2 show ?thesis using IHm [of r4 d] by simp
      qed
      then show ?thesis using IHv [OF r2] by blast
    qed
    then show ?thesis
      by (simp only: parse_members.simps) (auto split: list.split option.split)
  qed
  from v e m show ?case by blast
qed

lemma parse_value_fuel:
  assumes "2 * length s + 1 \<le> f" and "f \<le> g"
  shows "parse_value g d s = parse_value f d s"
  using assms(2,1)
proof (induction rule: dec_induct)
  case (step n)
  then show ?case using parse_fuel [of s n d] by simp
qed simp

theorem parse_json_fuel:
  "2 * length s + 2 \<le> f \<Longrightarrow>
   parse_json s =
     (case parse_value f 0 s of
        Some (v, r) \<Rightarrow> if skip_ws r = [] then Some v else None
      | None \<Rightarrow> None)"
  using parse_value_fuel [of s "2 * length s + 2" f 0] by (simp add: parse_json_def)

section \<open>Reading back a written object\<close>

text \<open>The program writes structs whose fields are strings, byte slices and Booleans: flat objects.\<close>

fun scalar :: "json \<Rightarrow> bool" where
  "scalar JNull = True"
| "scalar (JBool b) = True"
| "scalar (JStr s) = utf8_valid s"
| "scalar _ = False"

lemma skip_ws_Cons [simp]: "\<not> is_ws c \<Longrightarrow> skip_ws (c # s) = c # s"
  by (simp add: skip_ws_def)

lemma is_ws_lits [simp]:
  "\<not> is_ws CHR ''{''" "\<not> is_ws CHR ''}''" "\<not> is_ws CHR '',''" "\<not> is_ws CHR '':''"
  "\<not> is_ws CHR ''t''" "\<not> is_ws CHR ''f''" "\<not> is_ws CHR ''n''" "\<not> is_ws (ch 34)"
  by (simp_all add: is_ws_def cc_def ch_def)

lemma ch34_neq [simp]:
  "ch 34 \<noteq> CHR ''{''" "ch 34 \<noteq> CHR ''}''" "ch 34 \<noteq> CHR ''[''" "ch 34 \<noteq> CHR ''t''" "ch 34 \<noteq> CHR ''f''" "ch 34 \<noteq> CHR ''n''"
  by (simp_all add: cc_eq [symmetric]) (simp_all add: cc_def)

lemma quote_append: "quote s @ z = ch 34 # enc_chars s @ ch 34 # z"
  by (simp add: quote_def)

lemma parse_scalar:
  "scalar v \<Longrightarrow> parse_value (Suc f) d (print_json v @ z) = Some (v, z)"
  by (cases v) (auto simp: parse_value.simps parse_lit_def quote_append str_tail_enc_chars)

lemma parse_members_print:
  assumes "\<forall>(k, v) \<in> set ms. utf8_valid k \<and> scalar v" and "ms \<noteq> []" and "length ms \<le> f"
  shows "parse_members (Suc f) d (print_members ms @ CHR ''}'' # z) = Some (ms, z)"
  using assms
proof (induction ms arbitrary: f)
  case Nil
  then show ?case by simp
next
  case (Cons kv ms)
  obtain k v where kv: "kv = (k, v)" by (cases kv)
  obtain g where f: "f = Suc g" using Cons.prems(3) by (cases f) auto
  have k: "utf8_valid k" and v: "scalar v" using Cons.prems(1) kv by auto
  show ?case
  proof (cases ms)
    case Nil
    then show ?thesis using k v kv f
      by (simp add: parse_members.simps quote_append str_tail_enc_chars parse_scalar)
  next
    case (Cons m ms')
    then have "parse_members (Suc g) d (print_members ms @ CHR ''}'' # z) = Some (ms, z)"
      using Cons.prems f by (intro Cons.IH) auto
    then show ?thesis using k v kv f Cons
      by (simp add: parse_members.simps quote_append str_tail_enc_chars parse_scalar)
  qed
qed

lemma print_members_length: "length ms \<le> length (print_members ms)"
proof (induction ms)
  case (Cons m ms)
  then show ?case by (cases m; cases ms) (auto simp: quote_def)
qed simp

theorem parse_print_object:
  assumes "\<forall>(k, v) \<in> set ms. utf8_valid k \<and> scalar v"
  shows "parse_json (print_json (JObj ms)) = Some (JObj ms)"
proof (cases ms)
  case Nil
  then show ?thesis by (simp add: parse_json_def parse_value.simps numeral_2_eq_2) (simp add: skip_ws_def)
next
  case (Cons m ms')
  let ?s = "print_members ms @ CHR ''}'' # []"
  obtain q r where q: "?s = ch 34 # r"
    using Cons by (cases m; cases ms') (auto simp: quote_def)
  let ?f = "Suc (2 * length ?s + 2)"
  have "parse_members ?f (Suc 0) ?s = Some (ms, [])"
    using assms Cons print_members_length [of ms] by (intro parse_members_print) auto
  then have "parse_value (Suc ?f) 0 (print_json (JObj ms)) = Some (JObj ms, [])"
    using q by (simp add: parse_value.simps)
  moreover have "2 * length (print_json (JObj ms)) + 2 \<le> Suc ?f" by simp
  ultimately show ?thesis
    using parse_json_fuel [of "print_json (JObj ms)" "Suc ?f"] by (simp add: skip_ws_def)
qed

section \<open>The size of a written object\<close>

lemma esc_ascii_length: "length (esc_ascii c) \<le> 6"
  by (simp add: esc_ascii_def)

lemma enc_chars_length: "length (enc_chars s) \<le> 6 * length s"
proof (induction s rule: enc_chars.induct)
  case (1 s)
  show ?case
  proof (cases s)
    case Nil
    then show ?thesis by (subst enc_chars.simps) simp
  next
    case (Cons c r)
    have ascii: "length (if html_safe c then [c] else esc_ascii c) \<le> 6"
      using esc_ascii_length [of c] by simp
    show ?thesis
    proof (cases "cc c < 128")
      case True
      then have "length (enc_chars r) \<le> 6 * length r" using 1(1) Cons by simp
      then show ?thesis using True Cons ascii by (subst enc_chars.simps) simp
    next
      case big: False
      show ?thesis
      proof (cases "rune_len s = 0")
        case True
        then have "length (enc_chars r) \<le> 6 * length r" using 1(2) big Cons by simp
        then show ?thesis using True big Cons by (subst enc_chars.simps) simp
      next
        case False
        let ?n = "rune_len s"
        have n: "0 < ?n" "?n \<le> length s" using False rune_len_le [of s] by auto
        have "length (enc_chars (drop ?n s)) \<le> 6 * (length s - ?n)" using 1(3) big False Cons by simp
        moreover have "length (if take ?n s = utf8_enc 8232 then ch 92 # ''u2028''
            else if take ?n s = utf8_enc 8233 then ch 92 # ''u2029'' else take ?n s) \<le> 6 * ?n"
          using n by auto
        ultimately show ?thesis using False big Cons n by (subst enc_chars.simps) simp
      qed
    qed
  qed
qed

definition member_size :: "string \<times> json \<Rightarrow> nat" where
  "member_size kv = 6 * length (fst kv) + (case snd kv of JStr s \<Rightarrow> 6 * length s | _ \<Rightarrow> 0) + 9"

fun flat :: "json \<Rightarrow> bool" where
  "flat JNull = True"
| "flat (JBool b) = True"
| "flat (JStr s) = True"
| "flat _ = False"

lemma print_members_size:
  "\<forall>(k, v) \<in> set ms. flat v \<Longrightarrow> length (print_members ms) \<le> sum_list (map member_size ms)"
proof (induction ms)
  case (Cons m ms)
  obtain k v where m: "m = (k, v)" by fastforce
  have "length (quote k) \<le> 6 * length k + 2" using enc_chars_length [of k] by (simp add: quote_def)
  moreover have "length (print_json v) \<le> (case v of JStr s \<Rightarrow> 6 * length s | _ \<Rightarrow> 0) + 5"
    using Cons.prems m enc_chars_length by (cases v) (auto simp: quote_def intro: trans_le_add2)
  ultimately show ?case using Cons m by (cases ms) (auto simp: member_size_def)
qed simp

end
