(* ===== verification/Base64.thy ===== *)
theory Base64
  imports Json
begin

text \<open>
  Go's standard \<open>base64.StdEncoding\<close>, in which \<open>encoding/json\<close> writes and reads a
  \<open>[]byte\<close> field, and the assignment of object members to struct fields.
\<close>

section \<open>Encoding and decoding\<close>

definition b64_alphabet :: string where
  "b64_alphabet = ''ABCDEFGHIJKLMNOPQRSTUVWXYZabcdefghijklmnopqrstuvwxyz0123456789+/''"

definition b64_char :: "nat \<Rightarrow> char" where
  "b64_char n = b64_alphabet ! n"

definition b64_val :: "char \<Rightarrow> nat option" where
  "b64_val c =
     (if 65 \<le> cc c \<and> cc c \<le> 90 then Some (cc c - 65)
      else if 97 \<le> cc c \<and> cc c \<le> 122 then Some (cc c - 71)
      else if 48 \<le> cc c \<and> cc c \<le> 57 then Some (cc c + 4)
      else if cc c = 43 then Some 62
      else if cc c = 47 then Some 63
      else None)"

fun b64_enc :: "bytes \<Rightarrow> string" where
  "b64_enc [] = []"
| "b64_enc [a] = [b64_char (unat a div 4), b64_char (unat a mod 4 * 16), CHR ''='', CHR ''='']"
| "b64_enc [a, b] =
     [b64_char (unat a div 4), b64_char (unat a mod 4 * 16 + unat b div 16),
      b64_char (unat b mod 16 * 4), CHR ''='']"
| "b64_enc (a # b # c # r) =
     [b64_char (unat a div 4), b64_char (unat a mod 4 * 16 + unat b div 16),
      b64_char (unat b mod 16 * 4 + unat c div 64), b64_char (unat c mod 64)] @ b64_enc r"

text \<open>Groups of four characters; padding ends the text.\<close>

fun b64_groups :: "string \<Rightarrow> bytes option" where
  "b64_groups [] = Some []"
| "b64_groups (p # q # r # s # t) =
     (case (b64_val p, b64_val q) of
        (Some x, Some y) \<Rightarrow>
          if r = CHR ''=''
          then (if s = CHR ''='' \<and> t = [] then Some [of_nat (x * 4 + y div 16)] else None)
          else (case b64_val r of
                  None \<Rightarrow> None
                | Some z \<Rightarrow>
                    if s = CHR ''=''
                    then (if t = [] then Some [of_nat (x * 4 + y div 16), of_nat (y mod 16 * 16 + z div 4)]
                          else None)
                    else (case b64_val s of
                            None \<Rightarrow> None
                          | Some w \<Rightarrow>
                              map_option (\<lambda>bs. [of_nat (x * 4 + y div 16),
                                  of_nat (y mod 16 * 16 + z div 4), of_nat (z mod 4 * 64 + w)] @ bs)
                                (b64_groups t)))
      | _ \<Rightarrow> None)"
| "b64_groups _ = None"

text \<open>The decoder skips carriage returns and newlines.\<close>

definition b64_dec :: "string \<Rightarrow> bytes option" where
  "b64_dec s = b64_groups (filter (\<lambda>c. cc c \<noteq> 10 \<and> cc c \<noteq> 13) s)"

lemma b64_val_alphabet: "map b64_val b64_alphabet = map Some [0..<64]"
  by (simp add: b64_alphabet_def b64_val_def cc_def upt_rec)

lemma b64_val_char [simp]: "n < 64 \<Longrightarrow> b64_val (b64_char n) = Some n"
proof -
  assume n: "n < 64"
  have "length b64_alphabet = 64" by (simp add: b64_alphabet_def)
  then show ?thesis
    using arg_cong [OF b64_val_alphabet, of "\<lambda>xs. xs ! n"] n by (simp add: b64_char_def)
qed

lemma b64_val_eq [simp]: "b64_val CHR ''='' = None"
  by (simp add: b64_val_def cc_def)

lemma b64_char_neq [simp]: "n < 64 \<Longrightarrow> b64_char n \<noteq> CHR ''=''"
  using b64_val_char [of n] b64_val_eq by (metis option.distinct(1))

lemma b64_char_cc: "n < 64 \<Longrightarrow> 43 \<le> cc (b64_char n) \<and> cc (b64_char n) < 123"
  using b64_val_char [of n] by (auto simp: b64_val_def split: if_splits)

lemma unat_byte [simp]: "unat (b :: byte) < 256"
  using unsigned_less [of b] by simp

lemma byte_parts [simp]:
  fixes a :: byte
  shows "unat a div 4 < 64" "unat a mod 4 < 4" "unat a div 16 < 16" "unat a mod 16 < 16"
    "unat a div 64 < 4" "unat a mod 64 < 64"
  using unat_byte [of a] by (simp_all add: less_mult_imp_div_less)

lemma byte_arith [simp]:
  fixes a b c :: byte
  shows "unat a mod 4 * 16 < 64" "unat a mod 4 * 16 + unat b div 16 < 64"
    "unat b mod 16 * 4 < 64" "unat b mod 16 * 4 + unat c div 64 < 64"
  using byte_parts(2) [of a] byte_parts(3) [of b] byte_parts(4) [of b] byte_parts(5) [of c]
  by linarith+

lemma of_nat_byte [simp]: "of_nat (unat (a :: byte) div m * m + unat a mod m) = a"
  by (simp only: div_mult_mod_eq) simp

lemma byte_of_parts [simp]:
  fixes a b c :: byte
  shows "of_nat (unat a div 4 * 4 + unat a mod 4 * 16 div 16) = a"
    "of_nat (unat a div 4 * 4 + (unat a mod 4 * 16 + unat b div 16) div 16) = a"
    "of_nat ((unat a mod 4 * 16 + unat b div 16) mod 16 * 16 + unat b mod 16 * 4 div 4) = b"
    "of_nat ((unat a mod 4 * 16 + unat b div 16) mod 16 * 16 + (unat b mod 16 * 4 + unat c div 64) div 4) = b"
    "of_nat ((unat b mod 16 * 4 + unat c div 64) mod 4 * 64 + unat c mod 64) = c"
proof -
  have b: "(unat a mod 4 * 16 + unat b div 16) div 16 = unat a mod 4"
    "(unat a mod 4 * 16 + unat b div 16) mod 16 = unat b div 16"
    using byte_parts(3) [of b] by simp_all
  have c: "(unat b mod 16 * 4 + unat c div 64) div 4 = unat b mod 16"
    "(unat b mod 16 * 4 + unat c div 64) mod 4 = unat c div 64"
    using byte_parts(5) [of c] by simp_all
  show "of_nat (unat a div 4 * 4 + unat a mod 4 * 16 div 16) = a"
    "of_nat (unat a div 4 * 4 + (unat a mod 4 * 16 + unat b div 16) div 16) = a"
    "of_nat ((unat a mod 4 * 16 + unat b div 16) mod 16 * 16 + unat b mod 16 * 4 div 4) = b"
    "of_nat ((unat a mod 4 * 16 + unat b div 16) mod 16 * 16 + (unat b mod 16 * 4 + unat c div 64) div 4) = b"
    "of_nat ((unat b mod 16 * 4 + unat c div 64) mod 4 * 64 + unat c mod 64) = c"
    unfolding b c by (simp_all only: nonzero_mult_div_cancel_right zero_neq_numeral not_False_eq_True of_nat_byte)
qed

lemma b64_groups_enc: "b64_groups (b64_enc bs) = Some bs"
proof (induction bs rule: b64_enc.induct)
  case 1
  show ?case by simp
next
  case (2 a)
  show ?case by (simp only: b64_enc.simps b64_groups.simps) (simp del: of_nat_add of_nat_mult add: byte_of_parts [simplified])
next
  case (3 a b)
  show ?case by (simp only: b64_enc.simps b64_groups.simps b64_val_char byte_parts byte_arith b64_char_neq option.case prod.case if_True if_False simp_thms byte_of_parts)
next
  case (4 a b c r)
  then show ?case by (simp only: append.simps b64_enc.simps b64_groups.simps b64_val_char byte_parts byte_arith b64_char_neq option.case prod.case if_True if_False simp_thms byte_of_parts option.map)
qed

lemma b64_enc_chars: "c \<in> set (b64_enc bs) \<Longrightarrow> 43 \<le> cc c \<and> cc c < 123"
  by (induction bs rule: b64_enc.induct) (auto simp: b64_char_cc cc_def [of "CHR ''=''"])

theorem b64_dec_enc: "b64_dec (b64_enc bs) = Some bs"
proof -
  have "filter (\<lambda>c. cc c \<noteq> 10 \<and> cc c \<noteq> 13) (b64_enc bs) = b64_enc bs"
    by (rule filter_True) (auto dest: b64_enc_chars)
  then show ?thesis by (simp add: b64_dec_def b64_groups_enc)
qed

lemma ascii_utf8: "\<forall>c \<in> set s. cc c < 128 \<Longrightarrow> utf8_valid s"
proof (induction s)
  case (Cons c s)
  then show ?case by (subst utf8_valid.simps) simp
qed simp

lemma b64_utf8 [simp]: "utf8_valid (b64_enc bs)"
  using b64_enc_chars by (intro ascii_utf8) force

section \<open>Object members into struct fields\<close>

text \<open>
  A member goes to the field whose name is its key, or else to the first field whose name
  folds to the same string: ASCII letters without regard to case, and the two other runes
  that fold to an ASCII letter (U+017F to S, U+212A to K).
\<close>

definition upper :: "char \<Rightarrow> char" where
  "upper c = (if 97 \<le> cc c \<and> cc c \<le> 122 then ch (cc c - 32) else c)"

fun fold_name :: "string \<Rightarrow> string" where
  "fold_name [] = []"
| "fold_name (a # r) =
     (case r of
        b # r2 \<Rightarrow>
          if cc a = 197 \<and> cc b = 191 then CHR ''S'' # fold_name r2
          else (case r2 of
                  c # r3 \<Rightarrow>
                    if cc a = 226 \<and> cc b = 132 \<and> cc c = 170 then CHR ''K'' # fold_name r3
                    else upper a # fold_name r
                | [] \<Rightarrow> upper a # fold_name r)
      | [] \<Rightarrow> upper a # fold_name r)"

type_synonym 'a field = "string \<times> (json \<Rightarrow> 'a \<Rightarrow> 'a option)"

definition find_field :: "'a field list \<Rightarrow> string \<Rightarrow> 'a field option" where
  "find_field fs k =
     (case List.find (\<lambda>f. fst f = k) fs of
        Some f \<Rightarrow> Some f
      | None \<Rightarrow> List.find (\<lambda>f. fold_name (fst f) = fold_name k) fs)"

text \<open>
  Members are assigned in order and unknown ones skipped.  A member of the wrong type makes
  the whole \<open>Unmarshal\<close> fail; every caller then drops the value, so it is \<open>None\<close>.
\<close>

fun set_members :: "'a field list \<Rightarrow> (string \<times> json) list \<Rightarrow> 'a \<Rightarrow> 'a option" where
  "set_members fs [] x = Some x"
| "set_members fs ((k, v) # ms) x =
     (case find_field fs k of
        None \<Rightarrow> set_members fs ms x
      | Some f \<Rightarrow> (case snd f v x of None \<Rightarrow> None | Some y \<Rightarrow> set_members fs ms y))"

text \<open>The kinds of field the program has; a JSON null leaves a string or a Boolean as it is.\<close>

definition str_field :: "string \<Rightarrow> (string \<Rightarrow> 'a \<Rightarrow> 'a) \<Rightarrow> 'a field" where
  "str_field n upd =
     (n, \<lambda>v x. case v of JStr s \<Rightarrow> Some (upd s x) | JNull \<Rightarrow> Some x | _ \<Rightarrow> None)"

definition bool_field :: "string \<Rightarrow> (bool \<Rightarrow> 'a \<Rightarrow> 'a) \<Rightarrow> 'a field" where
  "bool_field n upd =
     (n, \<lambda>v x. case v of JBool b \<Rightarrow> Some (upd b x) | JNull \<Rightarrow> Some x | _ \<Rightarrow> None)"

text \<open>
  A \<open>[]byte\<close> is read from base64, from null (the nil slice), or from an array of numbers
  0 to 255, in which null stands for 0.
\<close>

definition byte_lit :: "json \<Rightarrow> byte option" where
  "byte_lit v =
     (case v of
        JNum s \<Rightarrow> if list_all is_digit s \<and> s \<noteq> [] \<and> undec s < 256 then Some (of_nat (undec s)) else None
      | JNull \<Rightarrow> Some 0
      | _ \<Rightarrow> None)"

definition bytes_json :: "json \<Rightarrow> bytes option" where
  "bytes_json v =
     (case v of
        JStr s \<Rightarrow> b64_dec s
      | JNull \<Rightarrow> Some []
      | JArr vs \<Rightarrow> those (map byte_lit vs)
      | _ \<Rightarrow> None)"

definition bytes_field :: "string \<Rightarrow> (bytes \<Rightarrow> 'a \<Rightarrow> 'a) \<Rightarrow> 'a field" where
  "bytes_field n upd = (n, \<lambda>v x. map_option (\<lambda>b. upd b x) (bytes_json v))"

text \<open>
  \<open>json.Unmarshal(data, &x)\<close> into a struct: a syntax error, or a value that is neither an
  object nor null, is an error; null leaves the struct as it is.
\<close>

definition unmarshal_struct :: "'a field list \<Rightarrow> 'a \<Rightarrow> bytes \<Rightarrow> 'a res" where
  "unmarshal_struct fs x data =
     (case parse_json (str_of data) of
        None \<Rightarrow> Err (Lib ''json: syntax error'')
      | Some JNull \<Rightarrow> Ok x
      | Some (JObj ms) \<Rightarrow>
          (case set_members fs ms x of
             None \<Rightarrow> Err (Lib ''json: cannot unmarshal'')
           | Some y \<Rightarrow> Ok y)
      | Some _ \<Rightarrow> Err (Lib ''json: cannot unmarshal''))"

definition marshal_json :: "json \<Rightarrow> bytes" where
  "marshal_json v = bytes_of (print_json v)"

lemma unmarshal_struct_returns [simp]: "returned (unmarshal_struct fs x data)"
  by (simp add: unmarshal_struct_def split: option.split json.split)

lemma unmarshal_marshal_object:
  assumes "\<forall>(k, v) \<in> set ms. utf8_valid k \<and> scalar v"
  shows "unmarshal_struct fs x (marshal_json (JObj ms)) =
     (case set_members fs ms x of
        None \<Rightarrow> Err (Lib ''json: cannot unmarshal'') | Some y \<Rightarrow> Ok y)"
  using parse_print_object [OF assms] by (simp add: unmarshal_struct_def marshal_json_def)

lemma utf8_lit: "list_all (\<lambda>c. cc c < 128) s \<Longrightarrow> utf8_valid s"
  by (rule ascii_utf8) (simp add: list_all_iff)

section \<open>Properties\<close>

text \<open>
  The JSON parser always has enough fuel: with more it answers the same, so a syntax error
  it reports is one of the text and not of the bound.
\<close>

theorem json_fuel_enough:
  assumes "2 * length s + 2 \<le> f"
  shows "parse_json s =
    (case parse_value f 0 s of Some (v, r) \<Rightarrow> if skip_ws r = [] then Some v else None | None \<Rightarrow> None)"
  using parse_json_fuel [OF assms] .

theorem json_fuel_enough_witness:
  "parse_json ''[]'' = (case parse_value 7 0 ''[]'' of
     Some (v, r) \<Rightarrow> if skip_ws r = [] then Some v else None | None \<Rightarrow> None)"
  using json_fuel_enough [of "''[]''" 7] by simp

lemma marshal_object_size:
  assumes "\<forall>(k, v) \<in> set ms. flat v"
  shows "length (marshal_json (JObj ms)) \<le> sum_list (map member_size ms) + 2"
  using print_members_size [OF assms] by (simp add: marshal_json_def)

lemma b64_enc_length: "length (b64_enc bs) \<le> 2 * length bs + 2"
  by (induction bs rule: b64_enc.induct) auto

end
