(* ===== verification/Entry.thy ===== *)
theory Entry
  imports Base64
begin

text \<open>
  The domain entries of \<open>internal/domain/entry\<close>: the four structs with their JSON tags, the
  interface \<open>Entry\<close>, and \<open>Marshal\<close> and \<open>Unmarshal\<close> of \<open>codec.go\<close>.
\<close>

section \<open>Data\<close>

text \<open>The constants of \<open>Type\<close>.\<close>

definition TypePassword :: string where "TypePassword = ''password''"

definition TypeText :: string where "TypeText = ''text''"

definition TypeCard :: string where "TypeCard = ''card''"

definition TypeBinary :: string where "TypeBinary = ''binary''"

lemmas type_defs = TypePassword_def TypeText_def TypeCard_def TypeBinary_def

record PasswordEntry =
  pw_ID :: string
  pw_Type :: string
  pw_Site :: string
  pw_Login :: string
  pw_Password :: string
  pw_Meta :: string
  pw_IsOTP :: bool
  pw_OTPSecret :: string

record TextEntry =
  tx_ID :: string
  tx_Type :: string
  tx_Title :: string
  tx_Content :: string
  tx_Meta :: string

record CardEntry =
  cd_ID :: string
  cd_Type :: string
  cd_Number :: string
  cd_Expiry :: string
  cd_CVV :: string
  cd_Holder :: string
  cd_Meta :: string

record BinaryEntry =
  bn_ID :: string
  bn_Type :: string
  bn_FileName :: string
  bn_Data :: bytes
  bn_Meta :: string

text \<open>A value of the interface \<open>Entry\<close>: one of the four struct types.\<close>

datatype entry =
    Password PasswordEntry
  | Text TextEntry
  | Card CardEntry
  | Binary BinaryEntry

fun GetID :: "entry \<Rightarrow> string" where
  "GetID (Password p) = pw_ID p"
| "GetID (Text t) = tx_ID t"
| "GetID (Card c) = cd_ID c"
| "GetID (Binary b) = bn_ID b"

text \<open>\<open>GetType\<close> is fixed by the struct, whatever its \<open>Type\<close> field holds.\<close>

fun GetType :: "entry \<Rightarrow> string" where
  "GetType (Password p) = TypePassword"
| "GetType (Text t) = TypeText"
| "GetType (Card c) = TypeCard"
| "GetType (Binary b) = TypeBinary"

text \<open>The \<open>Type\<close> field, which is what \<open>Marshal\<close> writes.\<close>

fun type_field :: "entry \<Rightarrow> string" where
  "type_field (Password p) = pw_Type p"
| "type_field (Text t) = tx_Type t"
| "type_field (Card c) = cd_Type c"
| "type_field (Binary b) = bn_Type b"

section \<open>Marshalling\<close>

text \<open>
  The members in the order of the struct's fields; \<open>is_otp\<close> and \<open>otp_secret\<close> have
  \<open>omitempty\<close>.
\<close>

fun entry_members :: "entry \<Rightarrow> (string \<times> json) list" where
  "entry_members (Password p) =
     [(''id'', JStr (pw_ID p)), (''type'', JStr (pw_Type p)), (''site'', JStr (pw_Site p)),
      (''login'', JStr (pw_Login p)), (''password'', JStr (pw_Password p)), (''meta'', JStr (pw_Meta p))]
     @ (if pw_IsOTP p then [(''is_otp'', JBool True)] else [])
     @ (if pw_OTPSecret p \<noteq> '''' then [(''otp_secret'', JStr (pw_OTPSecret p))] else [])"
| "entry_members (Text t) =
     [(''id'', JStr (tx_ID t)), (''type'', JStr (tx_Type t)), (''title'', JStr (tx_Title t)),
      (''content'', JStr (tx_Content t)), (''meta'', JStr (tx_Meta t))]"
| "entry_members (Card c) =
     [(''id'', JStr (cd_ID c)), (''type'', JStr (cd_Type c)), (''number'', JStr (cd_Number c)),
      (''expiry'', JStr (cd_Expiry c)), (''cvv'', JStr (cd_CVV c)), (''holder'', JStr (cd_Holder c)),
      (''meta'', JStr (cd_Meta c))]"
| "entry_members (Binary b) =
     [(''id'', JStr (bn_ID b)), (''type'', JStr (bn_Type b)), (''file_name'', JStr (bn_FileName b)),
      (''data'', JStr (b64_enc (bn_Data b))), (''meta'', JStr (bn_Meta b))]"

definition Marshal :: "entry \<Rightarrow> bytes res" where
  "Marshal v = Ok (marshal_json (JObj (entry_members v)))"

definition password_fields :: "PasswordEntry field list" where
  "password_fields =
     [str_field ''id'' (\<lambda>s p. p\<lparr>pw_ID := s\<rparr>), str_field ''type'' (\<lambda>s p. p\<lparr>pw_Type := s\<rparr>),
      str_field ''site'' (\<lambda>s p. p\<lparr>pw_Site := s\<rparr>), str_field ''login'' (\<lambda>s p. p\<lparr>pw_Login := s\<rparr>),
      str_field ''password'' (\<lambda>s p. p\<lparr>pw_Password := s\<rparr>), str_field ''meta'' (\<lambda>s p. p\<lparr>pw_Meta := s\<rparr>),
      bool_field ''is_otp'' (\<lambda>b p. p\<lparr>pw_IsOTP := b\<rparr>),
      str_field ''otp_secret'' (\<lambda>s p. p\<lparr>pw_OTPSecret := s\<rparr>)]"

definition text_fields :: "TextEntry field list" where
  "text_fields =
     [str_field ''id'' (\<lambda>s t. t\<lparr>tx_ID := s\<rparr>), str_field ''type'' (\<lambda>s t. t\<lparr>tx_Type := s\<rparr>),
      str_field ''title'' (\<lambda>s t. t\<lparr>tx_Title := s\<rparr>), str_field ''content'' (\<lambda>s t. t\<lparr>tx_Content := s\<rparr>),
      str_field ''meta'' (\<lambda>s t. t\<lparr>tx_Meta := s\<rparr>)]"

definition card_fields :: "CardEntry field list" where
  "card_fields =
     [str_field ''id'' (\<lambda>s c. c\<lparr>cd_ID := s\<rparr>), str_field ''type'' (\<lambda>s c. c\<lparr>cd_Type := s\<rparr>),
      str_field ''number'' (\<lambda>s c. c\<lparr>cd_Number := s\<rparr>), str_field ''expiry'' (\<lambda>s c. c\<lparr>cd_Expiry := s\<rparr>),
      str_field ''cvv'' (\<lambda>s c. c\<lparr>cd_CVV := s\<rparr>), str_field ''holder'' (\<lambda>s c. c\<lparr>cd_Holder := s\<rparr>),
      str_field ''meta'' (\<lambda>s c. c\<lparr>cd_Meta := s\<rparr>)]"

definition binary_fields :: "BinaryEntry field list" where
  "binary_fields =
     [str_field ''id'' (\<lambda>s b. b\<lparr>bn_ID := s\<rparr>), str_field ''type'' (\<lambda>s b. b\<lparr>bn_Type := s\<rparr>),
      str_field ''file_name'' (\<lambda>s b. b\<lparr>bn_FileName := s\<rparr>), bytes_field ''data'' (\<lambda>d b. b\<lparr>bn_Data := d\<rparr>),
      str_field ''meta'' (\<lambda>s b. b\<lparr>bn_Meta := s\<rparr>)]"

text \<open>The zero values \<open>var e T\<close> starts from.\<close>

definition zero_password :: PasswordEntry where
  "zero_password = \<lparr>pw_ID = [], pw_Type = [], pw_Site = [], pw_Login = [], pw_Password = [],
     pw_Meta = [], pw_IsOTP = False, pw_OTPSecret = []\<rparr>"

definition zero_text :: TextEntry where
  "zero_text = \<lparr>tx_ID = [], tx_Type = [], tx_Title = [], tx_Content = [], tx_Meta = []\<rparr>"

definition zero_card :: CardEntry where
  "zero_card = \<lparr>cd_ID = [], cd_Type = [], cd_Number = [], cd_Expiry = [], cd_CVV = [],
     cd_Holder = [], cd_Meta = []\<rparr>"

definition zero_binary :: BinaryEntry where
  "zero_binary = \<lparr>bn_ID = [], bn_Type = [], bn_FileName = [], bn_Data = [], bn_Meta = []\<rparr>"

text \<open>The probe of \<open>Unmarshal\<close>: a struct with the one field tagged \<open>type\<close>.\<close>

definition probe_type :: "bytes \<Rightarrow> string res" where
  "probe_type data = unmarshal_struct [str_field ''type'' (\<lambda>s _. s)] [] data"

definition Unmarshal :: "bytes \<Rightarrow> entry res" where
  "Unmarshal data =
     (case probe_type data of
        Ok typ \<Rightarrow>
          if typ = TypePassword then
            wrap_err ''password unmarshal'' (map_res Password (unmarshal_struct password_fields zero_password data))
          else if typ = TypeText then
            wrap_err ''text unmarshal'' (map_res Text (unmarshal_struct text_fields zero_text data))
          else if typ = TypeCard then
            wrap_err ''card unmarshal'' (map_res Card (unmarshal_struct card_fields zero_card data))
          else if typ = TypeBinary then
            wrap_err ''binary unmarshal'' (map_res Binary (unmarshal_struct binary_fields zero_binary data))
          else Err (Errorf (''unknown entry type: '' @ typ))
      | Err e \<Rightarrow> Err (Wrapf ''probe unmarshal'' e)
      | Panic \<Rightarrow> Panic
      | Hang \<Rightarrow> Hang)"

section \<open>Properties\<close>

text \<open>Entries whose strings are valid UTF-8, which the writer keeps unchanged.\<close>

fun entry_utf8 :: "entry \<Rightarrow> bool" where
  "entry_utf8 (Password p) \<longleftrightarrow> list_all utf8_valid
     [pw_ID p, pw_Type p, pw_Site p, pw_Login p, pw_Password p, pw_Meta p, pw_OTPSecret p]"
| "entry_utf8 (Text t) \<longleftrightarrow> list_all utf8_valid [tx_ID t, tx_Type t, tx_Title t, tx_Content t, tx_Meta t]"
| "entry_utf8 (Card c) \<longleftrightarrow> list_all utf8_valid
     [cd_ID c, cd_Type c, cd_Number c, cd_Expiry c, cd_CVV c, cd_Holder c, cd_Meta c]"
| "entry_utf8 (Binary b) \<longleftrightarrow> list_all utf8_valid [bn_ID b, bn_Type b, bn_FileName b, bn_Meta b]"

lemma key_utf8 [simp]:
  "utf8_valid ''id''" "utf8_valid ''type''" "utf8_valid ''site''" "utf8_valid ''login''"
  "utf8_valid ''password''" "utf8_valid ''meta''" "utf8_valid ''is_otp''" "utf8_valid ''otp_secret''"
  "utf8_valid ''title''" "utf8_valid ''content''" "utf8_valid ''number''" "utf8_valid ''expiry''"
  "utf8_valid ''cvv''" "utf8_valid ''holder''" "utf8_valid ''file_name''" "utf8_valid ''data''"
  by (rule utf8_lit, simp add: cc_def)+

lemma entry_members_scalar:
  "entry_utf8 e \<Longrightarrow> \<forall>(k, v) \<in> set (entry_members e). utf8_valid k \<and> scalar v"
  by (cases e) auto

lemmas field_simps' = find_field_def str_field_def bool_field_def bytes_field_def bytes_json_def

lemma fold_keys [simp]:
  "fold_name ''id'' = ''ID''" "fold_name ''type'' = ''TYPE''" "fold_name ''site'' = ''SITE''"
  "fold_name ''login'' = ''LOGIN''" "fold_name ''password'' = ''PASSWORD''" "fold_name ''meta'' = ''META''"
  "fold_name ''is_otp'' = ''IS_OTP''" "fold_name ''otp_secret'' = ''OTP_SECRET''"
  "fold_name ''title'' = ''TITLE''" "fold_name ''content'' = ''CONTENT''" "fold_name ''number'' = ''NUMBER''"
  "fold_name ''expiry'' = ''EXPIRY''" "fold_name ''cvv'' = ''CVV''" "fold_name ''holder'' = ''HOLDER''"
  "fold_name ''file_name'' = ''FILE_NAME''" "fold_name ''data'' = ''DATA''"
  by (simp_all add: upper_def cc_def ch_eq_iff)

declare fold_name.simps [simp del]

lemma probe_members:
  "set_members [str_field ''type'' (\<lambda>s _. s)] (entry_members e) [] = Some (type_field e)"
  by (cases e) (simp_all add: field_simps')

lemma probe_marshal:
  assumes "entry_utf8 e"
  shows "probe_type (marshal_json (JObj (entry_members e))) = Ok (type_field e)"
  by (simp add: probe_type_def unmarshal_marshal_object [OF entry_members_scalar [OF assms]] probe_members)

lemma set_password:
  "set_members password_fields (entry_members (Password p)) zero_password = Some p"
  by (cases p) (simp add: password_fields_def zero_password_def field_simps')

lemma set_text:
  "set_members text_fields (entry_members (Text t)) zero_text = Some t"
  by (cases t) (simp add: text_fields_def zero_text_def field_simps')

lemma set_card:
  "set_members card_fields (entry_members (Card c)) zero_card = Some c"
  by (cases c) (simp add: card_fields_def zero_card_def field_simps')

lemma set_binary:
  "set_members binary_fields (entry_members (Binary b)) zero_binary = Some b"
  by (cases b) (simp add: binary_fields_def zero_binary_def field_simps' b64_dec_enc)

lemmas set_entry = set_password set_text set_card set_binary

lemma type_distinct [simp]:
  "TypePassword \<noteq> TypeText" "TypePassword \<noteq> TypeCard" "TypePassword \<noteq> TypeBinary"
  "TypeText \<noteq> TypePassword" "TypeText \<noteq> TypeCard" "TypeText \<noteq> TypeBinary"
  "TypeCard \<noteq> TypePassword" "TypeCard \<noteq> TypeText" "TypeCard \<noteq> TypeBinary"
  "TypeBinary \<noteq> TypePassword" "TypeBinary \<noteq> TypeText" "TypeBinary \<noteq> TypeCard"
  by (simp_all add: type_defs)

lemma Marshal_Ok: "Marshal e = Ok (marshal_json (JObj (entry_members e)))"
  by (simp add: Marshal_def)

lemma Marshal_size: "Marshal e = Ok data \<Longrightarrow> length data \<le> sum_list (map member_size (entry_members e)) + 2"
  using marshal_object_size [of "entry_members e"] by (cases e) (auto simp: Marshal_def)

lemma Unmarshal_members:
  assumes utf8: "entry_utf8 e" and ty: "type_field e = GetType e"
  shows "Unmarshal (marshal_json (JObj (entry_members e))) = Ok e"
  using assms probe_marshal [OF utf8]
  by (cases e)
    (simp_all add: Unmarshal_def unmarshal_marshal_object [OF entry_members_scalar] set_entry
       del: entry_members.simps set_members.simps entry_utf8.simps)

lemma Unmarshal_unknown:
  assumes "entry_utf8 e" and "type_field e \<notin> {TypePassword, TypeText, TypeCard, TypeBinary}"
  shows "Unmarshal (marshal_json (JObj (entry_members e))) =
           Err (Errorf (''unknown entry type: '' @ type_field e))"
  using assms(2) probe_marshal [OF assms(1)] by (simp add: Unmarshal_def)

text \<open>What \<open>Unmarshal\<close> returns always has the dynamic type its probe announced.\<close>

lemma Unmarshal_type:
  "Unmarshal data = Ok e \<Longrightarrow> probe_type data = Ok (GetType e)"
  by (auto simp: Unmarshal_def split: res.splits if_splits)

section \<open>The codec\<close>

text \<open>
  C8. An entry of any of the four types, with valid UTF-8 strings and the type tag of its
  struct, is read back by \<open>Unmarshal\<close> exactly as \<open>Marshal\<close> wrote it, through the JSON text
  with its escapes and, for files, base64.
\<close>

theorem codec_roundtrip:
  assumes "entry_utf8 e" and "type_field e = GetType e" and "Marshal e = Ok data"
  shows "Unmarshal data = Ok e"
  using Unmarshal_members [OF assms(1,2)] assms(3) by (simp add: Marshal_def)

text \<open>
  An entry whose type tag is none of the four is written without complaint, and reading it
  back is the error \<open>unknown entry type\<close>.
\<close>

theorem codec_unknown_type:
  assumes "entry_utf8 e" and "type_field e \<notin> {TypePassword, TypeText, TypeCard, TypeBinary}"
    and "Marshal e = Ok data"
  shows "Unmarshal data = Err (Errorf (''unknown entry type: '' @ type_field e))"
  using Unmarshal_unknown [OF assms(1,2)] assms(3) by (simp add: Marshal_def)

text \<open>
  C40. \<open>Unmarshal\<close> returns on every input, and a value it returns has the dynamic type that the
  probe of the \<open>type\<close> member announced.
\<close>

theorem Unmarshal_typed:
  "returned (Unmarshal data) \<and>
   (case Unmarshal data of Ok e \<Rightarrow> probe_type data = Ok (GetType e) | _ \<Rightarrow> True)"
proof -
  have m: "returned (wrap_err p (map_res f r)) \<longleftrightarrow> returned r" for p and f :: "'a \<Rightarrow> 'b" and r
    by (cases r) auto
  have p: "returned (probe_type data)" by (simp add: probe_type_def)
  have "returned (Unmarshal data)"
    using p unfolding Unmarshal_def
    by (auto simp: m unmarshal_struct_def split: res.split option.split json.split)
  then show ?thesis using Unmarshal_type [of data] by (auto split: res.split)
qed

definition sample_card :: entry where
  "sample_card = Card \<lparr>cd_ID = ''c1'', cd_Type = ''card'', cd_Number = ''4111'', cd_Expiry = ''01/30'',
     cd_CVV = ''123'', cd_Holder = ''A B'', cd_Meta = []\<rparr>"

lemma sample_card_utf8: "entry_utf8 sample_card"
proof -
  have "utf8_valid ''c1''" "utf8_valid ''card''" "utf8_valid ''4111''" "utf8_valid ''01/30''"
    "utf8_valid ''123''" "utf8_valid ''A B''"
    by (rule utf8_lit, simp add: cc_def)+
  then show ?thesis by (simp add: sample_card_def)
qed

theorem codec_roundtrip_witness:
  "\<exists>data. Marshal sample_card = Ok data \<and> Unmarshal data = Ok sample_card"
  using codec_roundtrip [OF sample_card_utf8 _ Marshal_Ok]
  by (simp add: sample_card_def Marshal_Ok type_defs)

theorem codec_unknown_type_witness:
  "\<exists>data. Marshal (Text (zero_text\<lparr>tx_Type := ''note''\<rparr>)) = Ok data \<and>
     Unmarshal data = Err (Errorf ''unknown entry type: note'')"
proof -
  let ?e = "Text (zero_text\<lparr>tx_Type := ''note''\<rparr>)"
  have "utf8_valid ''note''" by (rule utf8_lit) (simp add: cc_def)
  then have "entry_utf8 ?e" by (simp add: zero_text_def)
  from codec_unknown_type [OF this _ Marshal_Ok] show ?thesis
    by (simp add: Marshal_Ok type_defs zero_text_def)
qed

end
