(* ===== verification/Postgres.thy ===== *)
theory Postgres
  imports Json
begin

text \<open>
  The server's database: the tables of \<open>migrations/001_init.sql\<close>, \<open>002_entries.sql\<close> and
  \<open>003_add_salt.sql\<close> with their constraints, and the SQL statements the server sends.  A
  statement can also fail for a reason outside the program (a lost connection, a cancelled
  context): every statement takes an \<open>error option\<close> that says so, chosen by the caller.

  User ids are the canonical text of a UUID (\<open>uuid.New().String()\<close>), compared as strings.
  Times are microseconds since the epoch, the resolution of \<open>TIMESTAMPTZ\<close>.
\<close>

section \<open>Tables\<close>

record user_row =
  u_id :: string
  u_login :: string
  u_secret :: bytes
  u_salt :: bytes

record token_row =
  t_id :: string
  t_user :: string
  t_hash :: bytes
  t_expires :: int

record entry_row =
  e_user :: string
  e_entry :: string
  e_data :: bytes
  e_meta :: "bytes option"
  e_version :: int64
  e_updated :: int

record pg =
  users_tab :: "user_row list"
  tokens_tab :: "token_row list"
  entries_tab :: "entry_row list"

definition empty_pg :: pg where
  "empty_pg = \<lparr>users_tab = [], tokens_tab = [], entries_tab = []\<rparr>"

text \<open>
  \<open>VARCHAR(n)\<close> holds at most \<open>n\<close> characters of valid UTF-8 without a NUL byte; the characters
  are the bytes that do not continue one.
\<close>

definition varchar_ok :: "nat \<Rightarrow> string \<Rightarrow> bool" where
  "varchar_ok n s \<longleftrightarrow> utf8_valid s \<and> ch 0 \<notin> set s \<and> length (filter (\<lambda>c. \<not> cont c) s) \<le> n"

definition user_exists :: "pg \<Rightarrow> string \<Rightarrow> bool" where
  "user_exists db u \<longleftrightarrow> u \<in> set (map u_id (users_tab db))"

definition row_key :: "entry_row \<Rightarrow> string \<times> string" where
  "row_key r = (e_user r, e_entry r)"

text \<open>The row under the unique key \<open>(user_id, entry_id)\<close>.\<close>

definition row_of :: "entry_row list \<Rightarrow> string \<Rightarrow> string \<Rightarrow> entry_row option" where
  "row_of rows u i = List.find (\<lambda>r. row_key r = (u, i)) rows"

text \<open>The tables' constraints: primary and unique keys, and the foreign keys to \<open>users\<close>.\<close>

definition pg_ok :: "pg \<Rightarrow> bool" where
  "pg_ok db \<longleftrightarrow>
     distinct (map u_id (users_tab db)) \<and> distinct (map u_login (users_tab db)) \<and>
     distinct (map t_id (tokens_tab db)) \<and> distinct (map t_hash (tokens_tab db)) \<and>
     distinct (map row_key (entries_tab db)) \<and>
     (\<forall>t \<in> set (tokens_tab db). user_exists db (t_user t)) \<and>
     (\<forall>r \<in> set (entries_tab db). user_exists db (e_user r))"

lemma pg_ok_empty [simp]: "pg_ok empty_pg"
  by (simp add: pg_ok_def empty_pg_def)

section \<open>Statements on \<open>users\<close> and \<open>refresh_tokens\<close>\<close>

text \<open>\<open>SELECT id, encrypted_secret, salt FROM users WHERE login=$1\<close>\<close>

definition sql_find_login :: "error option \<Rightarrow> pg \<Rightarrow> string \<Rightarrow> user_row res" where
  "sql_find_login fl db login =
     (case fl of
        Some e \<Rightarrow> Err e
      | None \<Rightarrow> (case List.find (\<lambda>r. u_login r = login) (users_tab db) of
                   None \<Rightarrow> Err (Lib ''no rows in result set'')
                 | Some r \<Rightarrow> Ok r))"

text \<open>
  \<open>INSERT INTO users (id, login, encrypted_secret, salt)\<close>.  An empty \<open>encrypted_secret\<close> is a
  field proto3 leaves out, a nil slice in Go and NULL in SQL, which the column does not allow.
\<close>

definition sql_insert_user :: "error option \<Rightarrow> pg \<Rightarrow> user_row \<Rightarrow> pg res" where
  "sql_insert_user fl db r =
     (case fl of
        Some e \<Rightarrow> Err e
      | None \<Rightarrow>
          if u_secret r = [] then Err (PgErr ''23502'' ''null value in column'')
          else if \<not> varchar_ok 64 (u_login r) then Err (PgErr ''22001'' ''value too long'')
          else if u_id r \<in> set (map u_id (users_tab db)) \<or> u_login r \<in> set (map u_login (users_tab db))
          then Err (PgErr ''23505'' ''duplicate key value'')
          else Ok (db\<lparr>users_tab := users_tab db @ [r]\<rparr>))"

text \<open>\<open>INSERT INTO refresh_tokens (id, user_id, token_hash, expires_at)\<close>\<close>

definition sql_insert_token :: "error option \<Rightarrow> pg \<Rightarrow> token_row \<Rightarrow> pg res" where
  "sql_insert_token fl db r =
     (case fl of
        Some e \<Rightarrow> Err e
      | None \<Rightarrow>
          if t_id r \<in> set (map t_id (tokens_tab db)) \<or> t_hash r \<in> set (map t_hash (tokens_tab db))
          then Err (PgErr ''23505'' ''duplicate key value'')
          else if \<not> user_exists db (t_user r) then Err (PgErr ''23503'' ''foreign key violation'')
          else Ok (db\<lparr>tokens_tab := tokens_tab db @ [r]\<rparr>))"

text \<open>\<open>SELECT user_id FROM refresh_tokens WHERE token_hash = $1 AND expires_at > now()\<close>\<close>

definition sql_find_token :: "error option \<Rightarrow> pg \<Rightarrow> bytes \<Rightarrow> int \<Rightarrow> string res" where
  "sql_find_token fl db h now =
     (case fl of
        Some e \<Rightarrow> Err e
      | None \<Rightarrow> (case List.find (\<lambda>r. t_hash r = h \<and> t_expires r > now) (tokens_tab db) of
                   None \<Rightarrow> Err (Lib ''no rows in result set'')
                 | Some r \<Rightarrow> Ok (t_user r)))"

text \<open>\<open>DELETE FROM refresh_tokens WHERE token_hash = $1\<close>\<close>

definition sql_delete_token :: "error option \<Rightarrow> pg \<Rightarrow> bytes \<Rightarrow> pg res" where
  "sql_delete_token fl db h =
     (case fl of
        Some e \<Rightarrow> Err e
      | None \<Rightarrow> Ok (db\<lparr>tokens_tab := filter (\<lambda>r. t_hash r \<noteq> h) (tokens_tab db)\<rparr>))"

section \<open>Statements on \<open>entries\<close>\<close>

text \<open>
  The upsert of the synchronisation service: insert the row, or on conflict replace the one
  that is there when its version is lower.
\<close>

definition newer :: "entry_row \<Rightarrow> entry_row \<Rightarrow> entry_row" where
  "newer x r = (if sint (e_version x) < sint (e_version r) then r else x)"

fun upsert_rows :: "entry_row \<Rightarrow> entry_row list \<Rightarrow> entry_row list" where
  "upsert_rows r [] = [r]"
| "upsert_rows r (x # xs) =
     (if row_key x = row_key r then newer x r # xs else x # upsert_rows r xs)"

definition insert_checks :: "pg \<Rightarrow> entry_row \<Rightarrow> error option" where
  "insert_checks db r =
     (if e_data r = [] then Some (PgErr ''23502'' ''null value in column'')
      else if \<not> varchar_ok 255 (e_entry r) then Some (PgErr ''22001'' ''value too long'')
      else if \<not> user_exists db (e_user r) then Some (PgErr ''23503'' ''foreign key violation'')
      else None)"

definition sql_upsert_entry :: "error option \<Rightarrow> pg \<Rightarrow> entry_row \<Rightarrow> pg res" where
  "sql_upsert_entry fl db r =
     (case fl of
        Some e \<Rightarrow> Err e
      | None \<Rightarrow> (case insert_checks db r of
                   Some e \<Rightarrow> Err e
                 | None \<Rightarrow> Ok (db\<lparr>entries_tab := upsert_rows r (entries_tab db)\<rparr>)))"

text \<open>
  \<open>SELECT ... WHERE user_id = $1 AND version > $2 ORDER BY version ASC\<close>.  SQL leaves the order
  of equal versions open; here it is the table's.
\<close>

definition sql_select_since :: "error option \<Rightarrow> pg \<Rightarrow> string \<Rightarrow> int64 \<Rightarrow> entry_row list res" where
  "sql_select_since fl db u since =
     (case fl of
        Some e \<Rightarrow> Err e
      | None \<Rightarrow>
          Ok (sort_key (\<lambda>r. sint (e_version r))
            (filter (\<lambda>r. e_user r = u \<and> sint (e_version r) > sint since) (entries_tab db))))"

text \<open>\<open>DELETE FROM entries WHERE user_id = $1 AND entry_id = $2\<close>, with the rows affected.\<close>

definition sql_delete_entry :: "error option \<Rightarrow> pg \<Rightarrow> string \<Rightarrow> string \<Rightarrow> (nat \<times> pg) res" where
  "sql_delete_entry fl db u i =
     (case fl of
        Some e \<Rightarrow> Err e
      | None \<Rightarrow>
          Ok (length (filter (\<lambda>r. row_key r = (u, i)) (entries_tab db)),
              db\<lparr>entries_tab := filter (\<lambda>r. row_key r \<noteq> (u, i)) (entries_tab db)\<rparr>))"

section \<open>What the statements keep\<close>

lemma map_key_newer [simp]: "row_key x = row_key r \<Longrightarrow> row_key (newer x r) = row_key r"
  by (simp add: newer_def)

lemma e_user_row_key: "row_key x = row_key r \<Longrightarrow> e_user x = e_user r"
  by (simp add: row_key_def)

lemma upsert_keys: "set (map row_key (upsert_rows r rows)) = insert (row_key r) (set (map row_key rows))"
  by (induction rows) auto

lemma upsert_distinct:
  "distinct (map row_key rows) \<Longrightarrow> distinct (map row_key (upsert_rows r rows))"
proof (induction rows)
  case (Cons x xs)
  then show ?case using upsert_keys [of r xs] by (auto simp: image_iff)
qed simp

lemma upsert_set: "x \<in> set (upsert_rows r rows) \<Longrightarrow> x = r \<or> x \<in> set rows"
  by (induction rows) (auto simp: newer_def split: if_splits)

lemma row_of_upsert:
  "row_of (upsert_rows r rows) u i =
     (if row_key r = (u, i)
      then Some (case row_of rows u i of None \<Rightarrow> r | Some x \<Rightarrow> newer x r)
      else row_of rows u i)"
  by (induction rows) (auto simp: row_of_def)

lemma row_of_Some: "row_of rows u i = Some r \<Longrightarrow> r \<in> set rows \<and> e_user r = u \<and> e_entry r = i"
  by (auto simp: row_of_def find_Some_iff row_key_def)

lemma row_of_None: "row_of rows u i = None \<longleftrightarrow> (u, i) \<notin> set (map row_key rows)"
  by (induction rows) (auto simp: row_of_def)

lemma row_of_member:
  "distinct (map row_key rows) \<Longrightarrow> r \<in> set rows \<Longrightarrow> row_of rows (e_user r) (e_entry r) = Some r"
proof (induction rows)
  case (Cons x xs)
  then show ?case by (auto simp: row_of_def row_key_def)
qed simp

lemma row_of_filter:
  "row_of (filter (\<lambda>r. row_key r \<noteq> (u, i)) rows) u' i' =
     (if (u', i') = (u, i) then None else row_of rows u' i')"
  by (induction rows) (auto simp: row_of_def)

lemma user_exists_same [simp]:
  "user_exists (db\<lparr>entries_tab := es\<rparr>) u = user_exists db u"
  "user_exists (db\<lparr>tokens_tab := ts\<rparr>) u = user_exists db u"
  by (simp_all add: user_exists_def)

lemma sql_upsert_ok:
  assumes "sql_upsert_entry fl db r = Ok db'" and "pg_ok db"
  shows "pg_ok db'"
proof -
  have db': "db' = db\<lparr>entries_tab := upsert_rows r (entries_tab db)\<rparr>" and "user_exists db (e_user r)"
    using assms(1) by (auto simp: sql_upsert_entry_def insert_checks_def split: option.splits if_splits)
  then show ?thesis
    using assms(2) upsert_set [of _ r "entries_tab db"] by (auto simp: pg_ok_def upsert_distinct)
qed

lemma sql_delete_entry_ok:
  "sql_delete_entry fl db u i = Ok (n, db') \<Longrightarrow> pg_ok db \<Longrightarrow> pg_ok db'"
  by (auto simp: sql_delete_entry_def pg_ok_def distinct_map_filter split: option.splits)

lemma sql_insert_user_ok:
  "sql_insert_user fl db r = Ok db' \<Longrightarrow> pg_ok db \<Longrightarrow> pg_ok db'"
  by (auto simp: sql_insert_user_def pg_ok_def user_exists_def split: option.splits if_splits)

lemma sql_insert_token_ok:
  "sql_insert_token fl db r = Ok db' \<Longrightarrow> pg_ok db \<Longrightarrow> pg_ok db'"
  by (auto simp: sql_insert_token_def pg_ok_def split: option.splits if_splits)

lemma sql_delete_token_ok:
  "sql_delete_token fl db h = Ok db' \<Longrightarrow> pg_ok db \<Longrightarrow> pg_ok db'"
  by (auto simp: sql_delete_token_def pg_ok_def distinct_map_filter split: option.splits)

lemmas sql_ok = sql_upsert_ok sql_delete_entry_ok sql_insert_user_ok sql_insert_token_ok sql_delete_token_ok

end
