(* ===== verification/SyncServer.thy ===== *)
theory SyncServer
  imports Postgres "HOL-Library.Multiset"
begin

text \<open>
  The synchronisation service of the server, \<open>internal/server/sync/sync.go\<close>, over the tables
  of \<open>Postgres\<close>, and the messages of \<open>api/proto/sync\<close>.  A handler gets the user id its context
  holds, if any.  \<open>fl n\<close> is the outside failure of its \<open>n\<close>-th database call, \<open>clk n\<close> its \<open>n\<close>-th
  reading of the clock, in microseconds.
\<close>

section \<open>Messages\<close>

record pb_entry =
  Id :: string
  Type :: string
  EncryptedData :: bytes
  EncryptedMeta :: bytes
  Version :: int64
  UpdatedAt :: int64

section \<open>Handlers\<close>

definition no_user :: error where
  "no_user = Status Unauthenticated ''user_id not found''"

text \<open>An empty bytes field is left out by proto3, so it arrives as nil and is stored as NULL.\<close>

definition entry_to_row :: "string \<Rightarrow> pb_entry \<Rightarrow> int \<Rightarrow> entry_row" where
  "entry_to_row userID e now =
     \<lparr>e_user = userID, e_entry = Id e, e_data = EncryptedData e,
      e_meta = (if EncryptedMeta e = [] then None else Some (EncryptedMeta e)),
      e_version = Version e, e_updated = now\<rparr>"

text \<open>One statement per entry, each committed on its own; the first error ends the loop.\<close>

fun push_loop :: "(nat \<Rightarrow> error option) \<Rightarrow> (nat \<Rightarrow> int) \<Rightarrow> nat \<Rightarrow> string \<Rightarrow> pb_entry list \<Rightarrow> pg \<Rightarrow> unit res \<times> pg" where
  "push_loop fl clk n userID [] db = (Ok (), db)"
| "push_loop fl clk n userID (e # es) db =
     (case sql_upsert_entry (fl n) db (entry_to_row userID e (clk n)) of
        Ok db' \<Rightarrow> push_loop fl clk (Suc n) userID es db'
      | Err err \<Rightarrow> (Err (Status Internal (''push entry '' @ Id e @ '': '' @ error_text err)), db)
      | Panic \<Rightarrow> (Panic, db)
      | Hang \<Rightarrow> (Hang, db))"

definition srv_Push ::
  "(nat \<Rightarrow> error option) \<Rightarrow> (nat \<Rightarrow> int) \<Rightarrow> string option \<Rightarrow> pb_entry list \<Rightarrow> pg \<Rightarrow> unit res \<times> pg" where
  "srv_Push fl clk ctx es db =
     (case ctx of
        None \<Rightarrow> (Err no_user, db)
      | Some userID \<Rightarrow> push_loop fl clk 0 userID es db)"

definition row_to_entry :: "entry_row \<Rightarrow> pb_entry" where
  "row_to_entry r =
     \<lparr>Id = e_entry r, Type = '''', EncryptedData = e_data r,
      EncryptedMeta = (case e_meta r of None \<Rightarrow> [] | Some m \<Rightarrow> m),
      Version = e_version r, UpdatedAt = word_of_int (e_updated r div 1000000)\<rparr>"

text \<open>\<open>fl 0\<close> is the query's failure, \<open>fl 1\<close> that of a \<open>Scan\<close>, \<open>fl 2\<close> what \<open>rows.Err()\<close> reports.\<close>

definition srv_Pull ::
  "(nat \<Rightarrow> error option) \<Rightarrow> string option \<Rightarrow> int64 \<Rightarrow> pg \<Rightarrow> pb_entry list res" where
  "srv_Pull fl ctx since db =
     (case ctx of
        None \<Rightarrow> Err no_user
      | Some userID \<Rightarrow>
          (case sql_select_since (fl 0) db userID since of
             Ok rows \<Rightarrow>
               (case (if rows = [] then None else fl 1) of
                  Some e \<Rightarrow> Err (Status Internal (''scan entry: '' @ error_text e))
                | None \<Rightarrow>
                    (case fl 2 of
                       Some e \<Rightarrow> Err (Status Internal (''iteration error: '' @ error_text e))
                     | None \<Rightarrow> Ok (map row_to_entry rows)))
           | Err e \<Rightarrow> Err (Status Internal (''pull entries: '' @ error_text e))
           | Panic \<Rightarrow> Panic
           | Hang \<Rightarrow> Hang))"

text \<open>The request's version is not used.\<close>

definition srv_Delete ::
  "(nat \<Rightarrow> error option) \<Rightarrow> string option \<Rightarrow> string \<Rightarrow> int64 \<Rightarrow> pg \<Rightarrow> unit res \<times> pg" where
  "srv_Delete fl ctx entryID version db =
     (case ctx of
        None \<Rightarrow> (Err no_user, db)
      | Some userID \<Rightarrow>
          (case sql_delete_entry (fl 0) db userID entryID of
             Ok (n, db') \<Rightarrow>
               if n = 0
               then (Err (Status FailedPrecondition ''entry version mismatch or not found''), db')
               else (Ok (), db')
           | Err e \<Rightarrow> (Err (Status Internal (''delete entry: '' @ error_text e)), db)
           | Panic \<Rightarrow> (Panic, db)
           | Hang \<Rightarrow> (Hang, db)))"

section \<open>Push: the newest version wins\<close>

text \<open>
  What a batch means for one key: the row that was there, then every row of the batch for
  that key in order, each taken only when its version is higher.
\<close>

fun absorb :: "entry_row option \<Rightarrow> entry_row list \<Rightarrow> entry_row option" where
  "absorb x [] = x"
| "absorb x (r # rs) = absorb (Some (case x of None \<Rightarrow> r | Some y \<Rightarrow> newer y r)) rs"

fun batch_rows :: "(nat \<Rightarrow> int) \<Rightarrow> nat \<Rightarrow> string \<Rightarrow> pb_entry list \<Rightarrow> entry_row list" where
  "batch_rows clk n u [] = []"
| "batch_rows clk n u (e # es) = entry_to_row u e (clk n) # batch_rows clk (Suc n) u es"

lemma entry_to_row_sel [simp]:
  "e_user (entry_to_row u e t) = u" "e_entry (entry_to_row u e t) = Id e"
  "e_version (entry_to_row u e t) = Version e" "e_data (entry_to_row u e t) = EncryptedData e"
  "row_key (entry_to_row u e t) = (u, Id e)"
  by (simp_all add: entry_to_row_def row_key_def)

lemma sql_upsert_cases:
  "sql_upsert_entry fl db r = Ok db' \<Longrightarrow>
     entries_tab db' = upsert_rows r (entries_tab db) \<and> users_tab db' = users_tab db \<and>
     tokens_tab db' = tokens_tab db"
  by (auto simp: sql_upsert_entry_def split: option.splits)

lemma push_loop_ok:
  "push_loop fl clk n u es db = (r, db') \<Longrightarrow> pg_ok db \<Longrightarrow> pg_ok db'"
  by (induction fl clk n u es db rule: push_loop.induct) (auto split: res.splits dest: sql_upsert_ok)

lemma push_loop_frame:
  "push_loop fl clk n u es db = (r, db') \<Longrightarrow>
     users_tab db' = users_tab db \<and> tokens_tab db' = tokens_tab db \<and>
     (\<forall>u' i. u' \<noteq> u \<longrightarrow> row_of (entries_tab db') u' i = row_of (entries_tab db) u' i)"
proof (induction fl clk n u es db rule: push_loop.induct)
  case (2 fl clk n u e es db)
  then show ?case
    by (auto split: res.splits dest!: sql_upsert_cases simp: row_of_upsert)
qed simp

lemma push_loop_prefix:
  assumes "push_loop fl clk n u es db = (r, db')"
  shows "\<exists>es1 es2. es = es1 @ es2 \<and> (r = Ok () \<longrightarrow> es2 = []) \<and>
    (\<forall>i. row_of (entries_tab db') u i =
       absorb (row_of (entries_tab db) u i)
         (filter (\<lambda>x. e_entry x = i) (batch_rows clk n u es1)))"
  using assms
proof (induction fl clk n u es db rule: push_loop.induct)
  case (1 fl clk n u db)
  then show ?case by simp
next
  case (2 fl clk n u e es db)
  let ?r = "entry_to_row u e (clk n)"
  show ?case
  proof (cases "sql_upsert_entry (fl n) db ?r")
    case (Ok db1)
    from "2.IH" [OF Ok] "2.prems" Ok obtain es1 es2 where es: "es = es1 @ es2" "r = Ok () \<longrightarrow> es2 = []"
      and rows: "\<And>i. row_of (entries_tab db') u i =
        absorb (row_of (entries_tab db1) u i) (filter (\<lambda>x. e_entry x = i) (batch_rows clk (Suc n) u es1))"
      by auto
    have "row_of (entries_tab db') u i =
        absorb (row_of (entries_tab db) u i) (filter (\<lambda>x. e_entry x = i) (batch_rows clk n u (e # es1)))" for i
      using rows [of i] sql_upsert_cases [OF Ok] by (simp add: row_of_upsert)
    with es show ?thesis by (intro exI [of _ "e # es1"] exI [of _ es2]) simp
  qed (use "2.prems" in \<open>auto intro: exI [of _ "[]"]\<close>)
qed

lemma absorb_version:
  "absorb (Some x) rs = Some y \<Longrightarrow>
     sint (e_version y) = Max (insert (sint (e_version x)) ((\<lambda>r. sint (e_version r)) ` set rs))"
proof (induction rs arbitrary: x)
  case (Cons r rs)
  let ?v = "\<lambda>r. sint (e_version r)"
  have "?v (newer x r) = max (?v x) (?v r)" by (simp add: newer_def)
  then have "sint (e_version y) = Max (insert (max (?v x) (?v r)) (?v ` set rs))"
    using Cons by simp
  also have "\<dots> = Max (insert (?v x) (insert (?v r) (?v ` set rs)))"
    by (cases "rs = []") (simp_all add: max.assoc)
  finally show ?case by simp
qed simp

lemma absorb_member: "absorb (Some x) rs = Some y \<Longrightarrow> y \<in> insert x (set rs)"
proof (induction rs arbitrary: x)
  case (Cons r rs)
  then have "y \<in> insert (newer x r) (set rs)" by simp
  then show ?case by (auto simp: newer_def split: if_splits)
qed simp

lemma absorb_not_None [simp]: "absorb (Some x) rs \<noteq> None"
  by (induction rs arbitrary: x) auto

text \<open>With all versions different the result does not depend on the order of arrival.\<close>

lemma absorb_unique:
  assumes "absorb None rs = Some y" and "inj_on e_version (set rs)" and "z \<in> set rs"
    and "\<And>r. r \<in> set rs \<Longrightarrow> sint (e_version r) \<le> sint (e_version z)"
  shows "y = z"
proof -
  obtain r rs' where rs: "rs = r # rs'" using assms(3) by (cases rs) auto
  then have y: "absorb (Some r) rs' = Some y" using assms(1) by simp
  let ?V = "(\<lambda>r. sint (e_version r)) ` set rs"
  have "sint (e_version y) = Max ?V" using absorb_version [OF y] rs by simp
  also have "\<dots> = sint (e_version z)"
    using assms(3,4) by (intro Max_eqI) auto
  finally have "e_version y = e_version z" by (simp add: signed_word_eqI)
  moreover have "y \<in> set rs" using absorb_member [OF y] rs by simp
  ultimately show ?thesis using assms(2,3) by (auto dest: inj_onD)
qed

section \<open>Properties\<close>


text \<open>
  C16. A push never lowers a version, whatever its outcome: the row an id had is still there
  with at least its version.
\<close>

theorem Push_monotone:
  assumes "srv_Push fl clk (Some u) es db = (r, db')" and "row_of (entries_tab db) u i = Some x"
  shows "\<exists>y. row_of (entries_tab db') u i = Some y \<and> sint (e_version x) \<le> sint (e_version y)"
proof -
  have run: "push_loop fl clk 0 u es db = (r, db')" using assms(1) by (simp add: srv_Push_def)
  obtain es1 where row: "row_of (entries_tab db') u i =
       absorb (Some x) (filter (\<lambda>r. e_entry r = i) (batch_rows clk 0 u es1))"
    using push_loop_prefix [OF run] assms(2) by auto
  then obtain y where y: "row_of (entries_tab db') u i = Some y"
    using absorb_not_None [of x] by (metis not_None_eq)
  then have "sint (e_version y) = Max (insert (sint (e_version x))
      ((\<lambda>r. sint (e_version r)) ` set (filter (\<lambda>r. e_entry r = i) (batch_rows clk 0 u es1))))"
    using absorb_version row by metis
  then show ?thesis using y by simp
qed

text \<open>
  The order of the entries in a batch does not matter to a new id, as long as its versions
  differ: two batches with the same rows leave the same one, the highest version.
\<close>

theorem Push_order_independent:
  assumes "srv_Push fl clk (Some u) es db = (Ok (), db')" and "srv_Push fl' clk' (Some u) es' db = (Ok (), db'')"
    and "row_of (entries_tab db) u i = None"
    and same: "set (filter (\<lambda>r. e_entry r = i) (batch_rows clk 0 u es)) =
      set (filter (\<lambda>r. e_entry r = i) (batch_rows clk' 0 u es'))"
    and "inj_on e_version (set (filter (\<lambda>r. e_entry r = i) (batch_rows clk 0 u es)))"
  shows "row_of (entries_tab db') u i = row_of (entries_tab db'') u i"
proof -
  let ?R = "filter (\<lambda>r. e_entry r = i) (batch_rows clk 0 u es)"
  let ?R' = "filter (\<lambda>r. e_entry r = i) (batch_rows clk' 0 u es')"
  have run: "push_loop fl clk 0 u es db = (Ok (), db')" "push_loop fl' clk' 0 u es' db = (Ok (), db'')"
    using assms(1,2) by (simp_all add: srv_Push_def)
  have rows: "row_of (entries_tab db') u i = absorb None ?R" "row_of (entries_tab db'') u i = absorb None ?R'"
    using push_loop_prefix [OF run(1)] push_loop_prefix [OF run(2)] assms(3) by auto
  show ?thesis
  proof (cases "?R = []")
    case True
    then have "set ?R' = {}" using same by simp
    then have "?R' = []" by (simp only: set_empty)
    then show ?thesis using rows True by simp
  next
    case False
    then have ne: "set ?R \<noteq> {}" by (simp only: set_empty not_False_eq_True)
    obtain z where z: "z \<in> set ?R" "\<And>r. r \<in> set ?R \<Longrightarrow> sint (e_version r) \<le> sint (e_version z)"
    proof -
      have "Max ((\<lambda>r. sint (e_version r)) ` set ?R) \<in> (\<lambda>r. sint (e_version r)) ` set ?R"
        using ne by (intro Max_in) auto
      then obtain z where "z \<in> set ?R" "sint (e_version z) = Max ((\<lambda>r. sint (e_version r)) ` set ?R)" by auto
      then show thesis using that [of z] by simp
    qed
    have absorb_Some: "\<exists>y. absorb None rs = Some y" if "rs \<noteq> []" for rs
      using that absorb_not_None not_None_eq by (cases rs) (auto simp del: not_None_eq simp: not_None_eq [symmetric])
    obtain y where y: "absorb None ?R = Some y" using absorb_Some [OF False] by blast
    have "?R' \<noteq> []" using ne same by force
    then obtain y' where y': "absorb None ?R' = Some y'" using absorb_Some by blast
    have "y = z" using absorb_unique [OF y assms(5) z] .
    moreover have "y' = z" using absorb_unique [OF y' assms(5) [unfolded same] z [unfolded same]] .
    ultimately show ?thesis using rows y y' by simp
  qed
qed

text \<open>
  \<open>Pull\<close> answers the user's rows above the given version and no others, each once, in the
  order of their versions.
\<close>

theorem Pull_exact:
  assumes "srv_Pull fl (Some u) since db = Ok es"
  shows "mset es = image_mset row_to_entry
      (mset (filter (\<lambda>r. e_user r = u \<and> sint since < sint (e_version r)) (entries_tab db))) \<and>
    sorted (map (\<lambda>e. sint (Version e)) es)"
proof -
  let ?rows = "filter (\<lambda>r. e_user r = u \<and> sint since < sint (e_version r)) (entries_tab db)"
  have "es = map row_to_entry (sort_key (\<lambda>r. sint (e_version r)) ?rows)"
    using assms by (auto simp: srv_Pull_def sql_select_since_def split: option.splits if_splits)
  moreover have "(\<lambda>e. sint (Version e)) \<circ> row_to_entry = (\<lambda>r. sint (e_version r))"
    by (simp add: row_to_entry_def fun_eq_iff)
  ultimately show ?thesis by simp
qed

text \<open>
  \<open>Delete\<close> removes the user's row and nothing else; without such a row it is an error and
  nothing changes.  The version in the request makes no difference.
\<close>

theorem Delete_exact:
  assumes "srv_Delete (\<lambda>_. None) (Some u) i v db = (r, db')"
  shows "(r = Ok () \<longleftrightarrow> row_of (entries_tab db) u i \<noteq> None) \<and>
    row_of (entries_tab db') u' j = (if (u', j) = (u, i) then None else row_of (entries_tab db) u' j) \<and>
    (\<forall>w. srv_Delete (\<lambda>_. None) (Some u) i w db = (r, db'))"
proof -
  have "length (filter (\<lambda>r. row_key r = (u, i)) rows) = 0 \<longleftrightarrow> row_of rows u i = None" for rows
    by (auto simp: row_of_def find_None_iff filter_empty_conv)
  moreover have "row_of (entries_tab db') u' j = (if (u', j) = (u, i) then None else row_of (entries_tab db) u' j)"
    using assms by (auto simp: srv_Delete_def sql_delete_entry_def row_of_filter split: if_splits)
  ultimately show ?thesis using assms by (auto simp: srv_Delete_def sql_delete_entry_def split: if_splits)
qed

section \<open>Witnesses\<close>

text \<open>A database with one user, and two entries to push.\<close>

definition ref_pg :: pg where
  "ref_pg = empty_pg\<lparr>users_tab := [\<lparr>u_id = ''u'', u_login = ''l'', u_secret = [1], u_salt = [2]\<rparr>]\<rparr>"

definition ref_entry :: "int64 \<Rightarrow> byte \<Rightarrow> pb_entry" where
  "ref_entry v x = \<lparr>Id = ''i'', Type = ''text'', EncryptedData = [x], EncryptedMeta = [], Version = v, UpdatedAt = 0\<rparr>"

definition ref_row :: "int64 \<Rightarrow> byte \<Rightarrow> entry_row" where
  "ref_row v x = \<lparr>e_user = ''u'', e_entry = ''i'', e_data = [x], e_meta = None, e_version = v, e_updated = 5000000\<rparr>"

lemma ref_pg_ok: "pg_ok ref_pg"
  by (simp add: pg_ok_def ref_pg_def empty_pg_def)

lemma ref_entry_row: "entry_to_row ''u'' (ref_entry v x) 5000000 = ref_row v x"
  by (simp add: entry_to_row_def ref_entry_def ref_row_def)

lemma varchar_i [simp]: "varchar_ok 255 ''i''"
proof -
  have "utf8_valid ''i''" by (subst utf8_valid.simps) (simp add: cc_def)
  moreover have "length (filter (\<lambda>c. \<not> cont c) ''i'') \<le> 255"
    using length_filter_le [of "\<lambda>c. \<not> cont c" "''i''"] by simp
  ultimately show ?thesis by (simp add: varchar_ok_def ch_eq_iff cc_def)
qed

lemma ref_upsert:
  "sql_upsert_entry None (ref_pg\<lparr>entries_tab := rows\<rparr>) (ref_row v x) =
     Ok (ref_pg\<lparr>entries_tab := upsert_rows (ref_row v x) rows\<rparr>)"
  by (simp add: sql_upsert_entry_def insert_checks_def ref_row_def ref_pg_def empty_pg_def user_exists_def)

lemma ref_row_sel [simp]: "row_key (ref_row v x) = (''u'', ''i'')" "e_version (ref_row v x) = v" "e_entry (ref_row v x) = ''i''"
  by (simp_all add: ref_row_def row_key_def)

lemma ref_pg_entries: "ref_pg\<lparr>entries_tab := []\<rparr> = ref_pg" "entries_tab ref_pg = []"
  by (simp_all add: ref_pg_def empty_pg_def)

lemma ref_push:
  "srv_Push (\<lambda>_. None) (\<lambda>_. 5000000) (Some ''u'') [ref_entry 2 1, ref_entry 1 9] ref_pg =
     (Ok (), ref_pg\<lparr>entries_tab := [ref_row 2 1]\<rparr>)"
  "srv_Push (\<lambda>_. None) (\<lambda>_. 5000000) (Some ''u'') [ref_entry 1 9, ref_entry 2 1] ref_pg =
     (Ok (), ref_pg\<lparr>entries_tab := [ref_row 2 1]\<rparr>)"
  using ref_upsert [of "[]"] ref_upsert [of "[ref_row 2 1]"] ref_upsert [of "[ref_row 1 9]"] ref_pg_entries
  by (simp_all add: srv_Push_def ref_entry_row newer_def)


theorem Push_monotone_witness:
  "\<exists>y. row_of [ref_row 2 1] ''u'' ''i'' = Some y \<and> 2 \<le> sint (e_version y)"
proof -
  have "srv_Push (\<lambda>_. None) (\<lambda>_. 5000000) (Some ''u'') [ref_entry 1 9] (ref_pg\<lparr>entries_tab := [ref_row 2 1]\<rparr>) =
      (Ok (), ref_pg\<lparr>entries_tab := [ref_row 2 1]\<rparr>)"
    using ref_upsert [of "[ref_row 2 1]"] by (simp add: srv_Push_def ref_entry_row newer_def)
  from Push_monotone [OF this, of "''i''" "ref_row 2 1"] show ?thesis by (simp add: row_of_def)
qed

theorem Push_order_independent_witness:
  "row_of (entries_tab (snd (srv_Push (\<lambda>_. None) (\<lambda>_. 5000000) (Some ''u'') [ref_entry 2 1, ref_entry 1 9] ref_pg))) ''u'' ''i'' =
   row_of (entries_tab (snd (srv_Push (\<lambda>_. None) (\<lambda>_. 5000000) (Some ''u'') [ref_entry 1 9, ref_entry 2 1] ref_pg))) ''u'' ''i''"
proof -
  have "inj_on e_version {ref_row 2 1, ref_row 1 9}" by (auto simp: inj_on_def)
  then show ?thesis
    using Push_order_independent [OF ref_push, of "''i''"] ref_push
    by (simp add: ref_entry_row ref_pg_entries row_of_def insert_commute)
qed

theorem Pull_exact_witness:
  "\<exists>es. srv_Pull (\<lambda>_. None) (Some ''u'') 1 (ref_pg\<lparr>entries_tab := [ref_row 2 1]\<rparr>) = Ok es \<and>
     mset es = {# row_to_entry (ref_row 2 1) #}"
proof -
  have "e_user (ref_row 2 1) = ''u''" by (simp add: ref_row_def)
  then have "srv_Pull (\<lambda>_. None) (Some ''u'') 1 (ref_pg\<lparr>entries_tab := [ref_row 2 1]\<rparr>) = Ok [row_to_entry (ref_row 2 1)]"
    by (simp add: srv_Pull_def sql_select_since_def)
  from Pull_exact [OF this] this show ?thesis by blast
qed

theorem Delete_exact_witness:
  "fst (srv_Delete (\<lambda>_. None) (Some ''u'') ''i'' 7 (ref_pg\<lparr>entries_tab := [ref_row 2 1]\<rparr>)) = Ok ()"
  using Delete_exact [of "''u''" "''i''" 7 "ref_pg\<lparr>entries_tab := [ref_row 2 1]\<rparr>", OF prod.collapse [symmetric]]
  by (simp add: row_of_def)

end
