(* ===== verification/Interleave.thy ===== *)
theory Interleave
  imports SyncServer
begin

text \<open>
  Calls of the synchronisation service that run at the same time.  gRPC runs every call in a
  goroutine of its own and the handlers of \<open>internal/server/sync/sync.go\<close> hold no lock and no
  transaction: what is atomic is one statement.  So a call under way is what it has left to do,
  and a step of the server is the next statement of any of them.
\<close>

section \<open>Calls under way\<close>

text \<open>
  \<open>Pushing fl clk n u es\<close> is a \<open>Push\<close> of user \<open>u\<close> that has done \<open>n\<close> statements and has \<open>es\<close> left,
  \<open>Deleting\<close> a \<open>Delete\<close> before its only statement.
\<close>

datatype call =
    Pushing "nat \<Rightarrow> error option" "nat \<Rightarrow> int" nat string "pb_entry list"
  | Deleting "nat \<Rightarrow> error option" string string int64
  | Answered "unit res"

fun call_step :: "call \<Rightarrow> pg \<Rightarrow> call \<times> pg" where
  "call_step (Pushing fl clk n u []) db = (Answered (Ok ()), db)"
| "call_step (Pushing fl clk n u (e # es)) db =
     (case sql_upsert_entry (fl n) db (entry_to_row u e (clk n)) of
        Ok db' \<Rightarrow> (Pushing fl clk (Suc n) u es, db')
      | Err err \<Rightarrow> (Answered (Err (Status Internal (''push entry '' @ Id e @ '': '' @ error_text err))), db)
      | Panic \<Rightarrow> (Answered Panic, db)
      | Hang \<Rightarrow> (Answered Hang, db))"
| "call_step (Deleting fl u i v) db =
     (case srv_Delete fl (Some u) i v db of (r, db') \<Rightarrow> (Answered r, db'))"
| "call_step (Answered r) db = (Answered r, db)"

fun answered :: "call \<Rightarrow> bool" where
  "answered (Answered r) = True"
| "answered _ = False"

inductive conc_step :: "call list \<times> pg \<Rightarrow> call list \<times> pg \<Rightarrow> bool" where
  Next: "k < length cs \<Longrightarrow> \<not> answered (cs ! k) \<Longrightarrow> call_step (cs ! k) db = (c, db') \<Longrightarrow>
    conc_step (cs, db) (cs[k := c], db')"

lemma conc_stepE:
  assumes "conc_step (cs, db) (cs', db')"
  obtains xs c c' ys where "cs = xs @ c # ys" "cs' = xs @ c' # ys" "\<not> answered c" "call_step c db = (c', db')"
  using assms by cases (metis id_take_nth_drop upd_conv_take_nth_drop)

text \<open>The pushes of several devices, as they arrive, and the same pushes one after the other.\<close>

record push =
  ps_fl :: "nat \<Rightarrow> error option"
  ps_clk :: "nat \<Rightarrow> int"
  ps_user :: string
  ps_entries :: "pb_entry list"

definition arrive :: "push \<Rightarrow> call" where
  "arrive p = Pushing (ps_fl p) (ps_clk p) 0 (ps_user p) (ps_entries p)"

fun in_turn :: "push list \<Rightarrow> pg \<Rightarrow> unit res \<times> pg" where
  "in_turn [] db = (Ok (), db)"
| "in_turn (p # ps) db =
     and_then (srv_Push (ps_fl p) (ps_clk p) (Some (ps_user p)) (ps_entries p) db) (\<lambda>_. in_turn ps)"

section \<open>A call on its own\<close>

lemma one_call:
  "call_step c db = (c', db') \<Longrightarrow> \<not> answered c \<Longrightarrow> conc_step (xs @ c # ys, db) (xs @ c' # ys, db')"
  using Next [of "length xs" "xs @ c # ys" db c' db'] by simp

lemma alone_push:
  "push_loop fl clk n u es db = (r, db') \<Longrightarrow>
     conc_step\<^sup>*\<^sup>* (xs @ Pushing fl clk n u es # ys, db) (xs @ Answered r # ys, db')"
proof (induction fl clk n u es db arbitrary: r db' rule: push_loop.induct)
  case (1 fl clk n u db)
  then show ?case by (auto intro!: r_into_rtranclp one_call)
next
  case (2 fl clk n u e es db)
  show ?case
  proof (cases "sql_upsert_entry (fl n) db (entry_to_row u e (clk n))")
    case (Ok db1)
    have "conc_step (xs @ Pushing fl clk n u (e # es) # ys, db) (xs @ Pushing fl clk (Suc n) u es # ys, db1)"
      using Ok by (intro one_call) simp_all
    moreover have "push_loop fl clk (Suc n) u es db1 = (r, db')" using 2(2) Ok by simp
    ultimately show ?thesis using 2(1) [OF Ok] by (blast intro: converse_rtranclp_into_rtranclp)
  qed (use 2(2) in \<open>auto intro!: r_into_rtranclp one_call\<close>)
qed

text \<open>The pushes one after the other are one of the schedules.\<close>

lemma in_turn_schedule:
  assumes "in_turn ps db = (Ok (), db')"
  shows "conc_step\<^sup>*\<^sup>* (xs @ map arrive ps, db) (xs @ map (\<lambda>_. Answered (Ok ())) ps, db')"
  using assms
proof (induction ps arbitrary: db xs)
  case (Cons p ps)
  obtain r db1 where p: "srv_Push (ps_fl p) (ps_clk p) (Some (ps_user p)) (ps_entries p) db = (r, db1)" by fastforce
  then have r: "r = Ok ()" and rest: "in_turn ps db1 = (Ok (), db')" using Cons.prems by (cases r; simp)+
  have "conc_step\<^sup>*\<^sup>* (xs @ map arrive (p # ps), db) (xs @ Answered (Ok ()) # map arrive ps, db1)"
    using p r by (simp add: srv_Push_def arrive_def alone_push)
  also have "conc_step\<^sup>*\<^sup>* \<dots> (xs @ map (\<lambda>_. Answered (Ok ())) (p # ps), db')"
    using Cons.IH [OF rest, of "xs @ [Answered (Ok ())]"] by simp
  finally show ?case .
qed simp

section \<open>Every schedule ends\<close>

fun statements_left :: "call \<Rightarrow> nat" where
  "statements_left (Pushing fl clk n u es) = Suc (length es)"
| "statements_left (Deleting fl u i v) = 1"
| "statements_left (Answered r) = 0"

definition work :: "call list \<Rightarrow> nat" where
  "work cs = sum_list (map statements_left cs)"

lemma call_step_work:
  "\<not> answered c \<Longrightarrow> call_step c db = (c', db') \<Longrightarrow> statements_left c' < statements_left c"
  by (induction c db rule: call_step.induct) (auto split: res.splits prod.splits)

lemma conc_step_work: "conc_step (cs, db) (cs', db') \<Longrightarrow> work cs' < work cs"
  by (elim conc_stepE) (simp add: work_def call_step_work)

text \<open>
  A run of the server over calls under way takes at most as many steps as they have statements,
  and it can go on until every call is answered.
\<close>

lemma schedule_bound: "(conc_step ^^ n) (cs, db) (cs', db') \<Longrightarrow> n + work cs' \<le> work cs"
proof (induction n arbitrary: cs' db')
  case (Suc n)
  then obtain cs1 db1 where "(conc_step ^^ n) (cs, db) (cs1, db1)" "conc_step (cs1, db1) (cs', db')"
    by auto
  then show ?case using Suc.IH conc_step_work by fastforce
qed simp

lemma schedule_goes_on: "(\<exists>s. conc_step (cs, db) s) \<longleftrightarrow> (\<exists>c \<in> set cs. \<not> answered c)"
proof
  show "\<exists>s. conc_step (cs, db) s \<Longrightarrow> \<exists>c \<in> set cs. \<not> answered c" by (auto elim: conc_stepE)
  show "\<exists>c \<in> set cs. \<not> answered c \<Longrightarrow> \<exists>s. conc_step (cs, db) s"
    by (metis Next in_set_conv_nth surj_pair)
qed

section \<open>What the pushes under way will leave\<close>

text \<open>
  The rows that are stored under a key or still to be sent to it.  A step makes none up and loses
  none but for one at least as new.
\<close>

fun to_send :: "call \<Rightarrow> entry_row set" where
  "to_send (Pushing fl clk n u es) = set (batch_rows clk n u es)"
| "to_send _ = {}"

definition pool :: "string \<Rightarrow> string \<Rightarrow> call list \<Rightarrow> pg \<Rightarrow> entry_row set" where
  "pool u i cs db =
     set_option (row_of (entries_tab db) u i) \<union> {r \<in> \<Union> (to_send ` set cs). row_key r = (u, i)}"

fun failed :: "call \<Rightarrow> bool" where
  "failed (Answered r) \<longleftrightarrow> r \<noteq> Ok ()"
| "failed _ \<longleftrightarrow> False"

fun deletes :: "string \<Rightarrow> string \<Rightarrow> call \<Rightarrow> bool" where
  "deletes u i (Deleting fl u' i' v) \<longleftrightarrow> (u', i') = (u, i)"
| "deletes u i _ \<longleftrightarrow> False"

lemma srv_Delete_row_of:
  "srv_Delete fl (Some u') i' v db = (r, db') \<Longrightarrow> (u', i') \<noteq> (u, i) \<Longrightarrow>
     row_of (entries_tab db') u i = row_of (entries_tab db) u i"
  by (auto simp: srv_Delete_def sql_delete_entry_def row_of_filter split: option.splits if_splits)

lemma call_step_pool:
  assumes "call_step c db = (c', db')" and "\<not> failed c'" and "\<not> deletes u i c"
  shows "pool u i [c'] db' \<subseteq> pool u i [c] db \<and>
    (\<forall>r \<in> pool u i [c] db. \<exists>r' \<in> pool u i [c'] db'. sint (e_version r) \<le> sint (e_version r'))"
  using assms
proof (cases c)
  case (Pushing fl clk n u' es)
  then show ?thesis
  proof (cases es)
    case (Cons e es')
    let ?r = "entry_to_row u' e (clk n)"
    obtain db1 where up: "sql_upsert_entry (fl n) db ?r = Ok db1"
      using assms Pushing Cons by (auto split: res.splits)
    then have "c' = Pushing fl clk (Suc n) u' es'" "db' = db1" using assms(1) Pushing Cons by auto
    then show ?thesis
      using Pushing Cons sql_upsert_cases [OF up]
      by (auto simp: pool_def row_of_upsert newer_def split: option.splits if_splits)
  qed (use assms in \<open>auto simp: pool_def\<close>)
next
  case (Deleting fl u' i' v)
  then show ?thesis using assms by (auto simp: pool_def srv_Delete_row_of split: prod.splits)
qed (auto simp: pool_def)

lemma pool_split:
  "pool u i (xs @ c # ys) db =
     pool u i [c] db \<union> {r \<in> \<Union> (to_send ` set (xs @ ys)). row_key r = (u, i)}"
  by (auto simp: pool_def)

lemma srv_Delete_users: "srv_Delete fl ctx i v db = (r, db') \<Longrightarrow> users_tab db' = users_tab db"
  by (auto simp: srv_Delete_def sql_delete_entry_def split: option.splits if_splits)

lemma call_step_keeps:
  assumes "call_step c db = (c', db')"
  shows "users_tab db' = users_tab db" and "deletes u i c' \<Longrightarrow> deletes u i c"
  using assms sql_upsert_cases srv_Delete_users
  by (induction c db rule: call_step.induct) (fastforce split: res.splits prod.splits)+

lemma failed_stays:
  "conc_step\<^sup>*\<^sup>* (cs, db) (cs', db') \<Longrightarrow> c \<in> set cs \<Longrightarrow> failed c \<Longrightarrow> c \<in> set cs'"
proof (induction "(cs', db')" arbitrary: cs' db' rule: rtranclp_induct)
  case (step s)
  obtain cs1 db1 where s: "s = (cs1, db1)" by fastforce
  have "answered c" using step.prems(2) by (cases c) auto
  with step s show ?case by (auto elim!: conc_stepE)
qed

lemma schedule_pool:
  assumes "conc_step\<^sup>*\<^sup>* (cs, db) (cs', db')" and "\<forall>c \<in> set cs'. \<not> failed c" and "\<forall>c \<in> set cs. \<not> deletes u i c"
  shows "pool u i cs' db' \<subseteq> pool u i cs db \<and>
    (\<forall>r \<in> pool u i cs db. \<exists>r' \<in> pool u i cs' db'. sint (e_version r) \<le> sint (e_version r'))"
  using assms(1,3)
proof (induction "(cs, db)" arbitrary: cs db rule: converse_rtranclp_induct)
  case (step s)
  obtain cs1 db1 where s: "s = (cs1, db1)" by fastforce
  obtain xs c c' ys where c: "cs = xs @ c # ys" "cs1 = xs @ c' # ys" "call_step c db = (c', db1)"
    using step.hyps(1) unfolding s by (elim conc_stepE)
  have "\<not> failed c'"
    using failed_stays [OF step.hyps(2) [unfolded s], of c'] c(2) assms(2) by auto
  then have one: "pool u i [c'] db1 \<subseteq> pool u i [c] db"
    "\<forall>r \<in> pool u i [c] db. \<exists>r' \<in> pool u i [c'] db1. sint (e_version r) \<le> sint (e_version r')"
    using call_step_pool [OF c(3)] step.prems c(1) by auto
  have "\<forall>c \<in> set cs1. \<not> deletes u i c"
    using step.prems c call_step_keeps(2) [OF c(3)] by auto
  note IH = step.hyps(3) [OF s this]
  have "pool u i cs1 db1 \<subseteq> pool u i cs db"
    using one(1) unfolding c(1,2) pool_split by blast
  moreover have "\<exists>r' \<in> pool u i cs1 db1. sint (e_version r) \<le> sint (e_version r')" if "r \<in> pool u i cs db" for r
    using that one(2) unfolding c(1,2) pool_split by blast
  ultimately show ?case using IH by (meson order_trans subset_trans)
qed blast

section \<open>What the server takes alone it takes in company\<close>

function accepted :: "call \<Rightarrow> pg \<Rightarrow> bool" where
  "accepted (Pushing fl clk n u []) db \<longleftrightarrow> True"
| "accepted (Pushing fl clk n u (e # es)) db \<longleftrightarrow>
     fl n = None \<and> insert_checks db (entry_to_row u e (clk n)) = None \<and> accepted (Pushing fl clk (Suc n) u es) db"
| "accepted (Deleting fl u i v) db \<longleftrightarrow> True"
| "accepted (Answered r) db \<longleftrightarrow> True"
  by pat_completeness auto
termination by (relation "measure (\<lambda>(c, db). statements_left c)") auto

lemma accepted_users: "users_tab db' = users_tab db \<Longrightarrow> accepted c db' = accepted c db"
  by (induction c db rule: accepted.induct) (simp_all add: insert_checks_def user_exists_def)

lemma call_step_accepted:
  assumes "call_step c db = (c', db')" and "\<not> failed c'" and "accepted c' db'"
  shows "accepted c db"
  using assms
proof (induction c db rule: call_step.induct)
  case (2 fl clk n u e es db)
  then obtain db1 where up: "sql_upsert_entry (fl n) db (entry_to_row u e (clk n)) = Ok db1"
    by (auto split: res.splits)
  then show ?case
    using 2 accepted_users [OF conjunct1 [OF conjunct2 [OF sql_upsert_cases [OF up]]]]
    by (auto simp: sql_upsert_entry_def split: option.splits)
qed auto

lemma schedule_accepted:
  assumes "conc_step\<^sup>*\<^sup>* (cs, db) (cs', db')" and "\<forall>c \<in> set cs'. answered c \<and> \<not> failed c"
  shows "\<forall>c \<in> set cs. accepted c db"
  using assms(1)
proof (induction "(cs, db)" arbitrary: cs db rule: converse_rtranclp_induct)
  case base
  have "answered c \<Longrightarrow> accepted c db'" for c by (cases c) auto
  then show ?case using assms(2) by blast
next
  case (step s)
  obtain cs1 db1 where s: "s = (cs1, db1)" by fastforce
  obtain xs c c' ys where c: "cs = xs @ c # ys" "cs1 = xs @ c' # ys" "call_step c db = (c', db1)"
    using step.hyps(1) unfolding s by (elim conc_stepE)
  have "\<not> failed c'"
    using failed_stays [OF step.hyps(2) [unfolded s], of c'] c(2) assms(2) by auto
  moreover have "\<forall>c \<in> set cs1. accepted c db1" by (rule step.hyps(3) [OF s])
  ultimately show ?case
    using c call_step_accepted [OF c(3)] accepted_users [OF call_step_keeps(1) [OF c(3)]] by auto
qed

lemma push_accepted:
  "accepted (Pushing fl clk n u es) db \<Longrightarrow> \<exists>db'. push_loop fl clk n u es db = (Ok (), db') \<and> users_tab db' = users_tab db"
proof (induction fl clk n u es db rule: push_loop.induct)
  case (2 fl clk n u e es db)
  let ?r = "entry_to_row u e (clk n)"
  define db1 where "db1 = db\<lparr>entries_tab := upsert_rows ?r (entries_tab db)\<rparr>"
  have up: "sql_upsert_entry (fl n) db ?r = Ok db1" and us: "users_tab db1 = users_tab db"
    using 2(2) by (simp_all add: sql_upsert_entry_def db1_def)
  have "accepted (Pushing fl clk (Suc n) u es) db1" using 2(2) accepted_users [OF us] by simp
  from 2(1) [OF up this] show ?case using up us by simp
qed simp

lemma in_turn_accepted:
  "\<forall>p \<in> set ps. accepted (arrive p) db \<Longrightarrow> \<exists>db'. in_turn ps db = (Ok (), db')"
proof (induction ps arbitrary: db)
  case (Cons p ps)
  obtain db1 where 1: "push_loop (ps_fl p) (ps_clk p) 0 (ps_user p) (ps_entries p) db = (Ok (), db1)"
    and us: "users_tab db1 = users_tab db"
    using push_accepted Cons.prems unfolding arrive_def by (metis list.set_intros(1))
  have "\<forall>p \<in> set ps. accepted (arrive p) db1" using Cons.prems accepted_users [OF us] by simp
  from Cons.IH [OF this] show ?case using 1 by (simp add: srv_Push_def)
qed simp

section \<open>Properties\<close>

text \<open>
  C17. Pushes that run at the same time and all succeed leave what the same pushes leave one after
  the other, which succeed too: every id has the same version, and the same row when the versions
  sent to it differ from each other and from the stored one.\<close>

theorem concurrent_is_sequential:
  assumes "conc_step\<^sup>*\<^sup>* (map arrive ps, db) (cs, db')" and "set cs \<subseteq> {Answered (Ok ())}"
  shows "\<exists>db''. in_turn ps db = (Ok (), db'') \<and>
    map_option e_version (row_of (entries_tab db') u i) = map_option e_version (row_of (entries_tab db'') u i) \<and>
    (inj_on e_version (pool u i (map arrive ps) db) \<longrightarrow>
       row_of (entries_tab db') u i = row_of (entries_tab db'') u i)"
proof -
  let ?P = "pool u i (map arrive ps) db" and ?V = "\<lambda>r. sint (e_version r)"
  have "\<forall>c \<in> set (map arrive ps). accepted c db"
    by (rule schedule_accepted [OF assms(1)]) (use assms(2) in auto)
  then obtain db'' where turn: "in_turn ps db = (Ok (), db'')" using in_turn_accepted [of ps db] by auto
  have nd: "\<forall>c \<in> set (map arrive ps). \<not> deletes u i c" by (simp add: arrive_def)
  have last: "pool u i cs1 db1 = set_option (row_of (entries_tab db1) u i)" if "set cs1 \<subseteq> {Answered (Ok ())}" for cs1 db1
    using that by (fastforce simp: pool_def)
  obtain x y where xy: "row_of (entries_tab db') u i = x" "row_of (entries_tab db'') u i = y" by blast
  have x: "set_option x \<subseteq> ?P" "\<forall>r \<in> ?P. \<exists>r' \<in> set_option x. ?V r \<le> ?V r'"
    using schedule_pool [OF assms(1) _ nd] assms(2) last [OF assms(2), of db'] xy(1) by fastforce+
  have y: "set_option y \<subseteq> ?P" "\<forall>r \<in> ?P. \<exists>r' \<in> set_option y. ?V r \<le> ?V r'"
    using schedule_pool [OF in_turn_schedule [OF turn, of "[]", simplified] _ nd]
      last [of "map (\<lambda>_. Answered (Ok ())) ps" db''] xy(2) by fastforce+
  have v: "e_version a = e_version b" if "x = Some a" "y = Some b" for a b
  proof -
    have "sint (e_version a) = sint (e_version b)" using x y that by (intro order_antisym) simp_all
    then show ?thesis by (simp add: signed_word_eqI)
  qed
  have n: "x = None \<longleftrightarrow> ?P = {}" "y = None \<longleftrightarrow> ?P = {}"
    using x y by (cases x; cases y; fastforce)+
  have "map_option e_version x = map_option e_version y"
  proof (cases x)
    case (Some a)
    then obtain b where "y = Some b" using n by (cases y) simp_all
    then show ?thesis using Some v by simp
  qed (use n in simp)
  moreover have "x = y" if inj: "inj_on e_version ?P"
  proof -
    have "a = b" if "x = Some a" "y = Some b" for a b
      using inj_onD [OF inj v [OF that]] x(1) y(1) that by simp
    then show ?thesis using n by (metis not_None_eq)
  qed
  ultimately show ?thesis unfolding xy by (intro exI [of _ db'']) (simp add: turn xy)
qed

section \<open>Witness\<close>

text \<open>Two devices push the same id; the second one's statement overtakes the first one's.\<close>

definition ref_push_of :: "pb_entry \<Rightarrow> push" where
  "ref_push_of e = \<lparr>ps_fl = (\<lambda>_. None), ps_clk = (\<lambda>_. 5000000), ps_user = ''u'', ps_entries = [e]\<rparr>"

lemma ref_overtakes:
  "conc_step\<^sup>*\<^sup>* (map arrive [ref_push_of (ref_entry 2 1), ref_push_of (ref_entry 1 9)], ref_pg)
     ([Answered (Ok ()), Answered (Ok ())], ref_pg\<lparr>entries_tab := [ref_row 2 1]\<rparr>)"
proof -
  let ?left = "Pushing (\<lambda>_. None) (\<lambda>_. 5000000) 1 ''u'' []"
  let ?a = "arrive (ref_push_of (ref_entry 2 1))" and ?b = "arrive (ref_push_of (ref_entry 1 9))"
  have "conc_step\<^sup>*\<^sup>* ([?a, ?b], ref_pg) ([?a, ?left], ref_pg\<lparr>entries_tab := [ref_row 1 9]\<rparr>)"
    using ref_upsert [of "[]" 1 9] one_call [of ?b ref_pg ?left _ "[?a]" "[]"]
    by (simp add: arrive_def ref_push_of_def ref_entry_row ref_pg_entries)
  also have "conc_step \<dots> ([?left, ?left], ref_pg\<lparr>entries_tab := [ref_row 2 1]\<rparr>)"
    using ref_upsert [of "[ref_row 1 9]" 2 1] one_call [of ?a "ref_pg\<lparr>entries_tab := [ref_row 1 9]\<rparr>" ?left _ "[]" "[?left]"]
    by (simp add: arrive_def ref_push_of_def ref_entry_row newer_def)
  also have "conc_step \<dots> ([Answered (Ok ()), ?left], ref_pg\<lparr>entries_tab := [ref_row 2 1]\<rparr>)"
    using one_call [of ?left _ "Answered (Ok ())" _ "[]" "[?left]"] by simp
  also have "conc_step \<dots> ([Answered (Ok ()), Answered (Ok ())], ref_pg\<lparr>entries_tab := [ref_row 2 1]\<rparr>)"
    using one_call [of ?left _ "Answered (Ok ())" _ "[Answered (Ok ())]" "[]"] by simp
  finally show ?thesis by simp
qed

theorem concurrent_is_sequential_witness:
  "\<exists>db''. in_turn [ref_push_of (ref_entry 2 1), ref_push_of (ref_entry 1 9)] ref_pg = (Ok (), db'') \<and>
     row_of (entries_tab db'') ''u'' ''i'' = Some (ref_row 2 1)"
proof -
  have "pool ''u'' ''i'' (map arrive [ref_push_of (ref_entry 2 1), ref_push_of (ref_entry 1 9)]) ref_pg =
      {ref_row 2 1, ref_row 1 9}"
    by (auto simp: pool_def arrive_def ref_push_of_def ref_entry_row ref_pg_entries row_of_def)
  moreover have "inj_on e_version {ref_row 2 1, ref_row 1 9}" by (auto simp: inj_on_def)
  ultimately show ?thesis
    using concurrent_is_sequential [OF ref_overtakes, of "''u''" "''i''"] by (auto simp: row_of_def)
qed

end
