(* ===== verification/RateLimit.thy ===== *)
theory RateLimit
  imports Prelude
begin

text \<open>
  The rate limiter of \<open>internal/server/middleware/ratelimit.go\<close>.  Every method holds the mutex
  for its whole body; the clean-up goroutine takes it for one pass, so a pass is one step.
  Times are nanoseconds.  \<open>count\<close> is a Go \<open>int\<close>: it would take \<open>2 ^ 63\<close> attempts in one
  window to overflow it, so it is an unbounded integer here.
\<close>

section \<open>State and operations\<close>

record attempt =
  a_count :: int
  a_first :: int

record RateLimiter =
  attempts :: "string \<Rightarrow> attempt option"
  rl_max :: int
  rl_window :: int
  rl_stopped :: bool

text \<open>The goroutine \<open>NewRateLimiter\<close> starts makes a ticker, which panics on a window that is not positive.\<close>

definition NewRateLimiter :: "int \<Rightarrow> int \<Rightarrow> RateLimiter res" where
  "NewRateLimiter mx window =
     (if window \<le> 0 then Panic
      else Ok \<lparr>attempts = Map.empty, rl_max = mx, rl_window = window, rl_stopped = False\<rparr>)"

text \<open>One tick of \<open>cleanupLoop\<close>; after \<open>Stop\<close> the loop has returned.\<close>

definition cleanup :: "int \<Rightarrow> RateLimiter \<Rightarrow> RateLimiter" where
  "cleanup now rl =
     (if rl_stopped rl then rl
      else rl\<lparr>attempts := (\<lambda>k. case attempts rl k of
                                None \<Rightarrow> None
                              | Some a \<Rightarrow> if now - a_first a > rl_window rl then None else Some a)\<rparr>)"

text \<open>Closing a closed channel panics.\<close>

definition Stop :: "RateLimiter \<Rightarrow> RateLimiter res" where
  "Stop rl = (if rl_stopped rl then Panic else Ok (rl\<lparr>rl_stopped := True\<rparr>))"

definition Allow :: "int \<Rightarrow> string \<Rightarrow> RateLimiter \<Rightarrow> bool \<times> RateLimiter" where
  "Allow now k rl =
     (let live = (case attempts rl k of
                    None \<Rightarrow> None
                  | Some a \<Rightarrow> if now - a_first a > rl_window rl then None else Some a)
      in case live of
           None \<Rightarrow> (True, rl\<lparr>attempts := (attempts rl)(k \<mapsto> \<lparr>a_count = 1, a_first = now\<rparr>)\<rparr>)
         | Some a \<Rightarrow>
             (a_count a + 1 \<le> rl_max rl,
              rl\<lparr>attempts := (attempts rl)(k \<mapsto> a\<lparr>a_count := a_count a + 1\<rparr>)\<rparr>))"

section \<open>Runs\<close>

datatype rl_event = Try int string | Tick int

fun event_time :: "rl_event \<Rightarrow> int" where
  "event_time (Try t k) = t"
| "event_time (Tick t) = t"

fun rl_run :: "rl_event list \<Rightarrow> RateLimiter \<Rightarrow> bool list \<times> RateLimiter" where
  "rl_run [] rl = ([], rl)"
| "rl_run (Try t k # es) rl =
     (case Allow t k rl of (b, rl1) \<Rightarrow> (case rl_run es rl1 of (bs, rl2) \<Rightarrow> (b # bs, rl2)))"
| "rl_run (Tick t # es) rl = rl_run es (cleanup t rl)"

definition is_try :: "rl_event \<Rightarrow> bool" where
  "is_try e = (case e of Try _ _ \<Rightarrow> True | Tick _ \<Rightarrow> False)"

lemma is_try_simps [simp]: "is_try (Try t k)" "\<not> is_try (Tick t)"
  by (simp_all add: is_try_def)

text \<open>The entry of a key that still counts at a time.\<close>

definition live :: "int \<Rightarrow> RateLimiter \<Rightarrow> string \<Rightarrow> attempt option" where
  "live now rl k =
     (case attempts rl k of
        None \<Rightarrow> None
      | Some a \<Rightarrow> if now - a_first a > rl_window rl then None else Some a)"

lemma Allow_live:
  "Allow now k rl =
     (case live now rl k of
        None \<Rightarrow> (True, rl\<lparr>attempts := (attempts rl)(k \<mapsto> \<lparr>a_count = 1, a_first = now\<rparr>)\<rparr>)
      | Some a \<Rightarrow>
          (a_count a + 1 \<le> rl_max rl,
           rl\<lparr>attempts := (attempts rl)(k \<mapsto> a\<lparr>a_count := a_count a + 1\<rparr>)\<rparr>))"
  by (simp add: Allow_def live_def Let_def)

lemma Allow_config [simp]:
  "rl_max (snd (Allow t k rl)) = rl_max rl" "rl_window (snd (Allow t k rl)) = rl_window rl"
  "rl_stopped (snd (Allow t k rl)) = rl_stopped rl"
  by (simp_all add: Allow_live split: option.split)

lemma cleanup_config [simp]:
  "rl_max (cleanup t rl) = rl_max rl" "rl_window (cleanup t rl) = rl_window rl"
  "rl_stopped (cleanup t rl) = rl_stopped rl"
  by (simp_all add: cleanup_def)

lemma Allow_other_key: "k' \<noteq> k \<Longrightarrow> attempts (snd (Allow t k rl)) k' = attempts rl k'"
  by (simp add: Allow_live split: option.split)

section \<open>Clean-up is not observable\<close>

text \<open>Two limiters agree from a time on when they have the same settings and the same live entries.\<close>

definition rl_sim :: "int \<Rightarrow> RateLimiter \<Rightarrow> RateLimiter \<Rightarrow> bool" where
  "rl_sim t a b \<longleftrightarrow>
     rl_max a = rl_max b \<and> rl_window a = rl_window b \<and> (\<forall>k. live t a k = live t b k)"

lemma live_later: "t \<le> t' \<Longrightarrow> live t' rl k = (case live t rl k of
    None \<Rightarrow> None | Some a \<Rightarrow> if t' - a_first a > rl_window rl then None else Some a)"
  by (auto simp: live_def split: option.splits)

lemma rl_sim_later: "rl_sim t a b \<Longrightarrow> t \<le> t' \<Longrightarrow> rl_sim t' a b"
  by (auto simp: rl_sim_def live_later split: option.split)

lemma rl_sim_refl: "rl_sim t a a"
  by (simp add: rl_sim_def)

lemma live_cleanup: "t \<le> t' \<Longrightarrow> live t' (cleanup t rl) k = live t' rl k"
  by (auto simp: live_def cleanup_def split: option.splits)

lemma rl_sim_cleanup: "rl_sim t a b \<Longrightarrow> rl_sim t (cleanup t a) b"
  by (simp add: rl_sim_def live_cleanup)

lemma rl_sim_Allow:
  assumes "rl_sim t a b"
  shows "fst (Allow t k a) = fst (Allow t k b) \<and> rl_sim t (snd (Allow t k a)) (snd (Allow t k b))"
proof -
  have same: "live t a k = live t b k" "rl_max a = rl_max b" "rl_window a = rl_window b"
    "\<And>k'. live t a k' = live t b k'"
    using assms by (auto simp: rl_sim_def)
  have "live t (snd (Allow t k a)) k' = live t (snd (Allow t k b)) k'" for k'
  proof (cases "k' = k")
    case True
    then show ?thesis using same
      by (auto simp: Allow_live split: option.split) (auto simp: live_def split: option.splits)
  next
    case False
    have "live t (snd (Allow t k rl)) k' = live t rl k'" for rl
      by (simp only: live_def Allow_other_key [OF False] Allow_config)
    then show ?thesis using same(4) [of k'] by simp
  qed
  then show ?thesis using same by (simp add: rl_sim_def Allow_live split: option.split)
qed

lemma run_sim:
  assumes "rl_sim t a b" and "sorted (map event_time es)" and "\<forall>e \<in> set es. t \<le> event_time e"
  shows "fst (rl_run es a) = fst (rl_run (filter is_try es) b)"
  using assms
proof (induction es arbitrary: a b t)
  case Nil
  then show ?case by simp
next
  case (Cons e es)
  let ?t = "event_time e"
  have sim: "rl_sim ?t a b" using Cons.prems by (auto intro: rl_sim_later)
  have rest: "sorted (map event_time es)" "\<forall>e \<in> set es. ?t \<le> event_time e"
    using Cons.prems(2) by auto
  show ?case
  proof (cases e)
    case (Try t k)
    then show ?thesis
      using rl_sim_Allow [OF sim, of k] Cons.IH [OF _ rest, of "snd (Allow t k a)" "snd (Allow t k b)"]
      by (simp add: split_beta)
  next
    case (Tick t)
    then show ?thesis using Cons.IH [OF rl_sim_cleanup rest, of a b] sim by simp
  qed
qed

section \<open>How much a key gets\<close>

text \<open>Attempts of one key at the given times: the number allowed.\<close>

fun allowed :: "string \<Rightarrow> int list \<Rightarrow> RateLimiter \<Rightarrow> int" where
  "allowed k [] rl = 0"
| "allowed k (t # ts) rl =
     (if fst (Allow t k rl) then 1 else 0) + allowed k ts (snd (Allow t k rl))"

text \<open>The answers in one window, from the attempt that opens it.\<close>

fun answers :: "string \<Rightarrow> int list \<Rightarrow> RateLimiter \<Rightarrow> bool list" where
  "answers k [] rl = []"
| "answers k (t # ts) rl = fst (Allow t k rl) # answers k ts (snd (Allow t k rl))"

lemma allowed_answers: "allowed k ts rl = int (length (filter id (answers k ts rl)))"
  by (induction ts arbitrary: rl) auto

lemma live_Allow_same:
  assumes "live t rl k = Some a" and "t' - a_first a \<le> rl_window rl"
  shows "live t' (snd (Allow t k rl)) k = Some (a\<lparr>a_count := a_count a + 1\<rparr>)"
  using assms by (simp add: Allow_live) (simp add: live_def)

lemma answers_live:
  assumes "attempts rl k = Some a" and "\<forall>t \<in> set ts. t - a_first a \<le> rl_window rl"
  shows "answers k ts rl = map (\<lambda>i. a_count a + int i + 1 \<le> rl_max rl) [0..<length ts]"
  using assms
proof (induction ts arbitrary: rl a)
  case Nil
  then show ?case by simp
next
  case (Cons t ts)
  let ?a = "a\<lparr>a_count := a_count a + 1\<rparr>"
  have l: "live t rl k = Some a" using Cons.prems by (simp add: live_def)
  then have "attempts (snd (Allow t k rl)) k = Some ?a" by (simp add: Allow_live)
  then have "answers k ts (snd (Allow t k rl)) =
      map (\<lambda>i. a_count ?a + int i + 1 \<le> rl_max rl) [0..<length ts]"
    using Cons.IH [of "snd (Allow t k rl)" ?a] Cons.prems(2) by simp
  then show ?case using l
    by (simp add: Allow_live upt_conv_Cons map_Suc_upt [symmetric] ac_simps del: upt_Suc)
qed

lemma answers_window:
  assumes "live t rl k = None" and "\<forall>t' \<in> set ts. t' - t \<le> rl_window rl"
  shows "answers k (t # ts) rl =
           True # map (\<lambda>i. int i + 2 \<le> rl_max rl) [0..<length ts]"
proof -
  let ?rl = "snd (Allow t k rl)"
  have "attempts ?rl k = Some \<lparr>a_count = 1, a_first = t\<rparr>" using assms(1) by (simp add: Allow_live)
  then have "answers k ts ?rl = map (\<lambda>i. 1 + int i + 1 \<le> rl_max rl) [0..<length ts]"
    using answers_live [of ?rl k _ ts] assms(2) by simp
  then show ?thesis using assms(1) by (simp add: Allow_live ac_simps)
qed

text \<open>Counts start at one.\<close>

definition rl_ok :: "RateLimiter \<Rightarrow> bool" where
  "rl_ok rl \<longleftrightarrow> (\<forall>k a. attempts rl k = Some a \<longrightarrow> 1 \<le> a_count a)"

lemma rl_ok_Allow: "rl_ok rl \<Longrightarrow> rl_ok (snd (Allow t k rl))"
  by (auto simp: rl_ok_def Allow_live live_def split: option.splits if_splits) force+

lemma rl_ok_cleanup: "rl_ok rl \<Longrightarrow> rl_ok (cleanup t rl)"
  by (auto simp: rl_ok_def cleanup_def split: option.splits if_splits)

lemma rl_ok_run: "rl_ok rl \<Longrightarrow> rl_ok (snd (rl_run es rl))"
proof (induction es rl rule: rl_run.induct)
  case (2 t k es rl)
  then show ?case
    using rl_ok_Allow [of rl t k] by (cases "Allow t k rl") (auto simp: split_beta)
qed (simp_all add: rl_ok_cleanup)

lemma allowed_live:
  assumes "attempts rl k = Some a" and "\<forall>t \<in> set ts. t - a_first a \<le> rl_window rl"
  shows "allowed k ts rl \<le> max 0 (rl_max rl - a_count a)"
  using assms
proof (induction ts arbitrary: rl a)
  case (Cons t ts)
  let ?a = "a\<lparr>a_count := a_count a + 1\<rparr>"
  have l: "live t rl k = Some a" using Cons.prems by (simp add: live_def)
  then have "attempts (snd (Allow t k rl)) k = Some ?a" by (simp add: Allow_live)
  then have "allowed k ts (snd (Allow t k rl)) \<le> max 0 (rl_max rl - (a_count a + 1))"
    using Cons.IH [of "snd (Allow t k rl)" ?a] Cons.prems(2) by simp
  moreover have "fst (Allow t k rl) = (a_count a + 1 \<le> rl_max rl)" using l by (simp add: Allow_live)
  ultimately show ?case by (auto simp: max_def split: if_splits)
qed simp

text \<open>
  Any stretch of time no longer than the window meets at most two windows of the limiter, one
  that is already open and one that opens in it.
\<close>

lemma allowed_stretch:
  assumes "rl_ok rl" and "1 \<le> rl_max rl" and "\<forall>t \<in> set ts. s \<le> t \<and> t \<le> s + rl_window rl"
  shows "allowed k ts rl \<le>
    (case attempts rl k of None \<Rightarrow> 0 | Some a \<Rightarrow> max 0 (rl_max rl - a_count a)) + rl_max rl"
  using assms
proof (induction ts arbitrary: rl)
  case Nil
  then show ?case by (simp split: option.split)
next
  case (Cons t ts)
  let ?rl = "snd (Allow t k rl)"
  show ?case
  proof (cases "live t rl k")
    case None
    then have "attempts ?rl k = Some \<lparr>a_count = 1, a_first = t\<rparr>" by (simp add: Allow_live)
    moreover have "\<forall>t' \<in> set ts. t' - t \<le> rl_window ?rl" using Cons.prems(3) by fastforce
    ultimately have "allowed k ts ?rl \<le> max 0 (rl_max rl - 1)"
      using allowed_live [of ?rl k _ ts] by fastforce
    moreover have "fst (Allow t k rl)" using None by (simp add: Allow_live)
    ultimately show ?thesis using Cons.prems(2) by (auto split: option.split)
  next
    case (Some a)
    then have a: "attempts rl k = Some a" by (auto simp: live_def split: option.splits if_splits)
    have "attempts ?rl k = Some (a\<lparr>a_count := a_count a + 1\<rparr>)" using Some by (simp add: Allow_live)
    moreover have "allowed k ts ?rl \<le>
        (case attempts ?rl k of None \<Rightarrow> 0 | Some a \<Rightarrow> max 0 (rl_max ?rl - a_count a)) + rl_max ?rl"
      using Cons.prems by (intro Cons.IH) (simp_all add: rl_ok_Allow)
    moreover have "fst (Allow t k rl) = (a_count a + 1 \<le> rl_max rl)" using Some by (simp add: Allow_live)
    ultimately show ?thesis using a by (simp add: max_def split: if_splits)
  qed
qed

section \<open>Properties\<close>

text \<open>
  C13. In one window a key gets its first attempt and then those that keep the count within the
  maximum: the answers to the attempts from the one that opens the window are \<open>true\<close>
  \<open>max(1, max)\<close> times and \<open>false\<close> afterwards.
\<close>

theorem window_answers:
  assumes "live t rl k = None" and "\<forall>t' \<in> set ts. t' - t \<le> rl_window rl"
  shows "answers k (t # ts) rl = map (\<lambda>i. i = 0 \<or> int i + 1 \<le> rl_max rl) [0..<length (t # ts)]"
proof -
  have "[0..<Suc n] = 0 # map Suc [0..<n]" for n by (simp add: upt_conv_Cons map_Suc_upt del: upt_Suc)
  then show ?thesis using answers_window [OF assms] by (simp add: comp_def ac_simps del: upt_Suc)
qed

text \<open>
  C14. Over any stretch of time no longer than the window a key is allowed fewer than twice the
  maximum, whatever came before, since the windows are not sliding: one that is open may end
  and one begin in the stretch.
\<close>

theorem stretch_bound:
  assumes "rl_ok rl" and "1 \<le> rl_max rl" and "\<forall>t \<in> set ts. s \<le> t \<and> t \<le> s + rl_window rl"
  shows "allowed k ts rl \<le> 2 * rl_max rl - 1"
proof -
  have "(case attempts rl k of None \<Rightarrow> 0 | Some a \<Rightarrow> max 0 (rl_max rl - a_count a)) \<le> rl_max rl - 1"
    using assms(1,2) by (fastforce simp: rl_ok_def split: option.split)
  then show ?thesis using allowed_stretch [OF assms, of k] by simp
qed

text \<open>
  C15. The clean-up goroutine cannot be observed: ticks placed anywhere among the attempts of any
  keys, in the order of time, change no answer.
\<close>

theorem cleanup_unobservable:
  assumes "sorted (map event_time es)"
  shows "fst (rl_run es rl) = fst (rl_run (filter is_try es) rl)"
proof (cases es)
  case (Cons e es')
  then have "\<forall>x \<in> set es. event_time e \<le> event_time x" using assms by auto
  then show ?thesis using run_sim [OF rl_sim_refl assms] by blast
qed simp

text \<open>The limiter of \<open>cmd/server/main.go\<close>: 5 attempts in 5 minutes.\<close>

definition ref_limiter :: RateLimiter where
  "ref_limiter = \<lparr>attempts = Map.empty, rl_max = 5, rl_window = 300000000000, rl_stopped = False\<rparr>"

theorem window_answers_witness:
  "answers ''k'' [0, 1, 2, 3, 4, 5, 6] ref_limiter = [True, True, True, True, True, False, False]"
  using window_answers [of 0 ref_limiter "''k''" "[1, 2, 3, 4, 5, 6]"]
  by (simp add: ref_limiter_def live_def upt_rec)

theorem stretch_bound_witness: "allowed ''k'' [0, 1, 2, 3, 4, 5, 6] ref_limiter \<le> 9"
proof -
  have "rl_ok ref_limiter" by (simp add: rl_ok_def ref_limiter_def)
  from stretch_bound [OF this, of "[0, 1, 2, 3, 4, 5, 6]" 0] show ?thesis
    by (simp add: ref_limiter_def)
qed

theorem cleanup_unobservable_witness:
  "fst (rl_run [Try 0 ''k'', Tick 400000000000, Try 400000000001 ''k''] ref_limiter) =
   fst (rl_run [Try 0 ''k'', Try 400000000001 ''k''] ref_limiter)"
  using cleanup_unobservable [of "[Try 0 ''k'', Tick 400000000000, Try 400000000001 ''k'']" ref_limiter]
  by simp

end
