(* ===== verification/Jwt.thy ===== *)
theory Jwt
  imports Json
begin

text \<open>
  Token generation and validation, \<open>internal/pkg/jwt/jwt.go\<close>, over the library
  \<open>github.com/golang-jwt/jwt/v5\<close>, which is not part of the repository: its calls are a record
  of parameters, and the locale \<open>jwt\<close> states what its documentation promises of them.
  \<open>ref_jwt\<close> is a concrete instance (its "signature" is the key in clear) that obeys the
  contract, used to evaluate the model.  Times are nanoseconds since the epoch.
\<close>

section \<open>The library\<close>

text \<open>
  A value of a \<open>MapClaims\<close> map: a string, a \<open>float64\<close> that is integral, one that is not (by what
  the conversion to \<open>int64\<close> leaves of it), or anything else.
\<close>

datatype claim = CStr string | CNum int | CFrac int | COther

type_synonym claims = "string \<Rightarrow> claim option"

text \<open>The dynamic type of \<open>t.Method\<close>.\<close>

datatype sig_method = SigningMethodHMAC | OtherMethod

text \<open>\<open>Claims\<close> is \<open>None\<close> when its dynamic type is not \<open>MapClaims\<close>.\<close>

record token =
  Method :: sig_method
  Claims :: "claims option"
  Valid :: bool

record jwt_lib =
  SignedString :: "claims \<Rightarrow> bytes \<Rightarrow> string res"
  Parse :: "(sig_method \<Rightarrow> bytes res) \<Rightarrow> int \<Rightarrow> string \<Rightarrow> token res"
  ParseUnverified :: "string \<Rightarrow> token res"

definition second :: int where
  "second = 1000000000"

text \<open>\<open>t.Unix()\<close>\<close>

definition Unix :: "int \<Rightarrow> int" where
  "Unix t = t div second"

section \<open>The manager\<close>

record Manager =
  secret :: bytes
  accessTTL :: int
  refreshTTL :: int

definition NewManager :: "string \<Rightarrow> int \<Rightarrow> int \<Rightarrow> Manager" where
  "NewManager sec attl rttl = \<lparr>secret = bytes_of sec, accessTTL = attl, refreshTTL = rttl\<rparr>"

definition token_claims :: "string \<Rightarrow> int \<Rightarrow> int \<Rightarrow> claims" where
  "token_claims userID ex ia = [''sub'' \<mapsto> CStr userID, ''exp'' \<mapsto> CNum ex, ''iat'' \<mapsto> CNum ia]"

text \<open>Each call of \<open>time.Now()\<close> is a reading of its own: \<open>t1\<close> for \<open>exp\<close>, \<open>t2\<close> for \<open>iat\<close>.\<close>

definition GenerateAccessToken :: "jwt_lib \<Rightarrow> Manager \<Rightarrow> int \<Rightarrow> int \<Rightarrow> string \<Rightarrow> string res" where
  "GenerateAccessToken J m t1 t2 userID =
     SignedString J (token_claims userID (Unix (t1 + accessTTL m)) (Unix t2)) (secret m)"

definition GenerateRefreshToken :: "jwt_lib \<Rightarrow> Manager \<Rightarrow> int \<Rightarrow> int \<Rightarrow> string \<Rightarrow> string res" where
  "GenerateRefreshToken J m t1 t2 userID =
     SignedString J (token_claims userID (Unix (t1 + refreshTTL m)) (Unix t2)) (secret m)"

definition key_func :: "Manager \<Rightarrow> sig_method \<Rightarrow> bytes res" where
  "key_func m meth =
     (if meth \<noteq> SigningMethodHMAC then Err (Errorf ''unexpected signing method'') else Ok (secret m))"

text \<open>A \<open>sub\<close> claim that is missing or not a string gives the empty user id, without an error.\<close>

definition ValidateToken :: "jwt_lib \<Rightarrow> Manager \<Rightarrow> int \<Rightarrow> string \<Rightarrow> string res" where
  "ValidateToken J m now tokenStr =
     (case Parse J (key_func m) now tokenStr of
        Err e \<Rightarrow> Err e
      | Panic \<Rightarrow> Panic
      | Hang \<Rightarrow> Hang
      | Ok token \<Rightarrow>
          (case Claims token of
             None \<Rightarrow> Err (Errorf ''invalid token'')
           | Some c \<Rightarrow>
               if \<not> Valid token then Err (Errorf ''invalid token'')
               else Ok (case c ''sub'' of Some (CStr sub) \<Rightarrow> sub | _ \<Rightarrow> '''')))"

section \<open>The contract of the library\<close>

text \<open>
  \<open>verified meth k s\<close> says that the token's signature checks under the method and the key.
  JSON numbers are read back as \<open>float64\<close>, exact up to \<open>2 ^ 53\<close>, and strings survive JSON
  when they are valid UTF-8.
\<close>

definition exact :: "int \<Rightarrow> bool" where
  "exact n \<longleftrightarrow> \<bar>n\<bar> \<le> 2 ^ 53"

locale jwt =
  fixes J :: jwt_lib and verified :: "sig_method \<Rightarrow> bytes \<Rightarrow> string \<Rightarrow> bool"
  assumes sign_total: "\<exists>t. SignedString J (token_claims u ex ia) k = Ok t"
    and sign: "utf8_valid u \<Longrightarrow> exact ex \<Longrightarrow> exact ia \<Longrightarrow>
      SignedString J (token_claims u ex ia) k = Ok t \<Longrightarrow>
      verified SigningMethodHMAC k t \<and>
      ParseUnverified J t = Ok \<lparr>Method = SigningMethodHMAC, Claims = Some (token_claims u ex ia), Valid = False\<rparr>"
    and parse: "Parse J kf now s = Ok tok \<Longrightarrow>
      \<exists>v k c. ParseUnverified J s = Ok v \<and> kf (Method v) = Ok k \<and> verified (Method v) k s \<and>
        Claims v = Some c \<and> tok = v\<lparr>Valid := True\<rparr> \<and>
        (\<forall>e. c ''exp'' = Some (CNum e) \<longrightarrow> now < e * second)"
    and parse_total: "ParseUnverified J s = Ok v \<Longrightarrow> kf (Method v) = Ok k \<Longrightarrow> verified (Method v) k s \<Longrightarrow>
      Claims v = Some (token_claims u ex ia) \<Longrightarrow> now < ex * second \<Longrightarrow>
      Parse J kf now s = Ok (v\<lparr>Valid := True\<rparr>)"
    and parse_returns: "Parse J kf now s \<noteq> Hang" "(\<And>meth. kf meth \<noteq> Panic) \<Longrightarrow> Parse J kf now s \<noteq> Panic"
begin

lemma validate_sound:
  assumes "ValidateToken J m now s = Ok u"
  shows "verified SigningMethodHMAC (secret m) s"
proof -
  obtain tok where "Parse J (key_func m) now s = Ok tok"
    using assms by (auto simp: ValidateToken_def split: res.splits)
  from parse [OF this] show ?thesis by (auto simp: key_func_def split: if_splits)
qed

lemma validate_returns: "ValidateToken J m now s \<noteq> Hang" "ValidateToken J m now s \<noteq> Panic"
  using parse_returns [of "key_func m" now s]
  by (auto simp: ValidateToken_def key_func_def split: res.split option.split)

lemma validate_signed:
  assumes "utf8_valid u" "exact ex" "exact ia"
    and "SignedString J (token_claims u ex ia) (secret m) = Ok t"
  shows "ValidateToken J m now t = Ok u \<longleftrightarrow> now < ex * second"
    and "now < ex * second \<or> (\<exists>e. ValidateToken J m now t = Err e)"
proof -
  note s = sign [OF assms]
  have 1: "ValidateToken J m now t = Ok u" if "now < ex * second"
  proof -
    have "Parse J (key_func m) now t =
        Ok \<lparr>Method = SigningMethodHMAC, Claims = Some (token_claims u ex ia), Valid = True\<rparr>"
      using parse_total [of t _ "key_func m" "secret m" u ex ia now] s that
      by (simp add: key_func_def)
    then show ?thesis by (simp add: ValidateToken_def token_claims_def)
  qed
  have 2: "\<not> is_ok (ValidateToken J m now t)" if "\<not> now < ex * second"
  proof
    assume "is_ok (ValidateToken J m now t)"
    then obtain tok where "Parse J (key_func m) now t = Ok tok"
      by (auto simp: ValidateToken_def is_ok_iff split: res.splits)
    from parse [OF this] s that show False by (auto simp: token_claims_def)
  qed
  show "ValidateToken J m now t = Ok u \<longleftrightarrow> now < ex * second" using 1 2 by (auto simp: is_ok_iff)
  show "now < ex * second \<or> (\<exists>e. ValidateToken J m now t = Err e)"
    using 2 validate_returns [of m now t] by (cases "ValidateToken J m now t") auto
qed

end

section \<open>A concrete instance\<close>

text \<open>A string is framed by its length in unary, so that frames can be read back.\<close>

definition frame :: "string \<Rightarrow> string" where
  "frame s = replicate (length s) (CHR ''1'') @ ''0'' @ s"

definition unframe :: "string \<Rightarrow> string \<times> string" where
  "unframe x = (let n = length (takeWhile (\<lambda>c. c = CHR ''1'') x); r = drop (Suc n) x in (take n r, drop n r))"

lemma unframe_frame [simp]: "unframe (frame s @ r) = (s, r)"
proof -
  have "takeWhile (\<lambda>c. c = CHR ''1'') (replicate n (CHR ''1'') @ CHR ''0'' # y) = replicate n (CHR ''1'')"
    for n y by (induction n) auto
  then show ?thesis by (simp add: unframe_def frame_def Let_def)
qed

definition undec_int :: "string \<Rightarrow> int" where
  "undec_int s =
     (if s \<noteq> [] \<and> hd s = CHR ''-'' then - int (undec (tl s)) else int (undec s))"

lemma dec_nat_hd: "\<exists>d r. dec_nat n = d # r \<and> d \<noteq> CHR ''-''"
proof (induction n rule: dec_nat.induct)
  case (1 n)
  show ?case
  proof (cases "n < 10")
    case True
    have "(of_char (char_of (48 + n) :: char) :: nat) \<noteq> of_char (CHR ''-'')" using True by simp
    then have "char_of (48 + n) \<noteq> CHR ''-''" by metis
    then show ?thesis using True by (subst dec_nat.simps) simp
  next
    case False
    with 1 show ?thesis by (subst dec_nat.simps) auto
  qed
qed

lemma undec_dec_int [simp]: "undec_int (dec_int i) = i"
proof (cases "i < 0")
  case True
  then show ?thesis by (simp add: undec_int_def dec_int_def)
next
  case False
  moreover obtain d r where "dec_nat (nat i) = d # r" "d \<noteq> CHR ''-''" using dec_nat_hd by blast
  moreover have "undec (dec_nat (nat i)) = nat i" by simp
  ultimately show ?thesis by (simp add: undec_int_def dec_int_def)
qed

definition ref_sign :: "claims \<Rightarrow> bytes \<Rightarrow> string res" where
  "ref_sign c k = Ok (frame (str_of k) @
     frame (case c ''sub'' of Some (CStr s) \<Rightarrow> s | _ \<Rightarrow> '''') @
     frame (case c ''exp'' of Some (CNum n) \<Rightarrow> dec_int n | _ \<Rightarrow> '''') @
     frame (case c ''iat'' of Some (CNum n) \<Rightarrow> dec_int n | _ \<Rightarrow> ''''))"

definition ref_fields :: "string \<Rightarrow> bytes \<times> string \<times> int \<times> int" where
  "ref_fields s =
     (let (k, r1) = unframe s; (u, r2) = unframe r1; (e, r3) = unframe r2; (i, r4) = unframe r3
      in (bytes_of k, u, undec_int e, undec_int i))"

definition ref_unverified :: "string \<Rightarrow> token res" where
  "ref_unverified s =
     (case ref_fields s of (k, u, e, i) \<Rightarrow>
        if ref_sign (token_claims u e i) k = Ok s
        then Ok \<lparr>Method = SigningMethodHMAC, Claims = Some (token_claims u e i), Valid = False\<rparr>
        else Err (Lib ''token is malformed''))"

definition ref_verified :: "sig_method \<Rightarrow> bytes \<Rightarrow> string \<Rightarrow> bool" where
  "ref_verified meth k s \<longleftrightarrow>
     meth = SigningMethodHMAC \<and> is_ok (ref_unverified s) \<and> fst (ref_fields s) = k"

definition ref_parse :: "(sig_method \<Rightarrow> bytes res) \<Rightarrow> int \<Rightarrow> string \<Rightarrow> token res" where
  "ref_parse kf now s =
     (case ref_unverified s of
        Ok u \<Rightarrow>
          (case kf (Method u) of
             Ok k \<Rightarrow>
               if \<not> ref_verified (Method u) k s then Err (Lib ''token signature is invalid'')
               else (case ref_fields s of (_, _, e, _) \<Rightarrow>
                 if now < e * second then Ok (u\<lparr>Valid := True\<rparr>) else Err (Lib ''token is expired''))
           | r \<Rightarrow> Err (Lib ''token is unverifiable''))
      | r \<Rightarrow> r)"

definition ref_jwt :: jwt_lib where
  "ref_jwt = \<lparr>SignedString = ref_sign, Parse = ref_parse, ParseUnverified = ref_unverified\<rparr>"

lemma ref_sign_claims:
  "ref_sign (token_claims u e i) k = Ok (frame (str_of k) @ frame u @ frame (dec_int e) @ frame (dec_int i))"
  by (simp add: ref_sign_def token_claims_def)

lemma ref_fields_sign:
  "ref_fields (frame (str_of k) @ frame u @ frame (dec_int e) @ frame (dec_int i)) = (k, u, e, i)"
  using unframe_frame [of "dec_int i" "[]"] by (simp add: ref_fields_def Let_def)

lemma ref_unverified_cases:
  "(\<exists>k u e i. ref_fields s = (k, u, e, i) \<and>
     ref_unverified s = Ok \<lparr>Method = SigningMethodHMAC, Claims = Some (token_claims u e i), Valid = False\<rparr>) \<or>
   ref_unverified s = Err (Lib ''token is malformed'')"
  by (auto simp: ref_unverified_def split: prod.split)

lemma token_claims_inject:
  "token_claims u e i = token_claims u' e' i' \<longleftrightarrow> u = u' \<and> e = e' \<and> i = i'"
proof
  assume eq: "token_claims u e i = token_claims u' e' i'"
  show "u = u' \<and> e = e' \<and> i = i'"
    using fun_cong [OF eq, of "''sub''"] fun_cong [OF eq, of "''exp''"] fun_cong [OF eq, of "''iat''"]
    by (simp add: token_claims_def)
qed simp

interpretation ref_jwt: jwt ref_jwt ref_verified
proof
  fix u ex ia k t kf now s tok v sub
  show "\<exists>t. SignedString ref_jwt (token_claims u ex ia) k = Ok t"
    by (simp add: ref_jwt_def ref_sign_claims)
  show "ref_verified SigningMethodHMAC k t \<and>
      ParseUnverified ref_jwt t = Ok \<lparr>Method = SigningMethodHMAC, Claims = Some (token_claims u ex ia), Valid = False\<rparr>"
    if "SignedString ref_jwt (token_claims u ex ia) k = Ok t"
    using that by (auto simp: ref_jwt_def ref_sign_claims ref_verified_def ref_unverified_def ref_fields_sign)
  show "\<exists>u k c. ParseUnverified ref_jwt s = Ok u \<and> kf (Method u) = Ok k \<and> ref_verified (Method u) k s \<and>
        Claims u = Some c \<and> tok = u\<lparr>Valid := True\<rparr> \<and>
        (\<forall>e. c ''exp'' = Some (CNum e) \<longrightarrow> now < e * second)"
    if "Parse ref_jwt kf now s = Ok tok"
    using that ref_unverified_cases [of s]
    by (auto simp: ref_jwt_def ref_parse_def token_claims_def split: res.splits if_splits)
  show "Parse ref_jwt kf now s = Ok (v\<lparr>Valid := True\<rparr>)"
    if "ParseUnverified ref_jwt s = Ok v" "kf (Method v) = Ok k" "ref_verified (Method v) k s"
      "Claims v = Some (token_claims sub ex ia)" "now < ex * second"
    using that ref_unverified_cases [of s]
    by (auto simp: ref_jwt_def ref_parse_def token_claims_inject)
  show "Parse ref_jwt kf now s \<noteq> Hang"
    using ref_unverified_cases [of s]
    by (auto simp: ref_jwt_def ref_parse_def split: res.split prod.split)
  show "Parse ref_jwt kf now s \<noteq> Panic" if "\<And>meth. kf meth \<noteq> Panic"
    using ref_unverified_cases [of s]
    by (auto simp: ref_jwt_def ref_parse_def split: res.split prod.split)
qed

section \<open>Tokens\<close>

lemma GenerateToken_validate:
  assumes "jwt J verified" and "utf8_valid u"
    and "exact (Unix (t1 + ttl))" and "exact (Unix t2)"
    and "SignedString J (token_claims u (Unix (t1 + ttl)) (Unix t2)) (secret m) = Ok t"
  shows "ValidateToken J m now t = Ok u \<longleftrightarrow> now < Unix (t1 + ttl) * second"
  using jwt.validate_signed(1) [OF assms(1-4), of m t now] assms(5) by simp

text \<open>
  C19. A token the manager generates validates, to the user it was made for, exactly until the
  second its lifetime ends, and is an error from then on.
\<close>

theorem access_token_lifetime:
  assumes "jwt J verified" and "utf8_valid u" and "exact (Unix (t1 + accessTTL m))" and "exact (Unix t2)"
    and "GenerateAccessToken J m t1 t2 u = Ok t"
  shows "(now < Unix (t1 + accessTTL m) * second \<longrightarrow> ValidateToken J m now t = Ok u) \<and>
    (Unix (t1 + accessTTL m) * second \<le> now \<longrightarrow> (\<exists>e. ValidateToken J m now t = Err e))"
  using jwt.validate_signed [OF assms(1-4), of m t now] assms(5) by (auto simp: GenerateAccessToken_def)

text \<open>
  \<open>ValidateToken\<close> accepts only tokens whose HMAC signature checks under the manager's
  secret: other signing methods, \<open>none\<close> among them, are refused, whatever the token says.
\<close>

theorem validate_needs_secret:
  assumes "jwt J verified" and "ValidateToken J m now s = Ok u"
  shows "verified SigningMethodHMAC (secret m) s"
  using jwt.validate_sound [OF assms] .

text \<open>
  Nothing in a token says which kind it is: a refresh token is accepted as an access token
  for its whole, longer life.
\<close>

theorem refresh_token_is_access_token:
  assumes "jwt J verified" and "utf8_valid u" and "exact (Unix (t1 + refreshTTL m))" and "exact (Unix t2)"
    and "GenerateRefreshToken J m t1 t2 u = Ok t" and "now < Unix (t1 + refreshTTL m) * second"
  shows "ValidateToken J m now t = Ok u"
  using jwt.validate_signed(1) [OF assms(1-4), of m t now] assms(5,6) by (simp add: GenerateRefreshToken_def)

text \<open>A manager with the lifetimes of the configuration's defaults, to evaluate the model.\<close>

definition ref_manager :: Manager where
  "ref_manager = NewManager ''s'' (900 * second) (259200 * second)"

lemma ref_manager_sel [simp]:
  "accessTTL ref_manager = 900 * second" "refreshTTL ref_manager = 259200 * second" "secret ref_manager = bytes_of ''s''"
  by (simp_all add: ref_manager_def NewManager_def)

lemma utf8_u [simp]: "utf8_valid ''u''"
  by (subst utf8_valid.simps) (simp add: cc_def)

lemma ref_access:
  "GenerateAccessToken ref_jwt ref_manager 0 0 ''u'' =
     Ok (frame ''s'' @ frame ''u'' @ frame (dec_int 900) @ frame (dec_int 0))"
  by (simp add: GenerateAccessToken_def ref_jwt_def ref_sign_claims Unix_def second_def)

lemma ref_refresh:
  "GenerateRefreshToken ref_jwt ref_manager 0 0 ''u'' =
     Ok (frame ''s'' @ frame ''u'' @ frame (dec_int 259200) @ frame (dec_int 0))"
  by (simp add: GenerateRefreshToken_def ref_jwt_def ref_sign_claims Unix_def second_def)

theorem access_token_lifetime_witness:
  "\<exists>t. GenerateAccessToken ref_jwt ref_manager 0 0 ''u'' = Ok t \<and>
     ValidateToken ref_jwt ref_manager (899 * second) t = Ok ''u'' \<and>
     (\<exists>e. ValidateToken ref_jwt ref_manager (900 * second) t = Err e)"
  using access_token_lifetime [OF ref_jwt.jwt_axioms utf8_u _ _ ref_access, of "899 * second"]
    access_token_lifetime [OF ref_jwt.jwt_axioms utf8_u _ _ ref_access, of "900 * second"] ref_access
  by (simp add: exact_def Unix_def second_def)

theorem refresh_token_is_access_token_witness:
  "\<exists>t. GenerateRefreshToken ref_jwt ref_manager 0 0 ''u'' = Ok t \<and>
     ValidateToken ref_jwt ref_manager (1000 * second) t = Ok ''u''"
  using refresh_token_is_access_token [OF ref_jwt.jwt_axioms utf8_u _ _ ref_refresh, of "1000 * second"] ref_refresh
  by (simp add: exact_def Unix_def second_def)

theorem validate_needs_secret_witness:
  "\<exists>t. ref_verified SigningMethodHMAC (bytes_of ''s'') t"
proof -
  let ?t = "frame (str_of (bytes_of ''s'')) @ frame ''u'' @ frame (dec_int 900) @ frame (dec_int 0)"
  have "ref_sign (token_claims ''u'' 900 0) (secret ref_manager) = Ok ?t"
    by (simp add: ref_sign_claims)
  then have "ValidateToken ref_jwt ref_manager 0 ?t = Ok ''u''"
    using ref_jwt.validate_signed(1) [of "''u''" 900 0 ref_manager ?t 0]
    by (simp add: ref_jwt_def exact_def second_def)
  from validate_needs_secret [OF ref_jwt.jwt_axioms this] show ?thesis by auto
qed

end
