(* ===== verification/Middleware.thy ===== *)
theory Middleware
  imports Jwt RateLimit Postgres
begin

text \<open>
  The unary interceptor of \<open>internal/server/middleware/ratelimit.go\<close>: rate limit by peer
  address, then the two public methods, then the bearer token.  The handler is a parameter, as
  in the code.  One limiter value is shared by the interceptor and the login handler, so it is
  part of the server's state.
\<close>

section \<open>Server state and call context\<close>

record server =
  limiter :: RateLimiter
  database :: pg

text \<open>
  What a handler's \<open>context.Context\<close> holds: the peer's address (\<open>peer.FromContext\<close>), the
  incoming metadata with its keys in lower case, and the user id the interceptor puts there.
\<close>

record call_ctx =
  c_peer :: "string option"
  c_md :: "(string \<times> string list) list option"
  c_user :: "string option"

definition UserIDFromContext :: "call_ctx \<Rightarrow> string option" where
  "UserIDFromContext ctx = c_user ctx"

text \<open>\<open>md.Get(k)\<close>\<close>

definition md_Get :: "(string \<times> string list) list \<Rightarrow> string \<Rightarrow> string list" where
  "md_Get md k = (case map_of md k of None \<Rightarrow> [] | Some vs \<Rightarrow> vs)"

section \<open>The interceptor\<close>

definition register_method :: string where
  "register_method = ''/gophkeeper.auth.Auth/Register''"

definition login_method :: string where
  "login_method = ''/gophkeeper.auth.Auth/Login''"

text \<open>\<open>if len(token) > 7 && token[:7] == "Bearer " { token = token[7:] }\<close>\<close>

definition strip_bearer :: "string \<Rightarrow> string" where
  "strip_bearer tok =
     (if length tok > 7 \<and> take 7 tok = ''Bearer '' then drop 7 tok else tok)"

text \<open>
  \<open>t_rl\<close> is the clock reading of \<open>Allow\<close>, \<open>t_jwt\<close> that of the token's validation.
\<close>

definition UnaryAuthInterceptor ::
  "jwt_lib \<Rightarrow> Manager \<Rightarrow> int \<Rightarrow> int \<Rightarrow> string \<Rightarrow> (call_ctx \<Rightarrow> server \<Rightarrow> 'r res \<times> server) \<Rightarrow>
   call_ctx \<Rightarrow> server \<Rightarrow> 'r res \<times> server" where
  "UnaryAuthInterceptor J m t_rl t_jwt fullMethod handler ctx s =
     (let (pass, s1) = (case c_peer ctx of
                          None \<Rightarrow> (True, s)
                        | Some addr \<Rightarrow>
                            (case Allow t_rl addr (limiter s) of (b, rl) \<Rightarrow> (b, s\<lparr>limiter := rl\<rparr>)))
      in if \<not> pass then (Err (Status ResourceExhausted ''too many requests''), s1)
         else if fullMethod = register_method \<or> fullMethod = login_method then handler ctx s1
         else
           (case c_md ctx of
              None \<Rightarrow> (Err (Status Unauthenticated ''missing metadata''), s1)
            | Some md \<Rightarrow>
                (case md_Get md ''authorization'' of
                   [] \<Rightarrow> (Err (Status Unauthenticated ''missing token''), s1)
                 | tok # _ \<Rightarrow>
                     (case ValidateToken J m t_jwt (strip_bearer tok) of
                        Ok userID \<Rightarrow> handler (ctx\<lparr>c_user := Some userID\<rparr>) s1
                      | Err e \<Rightarrow> (Err (Status Unauthenticated ''invalid token''), s1)
                      | Panic \<Rightarrow> (Panic, s1)
                      | Hang \<Rightarrow> (Hang, s1)))))"

section \<open>What passes\<close>

lemma strip_bearer_Bearer [simp]: "tok \<noteq> '''' \<Longrightarrow> strip_bearer (''Bearer '' @ tok) = tok"
  by (simp add: strip_bearer_def)

text \<open>The limiter's answer for a peer.\<close>

definition limit_step :: "int \<Rightarrow> call_ctx \<Rightarrow> server \<Rightarrow> bool \<times> server" where
  "limit_step t ctx s =
     (case c_peer ctx of
        None \<Rightarrow> (True, s)
      | Some addr \<Rightarrow> (fst (Allow t addr (limiter s)), s\<lparr>limiter := snd (Allow t addr (limiter s))\<rparr>))"

lemma limit_step_database [simp]: "database (snd (limit_step t ctx s)) = database s"
  by (simp add: limit_step_def split: option.split)

lemma interceptor_unfold:
  "UnaryAuthInterceptor J m t_rl t_jwt fm h ctx s =
     (let s1 = snd (limit_step t_rl ctx s)
      in if \<not> fst (limit_step t_rl ctx s) then (Err (Status ResourceExhausted ''too many requests''), s1)
         else if fm = register_method \<or> fm = login_method then h ctx s1
         else
           (case c_md ctx of
              None \<Rightarrow> (Err (Status Unauthenticated ''missing metadata''), s1)
            | Some md \<Rightarrow>
                (case md_Get md ''authorization'' of
                   [] \<Rightarrow> (Err (Status Unauthenticated ''missing token''), s1)
                 | tok # _ \<Rightarrow>
                     (case ValidateToken J m t_jwt (strip_bearer tok) of
                        Ok userID \<Rightarrow> h (ctx\<lparr>c_user := Some userID\<rparr>) s1
                      | Err e \<Rightarrow> (Err (Status Unauthenticated ''invalid token''), s1)
                      | Panic \<Rightarrow> (Panic, s1)
                      | Hang \<Rightarrow> (Hang, s1)))))"
proof (cases "c_peer ctx")
  case None
  then show ?thesis by (simp add: UnaryAuthInterceptor_def limit_step_def Let_def)
next
  case (Some addr)
  then show ?thesis
    by (cases "Allow t_rl addr (limiter s)") (simp add: UnaryAuthInterceptor_def limit_step_def Let_def)
qed

text \<open>
  Every outcome of the interceptor: it refuses with the database untouched, or it is one of
  the public methods, or it hands the handler a user id that a token of the request carries.
\<close>

lemma interceptor_cases:
  assumes "jwt J verified" and "UnaryAuthInterceptor J m t_rl t_jwt fm h ctx s = (r, s')"
  obtains
    (limited) "\<not> fst (limit_step t_rl ctx s)" "s' = snd (limit_step t_rl ctx s)"
      "r = Err (Status ResourceExhausted ''too many requests'')"
  | (open_method) "fst (limit_step t_rl ctx s)" "fm = register_method \<or> fm = login_method"
      "(r, s') = h ctx (snd (limit_step t_rl ctx s))"
  | (refused) msg where "fst (limit_step t_rl ctx s)" "s' = snd (limit_step t_rl ctx s)"
      "r = Err (Status Unauthenticated msg)" "fm \<noteq> register_method" "fm \<noteq> login_method"
  | (authenticated) md tok toks u where "fst (limit_step t_rl ctx s)"
      "fm \<noteq> register_method" "fm \<noteq> login_method"
      "c_md ctx = Some md" "md_Get md ''authorization'' = tok # toks"
      "ValidateToken J m t_jwt (strip_bearer tok) = Ok u"
      "(r, s') = h (ctx\<lparr>c_user := Some u\<rparr>) (snd (limit_step t_rl ctx s))"
  using assms(2) jwt.validate_returns [OF assms(1), of m t_jwt]
  by (auto simp: interceptor_unfold Let_def split: if_splits option.splits list.splits res.splits)

end
