(* ===== verification/Sha256.thy ===== *)
theory Sha256
  imports Prelude
begin

text \<open>
  \<open>crypto/sha256\<close> of Go's standard library (FIPS 180-4), which the authentication service uses
  to store refresh tokens.
\<close>

fun chunks :: "nat \<Rightarrow> 'a list \<Rightarrow> 'a list list" where
  "chunks n xs = (if n = 0 \<or> xs = [] then [] else take n xs # chunks n (drop n xs))"

declare chunks.simps [simp del]

text \<open>Big-endian bytes of a word and back.\<close>

definition be_bytes :: "nat \<Rightarrow> 'a :: len word \<Rightarrow> bytes" where
  "be_bytes n w = map (\<lambda>k. ucast (drop_bit (8 * (n - 1 - k)) w)) [0..<n]"

definition be_word :: "bytes \<Rightarrow> 'a :: len word" where
  "be_word b = foldl (\<lambda>a x. or (push_bit 8 a) (ucast x)) 0 b"

lemma length_be_bytes [simp]: "length (be_bytes n w) = n"
  by (simp add: be_bytes_def)

definition rotr32 :: "nat \<Rightarrow> 32 word \<Rightarrow> 32 word" where
  "rotr32 n x = or (drop_bit n x) (push_bit (32 - n) x)"

text \<open>
  The constants, as the standard defines them: the first 32 bits of the fractional parts of the
  cube roots of the first 64 primes (\<open>sha_k\<close>) and of the square roots of the first 8
  (\<open>sha_init\<close>).  \<open>root_bits\<close> finds an integer root bit by bit; the roots are below
  $2^{35}$ when scaled by $2^{32}$, and the conversion to a word drops the integer part.
\<close>

fun root_bits :: "nat \<Rightarrow> nat \<Rightarrow> nat \<Rightarrow> nat \<Rightarrow> nat" where
  "root_bits k n 0 r = r"
| "root_bits k n (Suc b) r =
     root_bits k n b (if (r + 2 ^ b) ^ k \<le> n then r + 2 ^ b else r)"

definition root_fraction :: "nat \<Rightarrow> nat \<Rightarrow> 32 word" where
  "root_fraction k p = of_nat (root_bits k (p * 2 ^ (32 * k)) 40 0)"

definition sha_primes :: "nat list" where
  "sha_primes = filter (\<lambda>n. list_all (\<lambda>d. \<not> d dvd n) [2..<n]) [2..<312]"

definition sha_k :: "32 word list" where
  "sha_k = map (root_fraction 3) sha_primes"

definition sha_init :: "32 word list" where
  "sha_init = map (root_fraction 2) (take 8 sha_primes)"

definition sha_pad :: "bytes \<Rightarrow> bytes" where
  "sha_pad m = m @ [0x80] @ replicate ((119 - length m mod 64) mod 64) 0 @
     be_bytes 8 (of_nat (8 * length m) :: 64 word)"

text \<open>The message schedule, newest word first.\<close>

fun sha_schedule :: "nat \<Rightarrow> 32 word list \<Rightarrow> 32 word list" where
  "sha_schedule 0 w = w"
| "sha_schedule (Suc n) w =
     (let x = w ! 1; y = w ! 14;
          s1 = xor (xor (rotr32 17 x) (rotr32 19 x)) (drop_bit 10 x);
          s0 = xor (xor (rotr32 7 y) (rotr32 18 y)) (drop_bit 3 y)
      in sha_schedule n ((s1 + w ! 6 + s0 + w ! 15) # w))"

fun sha_round :: "32 word list \<Rightarrow> 32 word \<times> 32 word \<Rightarrow> 32 word list" where
  "sha_round [a, b, c, d, e, f, g, h] (k, w) =
     (let t1 = h + xor (xor (rotr32 6 e) (rotr32 11 e)) (rotr32 25 e) +
               xor (and e f) (and (not e) g) + k + w;
          t2 = xor (xor (rotr32 2 a) (rotr32 13 a)) (rotr32 22 a) +
               xor (xor (and a b) (and a c)) (and b c)
      in [t1 + t2, a, b, c, d + t1, e, f, g])"
| "sha_round st kw = st"

definition sha_block :: "32 word list \<Rightarrow> bytes \<Rightarrow> 32 word list" where
  "sha_block st b =
     (let w = rev (sha_schedule 48 (rev (map be_word (chunks 4 b))))
      in map2 (+) st (foldl sha_round st (zip sha_k w)))"

definition sha256 :: "bytes \<Rightarrow> bytes" where
  "sha256 m = concat (map (be_bytes 4) (foldl sha_block sha_init (chunks 64 (sha_pad m))))"

end
