(* ===== verification/Gcm.thy ===== *)
theory Gcm
  imports Sha256
begin

text \<open>
  \<open>crypto/aes\<close> and the GCM mode of \<open>crypto/cipher\<close> of Go's standard library (FIPS 197, NIST SP
  800-38D), for 12-byte nonces, 16-byte tags and no additional data: what the client's
  encryption uses.
\<close>

section \<open>AES\<close>

definition xtime :: "byte \<Rightarrow> byte" where
  "xtime b = xor (push_bit 1 b) (if bit b 7 then 0x1b else 0)"

fun gf_mul :: "nat \<Rightarrow> byte \<Rightarrow> byte \<Rightarrow> byte" where
  "gf_mul 0 a b = 0"
| "gf_mul (Suc n) a b = xor (if bit b 0 then a else 0) (gf_mul n (xtime a) (drop_bit 1 b))"

definition gf_times :: "byte \<Rightarrow> byte \<Rightarrow> byte" where
  "gf_times = gf_mul 8"

text \<open>The inverse in \<open>GF(2^8)\<close> is the power 254; zero maps to zero.\<close>

definition gf_inv :: "byte \<Rightarrow> byte" where
  "gf_inv a =
     (let a2 = gf_times a a; a4 = gf_times a2 a2; a8 = gf_times a4 a4; a16 = gf_times a8 a8;
          a32 = gf_times a16 a16; a64 = gf_times a32 a32; a128 = gf_times a64 a64
      in gf_times (gf_times (gf_times a128 a64) (gf_times a32 a16)) (gf_times (gf_times a8 a4) a2))"

definition rotl8 :: "nat \<Rightarrow> byte \<Rightarrow> byte" where
  "rotl8 n x = or (push_bit n x) (drop_bit (8 - n) x)"

definition sbox :: "byte \<Rightarrow> byte" where
  "sbox a =
     (let i = gf_inv a in xor (xor (xor i (rotl8 1 i)) (xor (rotl8 2 i) (rotl8 3 i))) (xor (rotl8 4 i) 0x63))"

definition xor_bytes :: "bytes \<Rightarrow> bytes \<Rightarrow> bytes" where
  "xor_bytes = map2 xor"

text \<open>
  The expanded key as 4-byte words, newest first; \<open>nk\<close> is the key's length in words, \<open>i\<close> the
  index of the next word, \<open>rc\<close> the next round constant.
\<close>

fun expand_key :: "nat \<Rightarrow> nat \<Rightarrow> byte \<Rightarrow> nat \<Rightarrow> bytes list \<Rightarrow> bytes list" where
  "expand_key nk i rc 0 ws = ws"
| "expand_key nk i rc (Suc n) ws =
     (let t = hd ws;
          t' = (if i mod nk = 0 then
                  (case map sbox (rotate1 t) of [] \<Rightarrow> [] | x # xs \<Rightarrow> xor x rc # xs)
                else if nk > 6 \<and> i mod nk = 4 then map sbox t else t);
          w = xor_bytes (ws ! (nk - 1)) t'
      in expand_key nk (Suc i) (if i mod nk = 0 then xtime rc else rc) n (w # ws))"

definition round_keys :: "bytes \<Rightarrow> bytes list" where
  "round_keys k =
     (let nk = length k div 4; ws = rev (chunks 4 k)
      in map concat (chunks 4 (rev (expand_key nk nk 1 (4 * (nk + 7) - nk) ws))))"

text \<open>Columns follow one another in the 16 bytes of a block.\<close>

definition shift_rows :: "bytes \<Rightarrow> bytes" where
  "shift_rows s = map (\<lambda>i. s ! ((i + 4 * (i mod 4)) mod 16)) [0..<16]"

fun mix_column :: "bytes \<Rightarrow> bytes" where
  "mix_column [a, b, c, d] =
     (let m2 = xtime; m3 = (\<lambda>x. xor (xtime x) x)
      in [xor (xor (m2 a) (m3 b)) (xor c d), xor (xor a (m2 b)) (xor (m3 c) d),
          xor (xor a b) (xor (m2 c) (m3 d)), xor (xor (m3 a) b) (xor c (m2 d))])"
| "mix_column s = s"

definition mix_columns :: "bytes \<Rightarrow> bytes" where
  "mix_columns s = concat (map mix_column (chunks 4 s))"

fun aes_rounds :: "bytes list \<Rightarrow> bytes \<Rightarrow> bytes" where
  "aes_rounds [] s = s"
| "aes_rounds [k] s = xor_bytes (shift_rows (map sbox s)) k"
| "aes_rounds (k # ks) s = aes_rounds ks (xor_bytes (mix_columns (shift_rows (map sbox s))) k)"

definition aes_encrypt :: "bytes list \<Rightarrow> bytes \<Rightarrow> bytes" where
  "aes_encrypt rks s =
     (case rks of [] \<Rightarrow> s | k0 # ks \<Rightarrow> aes_rounds ks (xor_bytes s k0))"

text \<open>\<open>aes.NewCipher\<close>: the block cipher is its round keys.\<close>

definition NewCipher :: "bytes \<Rightarrow> bytes list res" where
  "NewCipher k =
     (if length k = 16 \<or> length k = 24 \<or> length k = 32 then Ok (round_keys k)
      else Err (Lib (''crypto/aes: invalid key size '' @ dec_nat (length k))))"

section \<open>GCM\<close>

fun ghash_mul :: "nat \<Rightarrow> 128 word \<Rightarrow> 128 word \<Rightarrow> 128 word" where
  "ghash_mul 0 x v = 0"
| "ghash_mul (Suc n) x v =
     xor (if bit x n then v else 0)
       (ghash_mul n x (xor (drop_bit 1 v) (if bit v 0 then push_bit 120 0xe1 else 0)))"

definition pad16 :: "bytes \<Rightarrow> bytes" where
  "pad16 b = b @ replicate ((16 - length b mod 16) mod 16) 0"

definition ghash :: "128 word \<Rightarrow> bytes \<Rightarrow> 128 word" where
  "ghash h ct =
     foldl (\<lambda>y blk. ghash_mul 128 (xor y (be_word blk)) h) 0
       (chunks 16 (pad16 ct @ be_bytes 8 (0 :: 64 word) @ be_bytes 8 (of_nat (8 * length ct) :: 64 word)))"

definition ctr_block :: "bytes \<Rightarrow> nat \<Rightarrow> bytes" where
  "ctr_block nonce i = nonce @ be_bytes 4 (of_nat i :: 32 word)"

text \<open>Each block of the data is masked with the encryption of the next counter.\<close>

fun ctr_from :: "bytes list \<Rightarrow> bytes \<Rightarrow> nat \<Rightarrow> bytes \<Rightarrow> bytes" where
  "ctr_from rks nonce i dat =
     (if dat = [] then []
      else xor_bytes (take 16 dat) (aes_encrypt rks (ctr_block nonce i)) @
           ctr_from rks nonce (Suc i) (drop 16 dat))"

declare ctr_from.simps [simp del]

definition gcm_ctr :: "bytes list \<Rightarrow> bytes \<Rightarrow> bytes \<Rightarrow> bytes" where
  "gcm_ctr rks nonce dat = ctr_from rks nonce 2 dat"

definition gcm_tag :: "bytes list \<Rightarrow> bytes \<Rightarrow> bytes \<Rightarrow> bytes" where
  "gcm_tag rks nonce ct =
     (let h = be_word (aes_encrypt rks (replicate 16 0))
      in xor_bytes (be_bytes 16 (ghash h ct)) (aes_encrypt rks (ctr_block nonce 1)))"

text \<open>\<open>gcm.NonceSize()\<close> and the overhead of a tag.\<close>

definition NonceSize :: nat where
  "NonceSize = 12"

definition tag_size :: nat where
  "tag_size = 16"

text \<open>\<open>gcm.Seal(dst, nonce, plaintext, nil)\<close> appends to \<open>dst\<close>; it panics on a message that is too long.\<close>

definition Seal :: "bytes list \<Rightarrow> bytes \<Rightarrow> bytes \<Rightarrow> bytes \<Rightarrow> bytes res" where
  "Seal rks dst nonce plain =
     (if length nonce \<noteq> NonceSize \<or> length plain > (2 ^ 32 - 2) * 16 then Panic
      else (let ct = gcm_ctr rks nonce plain in Ok (dst @ ct @ gcm_tag rks nonce ct)))"

definition gcm_error :: error where
  "gcm_error = Lib ''cipher: message authentication failed''"

definition Open :: "bytes list \<Rightarrow> bytes \<Rightarrow> bytes \<Rightarrow> bytes res" where
  "Open rks nonce ct =
     (if length nonce \<noteq> NonceSize then Panic
      else if length ct < tag_size \<or> length ct > (2 ^ 32 - 2) * 16 + tag_size then Err gcm_error
      else (let c = take (length ct - tag_size) ct; t = drop (length ct - tag_size) ct
            in if gcm_tag rks nonce c \<noteq> t then Err gcm_error else Ok (gcm_ctr rks nonce c)))"

section \<open>Lengths\<close>

lemma concat_chunks: "0 < n \<Longrightarrow> concat (chunks n xs) = xs"
  by (induction n xs rule: chunks.induct) (subst chunks.simps, simp)

lemma chunks_dvd: "0 < n \<Longrightarrow> n dvd length xs \<Longrightarrow> c \<in> set (chunks n xs) \<Longrightarrow> length c = n"
proof (induction n xs rule: chunks.induct)
  case (1 n xs)
  show ?case
  proof (cases "xs = []")
    case True
    then show ?thesis using 1 by (simp add: chunks.simps)
  next
    case False
    then have len: "n \<le> length xs" using 1 by (simp add: dvd_imp_le)
    then have "n dvd length (drop n xs)" using 1 by simp
    then show ?thesis using 1 False len by (subst (asm) (2) chunks.simps) auto
  qed
qed

lemma set_chunks: "0 < n \<Longrightarrow> c \<in> set (chunks n xs) \<Longrightarrow> x \<in> set c \<Longrightarrow> x \<in> set xs"
  using concat_chunks [of n xs] by (metis UN_I set_concat)

lemma length_chunks:
  assumes "0 < n" "n dvd length xs"
  shows "length (chunks n xs) * n = length xs"
proof -
  have "map length (chunks n xs) = map (\<lambda>_. n) (chunks n xs)"
    using chunks_dvd [OF assms] by (intro map_cong) auto
  then have "length (concat (chunks n xs)) = length (chunks n xs) * n"
    by (simp add: length_concat sum_list_replicate map_replicate_const)
  then show ?thesis using assms(1) by (simp add: concat_chunks)
qed

lemma length_xor_bytes [simp]: "length (xor_bytes a b) = min (length a) (length b)"
  by (simp add: xor_bytes_def)

lemma xor_bytes_twice: "length a \<le> length m \<Longrightarrow> xor_bytes (xor_bytes a m) m = a"
  by (intro nth_equalityI) (auto simp: xor_bytes_def xor.assoc)

lemma length_shift_rows [simp]: "length (shift_rows s) = 16"
  by (simp add: shift_rows_def)

lemma length_mix_column [simp]: "length (mix_column c) = length c"
  by (induction c rule: mix_column.induct) (simp_all add: Let_def)

lemma length_mix_columns [simp]: "length (mix_columns s) = length s"
proof -
  have "length (mix_columns s) = sum_list (map length (chunks 4 s))"
    by (simp add: mix_columns_def length_concat comp_def)
  also have "\<dots> = length (concat (chunks 4 s))" by (simp only: length_concat)
  finally show ?thesis by (simp add: concat_chunks)
qed

definition blocks16 :: "bytes list \<Rightarrow> bool" where
  "blocks16 rks \<longleftrightarrow> (\<forall>k \<in> set rks. length k = 16)"

lemma length_aes_rounds: "blocks16 ks \<Longrightarrow> length s = 16 \<Longrightarrow> length (aes_rounds ks s) = 16"
  by (induction ks s rule: aes_rounds.induct) (simp_all add: blocks16_def)

lemma length_aes_encrypt: "blocks16 rks \<Longrightarrow> length s = 16 \<Longrightarrow> length (aes_encrypt rks s) = 16"
  by (auto simp: aes_encrypt_def blocks16_def length_aes_rounds split: list.split)

lemma expand_key_words:
  assumes "1 \<le> nk" "nk \<le> length ws" "\<forall>w \<in> set ws. length w = 4"
  shows "length (expand_key nk i rc n ws) = length ws + n \<and>
    (\<forall>w \<in> set (expand_key nk i rc n ws). length w = 4)"
  using assms
proof (induction nk i rc n ws rule: expand_key.induct)
  case (2 nk i rc n ws)
  have "nk - 1 < length ws" "0 < length ws" using 2(2,3) by linarith+
  then have "hd ws \<in> set ws" "ws ! (nk - 1) \<in> set ws" by simp_all
  then have l: "length (hd ws) = 4" "length (ws ! (nk - 1)) = 4" using 2(4) by blast+
  define t' where "t' = (if i mod nk = 0 then
      (case map sbox (rotate1 (hd ws)) of [] \<Rightarrow> [] | x # xs \<Rightarrow> xor x rc # xs)
    else if nk > 6 \<and> i mod nk = 4 then map sbox (hd ws) else hd ws)"
  define w where "w = xor_bytes (ws ! (nk - 1)) t'"
  have "length (case t of [] \<Rightarrow> [] | x # xs \<Rightarrow> xor x rc # xs) = length t" for t
    by (cases t) auto
  then have "length t' = 4" using l by (simp add: t'_def)
  then have "length w = 4" using l by (simp add: w_def)
  moreover have "expand_key nk i rc (Suc n) ws =
      expand_key nk (Suc i) (if i mod nk = 0 then xtime rc else rc) n (w # ws)"
    unfolding w_def t'_def expand_key.simps(2) Let_def by (rule refl)
  moreover have "length (expand_key nk (Suc i) (if i mod nk = 0 then xtime rc else rc) n (w # ws)) =
        length (w # ws) + n \<and>
      (\<forall>w' \<in> set (expand_key nk (Suc i) (if i mod nk = 0 then xtime rc else rc) n (w # ws)). length w' = 4)"
    using 2(2-4) \<open>length w = 4\<close> unfolding w_def t'_def by (intro "2.IH" [OF refl refl refl]) simp_all
  ultimately show ?case by simp
qed simp

lemma blocks16_round_keys:
  assumes "length k = 16 \<or> length k = 24 \<or> length k = 32"
  shows "blocks16 (round_keys k)"
proof -
  define nk where "nk = length k div 4"
  let ?ws = "expand_key nk nk 1 (4 * (nk + 7) - nk) (rev (chunks 4 k))"
  have nk: "1 \<le> nk" "nk \<le> 8" "4 dvd length k" using assms by (auto simp: nk_def)
  have "length (chunks 4 k) * 4 = length k" using nk(3) by (simp add: length_chunks)
  then have n: "length (rev (chunks 4 k)) = nk" by (simp add: nk_def)
  have "\<forall>w \<in> set (rev (chunks 4 k)). length w = 4" using nk(3) by (auto intro: chunks_dvd)
  then have "length ?ws = nk + (4 * (nk + 7) - nk) \<and> (\<forall>w \<in> set ?ws. length w = 4)"
    using expand_key_words [of nk "rev (chunks 4 k)" nk 1 "4 * (nk + 7) - nk"] nk(1) n by simp
  then have ws: "length ?ws = 4 * (nk + 7)" "\<forall>w \<in> set ?ws. length w = 4" by auto
  have "length (concat c) = 16" if c: "c \<in> set (chunks 4 (rev ?ws))" for c
  proof -
    have "length c = 4" using chunks_dvd [of 4 "rev ?ws" c] c ws by simp
    moreover have "map length c = map (\<lambda>_. 4) c"
      using set_chunks [of 4 c "rev ?ws"] c ws by (intro map_cong) auto
    ultimately show ?thesis by (simp add: length_concat sum_list_replicate map_replicate_const)
  qed
  then show ?thesis by (auto simp: blocks16_def round_keys_def Let_def nk_def)
qed

section \<open>Open undoes Seal, and accepts nothing else\<close>

lemma length_ctr_block [simp]: "length (ctr_block nonce i) = length nonce + 4"
  by (simp add: ctr_block_def)

lemma ctr_from_involution:
  assumes "blocks16 rks" "length nonce = NonceSize"
  shows "length (ctr_from rks nonce i dat) = length dat \<and>
         ctr_from rks nonce i (ctr_from rks nonce i dat) = dat"
  using assms
proof (induction rks nonce i dat rule: ctr_from.induct)
  case (1 rks nonce i dat)
  show ?case
  proof (cases "dat = []")
    case True
    then show ?thesis by (simp add: ctr_from.simps)
  next
    case False
    define m where "m = aes_encrypt rks (ctr_block nonce i)"
    define h where "h = xor_bytes (take 16 dat) m"
    define r where "r = ctr_from rks nonce (Suc i) (drop 16 dat)"
    have m: "length m = 16" using 1(2,3) by (simp add: m_def length_aes_encrypt NonceSize_def)
    have h: "length h = min 16 (length dat)" "xor_bytes h m = take 16 dat"
      using m by (simp_all add: h_def xor_bytes_twice min.commute)
    have r: "length r = length dat - 16" "ctr_from rks nonce (Suc i) r = drop 16 dat"
      using 1(1) [OF False 1(2,3)] by (simp_all add: r_def)
    have dat: "ctr_from rks nonce i dat = h @ r"
      using False by (subst ctr_from.simps) (simp add: m_def h_def r_def)
    have tk: "take 16 (h @ r) = h" "drop 16 (h @ r) = r" using h r by (auto simp: min_def)
    have "0 < length h" using h(1) False by simp
    then have ne: "h @ r \<noteq> []" by auto
    have "ctr_from rks nonce i (h @ r) = xor_bytes h m @ ctr_from rks nonce (Suc i) r"
      using ne by (subst ctr_from.simps) (simp only: tk m_def if_False simp_thms)
    then show ?thesis using h r dat by simp
  qed
qed

lemma length_gcm_tag:
  "blocks16 rks \<Longrightarrow> length nonce = NonceSize \<Longrightarrow> length (gcm_tag rks nonce ct) = tag_size"
  by (simp add: gcm_tag_def Let_def length_aes_encrypt NonceSize_def tag_size_def)

lemma gcm_ctr_involution:
  assumes "blocks16 rks" "length nonce = NonceSize"
  shows "length (gcm_ctr rks nonce dat) = length dat" "gcm_ctr rks nonce (gcm_ctr rks nonce dat) = dat"
  using ctr_from_involution [OF assms] by (auto simp: gcm_ctr_def)

lemma Open_Seal:
  assumes "blocks16 rks" "Seal rks [] nonce plain = Ok c"
  shows "Open rks nonce c = Ok plain"
proof -
  have n: "length nonce = NonceSize" and len: "length plain \<le> (2 ^ 32 - 2) * 16"
    and c: "c = gcm_ctr rks nonce plain @ gcm_tag rks nonce (gcm_ctr rks nonce plain)"
    using assms(2) by (auto simp: Seal_def Let_def split: if_splits)
  show ?thesis using n len
    by (simp add: Open_def c Let_def gcm_ctr_involution [OF assms(1) n] length_gcm_tag [OF assms(1) n])
qed

lemma Seal_Open:
  assumes "blocks16 rks" "Open rks nonce c = Ok plain"
  shows "Seal rks [] nonce plain = Ok c"
proof -
  let ?n = "length c - tag_size"
  have n: "length nonce = NonceSize" and len: "\<not> length c < tag_size" "\<not> length c > (2 ^ 32 - 2) * 16 + tag_size"
    and tag: "gcm_tag rks nonce (take ?n c) = drop ?n c" and p: "plain = gcm_ctr rks nonce (take ?n c)"
    using assms(2) by (auto simp: Open_def Let_def split: if_splits)
  have "gcm_ctr rks nonce plain = take ?n c" "length plain = ?n"
    using gcm_ctr_involution [OF assms(1) n, of "take ?n c"] p by simp_all
  then show ?thesis using n len by (simp add: Seal_def Let_def tag)
qed

lemma Seal_dst: "Seal rks dst nonce plain = map_res (\<lambda>c. dst @ c) (Seal rks [] nonce plain)"
  by (simp add: Seal_def Let_def)

end
