(* ===== verification/Crypto.thy ===== *)
theory Crypto
  imports Gcm
begin

text \<open>
  The client's cryptography, \<open>internal/client/crypto/crypto.go\<close>: key derivation over the
  external \<open>golang.org/x/crypto/scrypt\<close>, a parameter, and AES-GCM encryption with the nonce in
  front.  What \<open>crypto/rand\<close> returns is an argument: an error or the bytes read.
\<close>

section \<open>Key derivation\<close>

text \<open>\<open>scrypt.Key(password, salt, N, r, p, keyLen)\<close>\<close>

type_synonym scrypt_fun = "bytes \<Rightarrow> bytes \<Rightarrow> int \<Rightarrow> int \<Rightarrow> int \<Rightarrow> int \<Rightarrow> bytes res"

definition DeriveKey :: "scrypt_fun \<Rightarrow> bytes \<Rightarrow> bytes \<Rightarrow> bytes res" where
  "DeriveKey kdf password salt =
     (if length password < 8 then Err (Errorf ''password too short: min 8 bytes'')
      else (case kdf password salt 32768 8 1 32 of
              Err e \<Rightarrow> Err (Wrapf ''scrypt'' e)
            | r \<Rightarrow> r))"

text \<open>
  What scrypt's documentation promises: with a cost that is a power of two and small block
  parameters it returns a key of the length asked for.
\<close>

locale scrypt =
  fixes kdf :: scrypt_fun
  assumes key_length: "\<exists>k. kdf p s 32768 8 1 32 = Ok k \<and> length k = 32"
begin

lemma DeriveKey_cases:
  "(length p < 8 \<longrightarrow> DeriveKey kdf p s = Err (Errorf ''password too short: min 8 bytes'')) \<and>
   (8 \<le> length p \<longrightarrow> (\<exists>k. DeriveKey kdf p s = Ok k \<and> length k = 32))"
  using key_length [of p s] by (auto simp: DeriveKey_def)

end

section \<open>Encryption\<close>

definition Encrypt :: "(error + bytes) \<Rightarrow> bytes \<Rightarrow> bytes \<Rightarrow> bytes res" where
  "Encrypt rnd plaintext key =
     (case NewCipher key of
        Ok rks \<Rightarrow>
          (case rnd of
             Inl e \<Rightarrow> Err e
           | Inr nonce \<Rightarrow> Seal rks nonce nonce plaintext)
      | Err e \<Rightarrow> Err e
      | Panic \<Rightarrow> Panic
      | Hang \<Rightarrow> Hang)"

definition Decrypt :: "bytes \<Rightarrow> bytes \<Rightarrow> bytes res" where
  "Decrypt ciphertext key =
     (case NewCipher key of
        Ok rks \<Rightarrow>
          if length ciphertext < NonceSize then Err (Errorf ''ciphertext too short'')
          else Open rks (take NonceSize ciphertext) (drop NonceSize ciphertext)
      | Err e \<Rightarrow> Err e
      | Panic \<Rightarrow> Panic
      | Hang \<Rightarrow> Hang)"

text \<open>The longest message GCM takes.\<close>

definition max_plain :: nat where
  "max_plain = (2 ^ 32 - 2) * 16"

definition key_ok :: "bytes \<Rightarrow> bool" where
  "key_ok k \<longleftrightarrow> length k = 16 \<or> length k = 24 \<or> length k = 32"

lemma NewCipher_ok: "key_ok k \<Longrightarrow> NewCipher k = Ok (round_keys k) \<and> blocks16 (round_keys k)"
  by (auto simp: NewCipher_def key_ok_def blocks16_round_keys)

lemma NewCipher_bad: "\<not> key_ok k \<Longrightarrow> \<exists>e. NewCipher k = Err e"
  by (auto simp: NewCipher_def key_ok_def)

lemma Encrypt_Ok:
  assumes "key_ok k" "length nonce = NonceSize" "length p \<le> max_plain"
  shows "\<exists>c. Encrypt (Inr nonce) p k = Ok c \<and> length c = length p + NonceSize + tag_size"
  using assms NewCipher_ok [OF assms(1)]
  by (simp add: Encrypt_def Seal_def Let_def max_plain_def length_gcm_tag gcm_ctr_involution(1))

text \<open>Decryption accepts exactly what encryption under the same key makes.\<close>

lemma Decrypt_iff:
  "Decrypt c k = Ok p \<longleftrightarrow>
     NonceSize \<le> length c \<and> Encrypt (Inr (take NonceSize c)) p k = Ok c"
proof (cases "key_ok k")
  case True
  note k = NewCipher_ok [OF True]
  let ?n = "take NonceSize c" and ?rks = "round_keys k"
  have seal: "Seal ?rks ?n ?n p = Ok c \<longleftrightarrow> Seal ?rks [] ?n p = Ok (drop NonceSize c)" if "NonceSize \<le> length c"
  proof -
    have "c = ?n @ d \<longleftrightarrow> d = drop NonceSize c" for d
      by (metis append_take_drop_id same_append_eq)
    then show ?thesis by (subst Seal_dst) auto
  qed
  have "Open ?rks ?n (drop NonceSize c) = Ok p \<longleftrightarrow> Seal ?rks [] ?n p = Ok (drop NonceSize c)"
    using Open_Seal Seal_Open k by blast
  then show ?thesis using k seal by (auto simp: Decrypt_def Encrypt_def)
next
  case False
  then show ?thesis using NewCipher_bad [OF False] by (auto simp: Decrypt_def Encrypt_def)
qed

lemma Decrypt_Encrypt:
  assumes "Encrypt (Inr nonce) p k = Ok c" and "length nonce = NonceSize"
  shows "Decrypt c k = Ok p"
proof -
  have "key_ok k" using assms(1) NewCipher_bad [of k] by (auto simp: Encrypt_def split: res.splits)
  then have "Seal (round_keys k) nonce nonce p = Ok c" using assms(1) NewCipher_ok by (simp add: Encrypt_def)
  then obtain d where "c = nonce @ d" by (subst (asm) Seal_dst) auto
  then show ?thesis using assms by (simp add: Decrypt_iff)
qed

lemma Decrypt_returns: "Decrypt c k \<noteq> Panic" "Decrypt c k \<noteq> Hang"
  by (auto simp: Decrypt_def NewCipher_def Open_def Let_def)

section \<open>Properties\<close>

text \<open>
  C18. \<open>Decrypt\<close> undoes \<open>Encrypt\<close> under the same key, for every key, nonce and message that
  encrypts; the ciphertext is the message's length plus 28.
\<close>

theorem decrypt_encrypt:
  assumes "Encrypt (Inr nonce) p k = Ok c" and "length nonce = NonceSize"
  shows "Decrypt c k = Ok p \<and> length c = length p + 28"
proof -
  have "key_ok k" using assms(1) NewCipher_bad [of k] by (auto simp: Encrypt_def split: res.splits)
  moreover from this have "length p \<le> max_plain"
    using assms(1) NewCipher_ok [of k] by (auto simp: Encrypt_def Seal_def max_plain_def split: if_splits)
  ultimately show ?thesis
    using Encrypt_Ok [of k nonce p] Decrypt_Encrypt [OF assms] assms by (auto simp: NonceSize_def tag_size_def)
qed

text \<open>
  \<open>Decrypt\<close> never panics and accepts nothing but what \<open>Encrypt\<close> makes: if it returns a
  message, encrypting that message under the same key and the nonce in front gives the very
  same ciphertext, so no two ciphertexts with one nonce decrypt to one message.
\<close>

theorem decrypt_accepts_only_encrypted:
  "returned (Decrypt c k) \<and>
   (Decrypt c k = Ok p \<longleftrightarrow> NonceSize \<le> length c \<and> Encrypt (Inr (take NonceSize c)) p k = Ok c)"
  using Decrypt_iff Decrypt_returns by (simp add: returned_iff)

text \<open>
  Key derivation refuses a password shorter than 8 bytes and otherwise gives a key of the
  length AES-256 takes, so that encrypting under it fails only when the random source does.
\<close>

theorem derived_key_encrypts:
  assumes "scrypt kdf"
  shows "(length pw < 8 \<longrightarrow> DeriveKey kdf pw salt = Err (Errorf ''password too short: min 8 bytes'')) \<and>
    (8 \<le> length pw \<longrightarrow> (\<exists>k. DeriveKey kdf pw salt = Ok k \<and>
       (\<forall>nonce p. length nonce = NonceSize \<longrightarrow> length p \<le> max_plain \<longrightarrow> is_ok (Encrypt (Inr nonce) p k))))"
proof -
  have "is_ok (Encrypt (Inr nonce) p k)"
    if "length k = 32" "length nonce = NonceSize" "length p \<le> max_plain" for k nonce p
    using Encrypt_Ok [of k nonce p] that by (auto simp: key_ok_def is_ok_iff)
  then show ?thesis using scrypt.DeriveKey_cases [OF assms, of pw salt] by blast
qed

text \<open>A key derivation that obeys scrypt's contract, to evaluate the model.\<close>

definition ref_kdf :: scrypt_fun where
  "ref_kdf p s n r q len = Ok (take 32 (p @ s @ replicate 32 0))"

interpretation ref_scrypt: scrypt ref_kdf
  by unfold_locales (simp add: ref_kdf_def)

theorem decrypt_encrypt_witness:
  "\<exists>c. Encrypt (Inr (replicate 12 0)) [] (replicate 32 0) = Ok c \<and> Decrypt c (replicate 32 0) = Ok [] \<and> length c = 28"
proof -
  obtain c where c: "Encrypt (Inr (replicate 12 0)) [] (replicate 32 0) = Ok c"
    using Encrypt_Ok [of "replicate 32 0" "replicate 12 0" "[]"] by (auto simp: key_ok_def NonceSize_def max_plain_def)
  then show ?thesis using decrypt_encrypt [OF c] by (simp add: NonceSize_def)
qed

theorem derived_key_encrypts_witness:
  "DeriveKey ref_kdf (replicate 7 1) [] = Err (Errorf ''password too short: min 8 bytes'') \<and>
   is_ok (DeriveKey ref_kdf (replicate 8 1) [])"
  using derived_key_encrypts [OF ref_scrypt.scrypt_axioms, of "replicate 7 1" "[]"]
    derived_key_encrypts [OF ref_scrypt.scrypt_axioms, of "replicate 8 1" "[]"]
  by (auto simp: is_ok_iff)

end
