(* ===== verification/AuthServer.thy ===== *)
theory AuthServer
  imports Middleware Sha256
begin

text \<open>
  The authentication service, \<open>internal/server/auth/auth.go\<close>: registration, login and the
  rotation of refresh tokens, over the tables of \<open>Postgres\<close> and the limiter it shares with the
  interceptor.
\<close>

section \<open>Surroundings and messages\<close>

text \<open>
  What one call meets outside the program: \<open>ae_fl n\<close> is the outside failure of its \<open>n\<close>-th
  database call, \<open>ae_clk n\<close> its \<open>n\<close>-th reading of the clock (nanoseconds), \<open>ae_dbnow\<close> the
  database's own clock (microseconds), \<open>ae_uuid\<close> the fresh UUID, \<open>ae_rand\<close> what \<open>rand.Read\<close>
  gives.  When a commit fails the transaction may still have been applied: \<open>ae_applied\<close>.
\<close>

record auth_env =
  ae_fl :: "nat \<Rightarrow> error option"
  ae_clk :: "nat \<Rightarrow> int"
  ae_dbnow :: int
  ae_uuid :: string
  ae_rand :: "error + bytes"
  ae_applied :: bool

record LoginResponse =
  EncryptedSecret :: bytes
  AccessToken :: string
  RefreshToken :: string
  Salt :: bytes

text \<open>\<open>errors.As(err, &pgErr)\<close>: the code of the first database error in the chain.\<close>

fun as_pg_code :: "error \<Rightarrow> string option" where
  "as_pg_code (PgErr c m) = Some c"
| "as_pg_code (Wrapf p e) = as_pg_code e"
| "as_pg_code (Errorf s) = None"
| "as_pg_code (Status c m) = None"
| "as_pg_code (Lib s) = None"

definition hashToken :: "string \<Rightarrow> bytes" where
  "hashToken tok = sha256 (bytes_of tok)"

text \<open>\<open>time.Now().Add(72 * time.Hour)\<close> as a \<open>TIMESTAMPTZ\<close>.\<close>

definition db_expiry :: "int \<Rightarrow> int" where
  "db_expiry now = (now + 72 * 3600 * second) div 1000"

definition internal :: "string \<Rightarrow> error \<Rightarrow> error" where
  "internal what e = Status Internal (what @ '': '' @ error_text e)"

section \<open>Handlers\<close>

definition srv_Register ::
  "auth_env \<Rightarrow> string \<Rightarrow> bytes \<Rightarrow> server \<Rightarrow> string res \<times> server" where
  "srv_Register env login encSecret s =
     (case ae_rand env of
        Inl e \<Rightarrow> (Err (internal ''generate salt'' e), s)
      | Inr salt \<Rightarrow>
          try_res (sql_insert_user (ae_fl env 0) (database s)
              \<lparr>u_id = ae_uuid env, u_login = login, u_secret = encSecret, u_salt = salt\<rparr>)
            (\<lambda>err. if as_pg_code err = Some ''23505'' then Status AlreadyExists ''login already taken''
                   else internal ''register'' err)
            s
            (\<lambda>db. (Ok (ae_uuid env), s\<lparr>database := db\<rparr>)))"

definition srv_Login ::
  "jwt_lib \<Rightarrow> Manager \<Rightarrow> auth_env \<Rightarrow> string \<Rightarrow> server \<Rightarrow> LoginResponse res \<times> server" where
  "srv_Login J m env login s0 =
     (case Allow (ae_clk env 0) login (limiter s0) of (pass, rl) \<Rightarrow>
        (let s = s0\<lparr>limiter := rl\<rparr> in
         if \<not> pass then (Err (Status ResourceExhausted ''too many login attempts''), s)
         else
           try_res (sql_find_login (ae_fl env 0) (database s) login)
             (\<lambda>_. Status Unauthenticated ''invalid login'') s
             (\<lambda>row. try_res (GenerateAccessToken J m (ae_clk env 1) (ae_clk env 2) (u_id row))
               (internal ''generate access token'') s
               (\<lambda>access. try_res (GenerateRefreshToken J m (ae_clk env 3) (ae_clk env 4) (u_id row))
                 (internal ''generate refresh token'') s
                 (\<lambda>refresh. try_res (sql_insert_token (ae_fl env 1) (database s)
                     \<lparr>t_id = ae_uuid env, t_user = u_id row, t_hash = hashToken refresh,
                      t_expires = db_expiry (ae_clk env 5)\<rparr>)
                   (internal ''save refresh token'') s
                   (\<lambda>db. (Ok \<lparr>EncryptedSecret = u_secret row, AccessToken = access,
                               RefreshToken = refresh, Salt = u_salt row\<rparr>,
                           s\<lparr>database := db\<rparr>)))))))"

text \<open>
  \<open>RefreshToken\<close> looks the token up in a statement of its own; the rotation is a transaction.
  The two halves are separate definitions so that concurrent calls can be interleaved.
\<close>

definition refresh_lookup :: "auth_env \<Rightarrow> string \<Rightarrow> server \<Rightarrow> string res" where
  "refresh_lookup env tok s =
     (case sql_find_token (ae_fl env 0) (database s) (hashToken tok) (ae_dbnow env) of
        Err _ \<Rightarrow> Err (Status Unauthenticated ''invalid or expired refresh token'')
      | r \<Rightarrow> r)"

definition refresh_rotate ::
  "jwt_lib \<Rightarrow> Manager \<Rightarrow> auth_env \<Rightarrow> string \<Rightarrow> string \<Rightarrow> server \<Rightarrow> (string \<times> string) res \<times> server" where
  "refresh_rotate J m env tok userID s =
     try_res (GenerateAccessToken J m (ae_clk env 0) (ae_clk env 1) userID)
       (internal ''generate access token'') s
       (\<lambda>access. try_res (GenerateRefreshToken J m (ae_clk env 2) (ae_clk env 3) userID)
         (internal ''generate refresh token'') s
         (\<lambda>newRefresh.
            (case ae_fl env 1 of
               Some e \<Rightarrow> (Err (internal ''begin tx'' e), s)
             | None \<Rightarrow>
                 try_res (sql_delete_token (ae_fl env 2) (database s) (hashToken tok))
                   (internal ''delete old refresh token'') s
                   (\<lambda>db1. try_res (sql_insert_token (ae_fl env 3) db1
                       \<lparr>t_id = ae_uuid env, t_user = userID, t_hash = hashToken newRefresh,
                        t_expires = db_expiry (ae_clk env 4)\<rparr>)
                     (internal ''insert new refresh token'') s
                     (\<lambda>db2. (case ae_fl env 4 of
                         Some e \<Rightarrow> (Err (internal ''commit tx'' e),
                                    if ae_applied env then s\<lparr>database := db2\<rparr> else s)
                       | None \<Rightarrow> (Ok (access, newRefresh), s\<lparr>database := db2\<rparr>)))))))"

definition srv_RefreshToken ::
  "jwt_lib \<Rightarrow> Manager \<Rightarrow> auth_env \<Rightarrow> string \<Rightarrow> server \<Rightarrow> (string \<times> string) res \<times> server" where
  "srv_RefreshToken J m env tok s =
     try_res (refresh_lookup env tok s) id s (\<lambda>userID. refresh_rotate J m env tok userID s)"

section \<open>Invariants\<close>

lemma Register_ok:
  "srv_Register env login sec s = (r, s') \<Longrightarrow> pg_ok (database s) \<Longrightarrow> pg_ok (database s')"
  by (auto simp: srv_Register_def split: sum.splits try_res_splits dest: sql_ok)

lemma Login_ok:
  "srv_Login J m env login s = (r, s') \<Longrightarrow> pg_ok (database s) \<Longrightarrow> pg_ok (database s')"
  by (auto simp: srv_Login_def Let_def split: prod.splits if_splits try_res_splits dest: sql_ok)

lemma rotate_ok:
  "refresh_rotate J m env tok u s = (r, s') \<Longrightarrow> pg_ok (database s) \<Longrightarrow> pg_ok (database s')"
  by (auto simp: refresh_rotate_def split: option.splits if_splits try_res_splits dest: sql_ok)

lemma Refresh_ok:
  "srv_RefreshToken J m env tok s = (r, s') \<Longrightarrow> pg_ok (database s) \<Longrightarrow> pg_ok (database s')"
  by (auto simp: srv_RefreshToken_def split: try_res_splits dest: rotate_ok)

section \<open>Live refresh tokens\<close>

text \<open>The user a refresh token stands for at a time of the database's clock.\<close>

definition redeems :: "pg \<Rightarrow> int \<Rightarrow> string \<Rightarrow> string option" where
  "redeems db now tok =
     map_option t_user (List.find (\<lambda>r. t_hash r = hashToken tok \<and> t_expires r > now) (tokens_tab db))"

lemma refresh_lookup_redeems:
  "ae_fl env 0 = None \<Longrightarrow> refresh_lookup env tok s =
     (case redeems (database s) (ae_dbnow env) tok of
        None \<Rightarrow> Err (Status Unauthenticated ''invalid or expired refresh token'')
      | Some u \<Rightarrow> Ok u)"
  by (simp add: refresh_lookup_def sql_find_token_def redeems_def split: option.split)

lemma find_append: "List.find P (xs @ ys) = (case List.find P xs of None \<Rightarrow> List.find P ys | r \<Rightarrow> r)"
  by (induction xs) auto

lemma find_filter_neq:
  "(\<And>x. P x \<Longrightarrow> Q x) \<Longrightarrow> List.find P (filter Q xs) = List.find P xs"
  by (induction xs) auto

lemma redeems_insert:
  assumes "sql_insert_token fl db r = Ok db'"
  shows "redeems db' now tok =
    (if hashToken tok = t_hash r then (if t_expires r > now then Some (t_user r) else None)
     else redeems db now tok)"
proof -
  have db': "db' = db\<lparr>tokens_tab := tokens_tab db @ [r]\<rparr>" and new: "t_hash r \<notin> t_hash ` set (tokens_tab db)"
    using assms by (auto simp: sql_insert_token_def split: option.splits if_splits)
  have "List.find (\<lambda>x. t_hash x = t_hash r \<and> t_expires x > now) (tokens_tab db) = None"
    using new by (auto simp: find_None_iff image_iff)
  then show ?thesis by (auto simp: redeems_def db' find_append split: option.split)
qed

lemma redeems_delete:
  assumes "sql_delete_token fl db h = Ok db'"
  shows "redeems db' now tok = (if hashToken tok = h then None else redeems db now tok)"
proof -
  have db': "db' = db\<lparr>tokens_tab := filter (\<lambda>r. t_hash r \<noteq> h) (tokens_tab db)\<rparr>"
    using assms by (auto simp: sql_delete_token_def split: option.splits)
  show ?thesis
  proof (cases "hashToken tok = h")
    case True
    then show ?thesis by (auto simp: redeems_def db' find_None_iff)
  next
    case False
    then have "List.find (\<lambda>r. t_hash r = hashToken tok \<and> t_expires r > now) (tokens_tab db') =
        List.find (\<lambda>r. t_hash r = hashToken tok \<and> t_expires r > now) (tokens_tab db)"
      by (simp add: db') (rule find_filter_neq, auto)
    then show ?thesis using False by (simp add: redeems_def)
  qed
qed

text \<open>What a rotation that succeeds has done to every token.\<close>

lemma rotate_Ok:
  assumes "refresh_rotate J m env tok u s = (Ok (access, new), s')"
  shows "limiter s' = limiter s \<and> users_tab (database s') = users_tab (database s) \<and>
    entries_tab (database s') = entries_tab (database s) \<and>
    redeems (database s') now t =
      (if hashToken t = hashToken new
       then (if db_expiry (ae_clk env 4) > now then Some u else None)
       else if hashToken t = hashToken tok then None
       else redeems (database s) now t)"
proof -
  obtain db1 db2 where d: "sql_delete_token (ae_fl env 2) (database s) (hashToken tok) = Ok db1"
    "sql_insert_token (ae_fl env 3) db1 \<lparr>t_id = ae_uuid env, t_user = u, t_hash = hashToken new,
        t_expires = db_expiry (ae_clk env 4)\<rparr> = Ok db2" "s' = s\<lparr>database := db2\<rparr>"
    using assms by (auto simp: refresh_rotate_def split: option.splits try_res_splits)
  have "users_tab db2 = users_tab (database s) \<and> entries_tab db2 = entries_tab (database s)"
    using d by (auto simp: sql_delete_token_def sql_insert_token_def split: option.splits if_splits)
  then show ?thesis using d(3) redeems_insert [OF d(2), of now t] redeems_delete [OF d(1), of now t] by simp
qed

text \<open>
  A call that fails leaves the server as it was, unless it is the commit that fails after it
  was applied.
\<close>

lemma rotate_Err:
  assumes "refresh_rotate J m env tok u s = (r, s')" and "\<not> is_ok r" and "\<not> ae_applied env \<or> ae_fl env 4 = None"
  shows "s' = s"
  using assms by (auto simp: refresh_rotate_def split: option.splits try_res_splits if_splits)

section \<open>Properties\<close>


text \<open>
  A login that is taken is reported as \<open>AlreadyExists\<close>, through the database's error code
  23505, and nothing changes.
\<close>

theorem Register_taken:
  assumes "ae_rand env = Inr salt" and "ae_fl env 0 = None" and "sec \<noteq> []" and "varchar_ok 64 login"
    and "login \<in> set (map u_login (users_tab (database s)))"
  shows "srv_Register env login sec s = (Err (Status AlreadyExists ''login already taken''), s)"
  using assms by (auto simp: srv_Register_def sql_insert_user_def)

text \<open>
  A successful login answers the stored secret and salt of the account with that name, an
  access token that validates to its id until it expires, and a refresh token that the
  database redeems to it for 72 hours.
\<close>

theorem Login_answers_account:
  assumes "jwt J verified" and "srv_Login J m env login s = (Ok resp, s')"
    and "\<And>u. user_exists (database s) u \<Longrightarrow> utf8_valid u"
    and "exact (Unix (ae_clk env 1 + accessTTL m))" and "exact (Unix (ae_clk env 2))"
  shows "\<exists>row \<in> set (users_tab (database s)). u_login row = login \<and>
    EncryptedSecret resp = u_secret row \<and> Salt resp = u_salt row \<and>
    (ValidateToken J m now (AccessToken resp) = Ok (u_id row)) =
      (now < Unix (ae_clk env 1 + accessTTL m) * second) \<and>
    redeems (database s') dbnow (RefreshToken resp) =
      (if dbnow < db_expiry (ae_clk env 5) then Some (u_id row) else None)"
proof -
  obtain row db where row: "List.find (\<lambda>r. u_login r = login) (users_tab (database s)) = Some row"
    and access: "GenerateAccessToken J m (ae_clk env 1) (ae_clk env 2) (u_id row) = Ok (AccessToken resp)"
    and ins: "sql_insert_token (ae_fl env 1) (database s)
        \<lparr>t_id = ae_uuid env, t_user = u_id row, t_hash = hashToken (RefreshToken resp),
         t_expires = db_expiry (ae_clk env 5)\<rparr> = Ok db"
    and s': "database s' = db" and resp: "EncryptedSecret resp = u_secret row" "Salt resp = u_salt row"
    using assms(2)
    by (auto simp: srv_Login_def sql_find_login_def Let_def
        split: prod.splits if_splits try_res_splits option.splits)
  have r: "row \<in> set (users_tab (database s))" "u_login row = login"
    using row by (auto simp: find_Some_iff)
  then have "utf8_valid (u_id row)" using assms(3) by (auto simp: user_exists_def)
  then have "(ValidateToken J m now (AccessToken resp) = Ok (u_id row)) =
      (now < Unix (ae_clk env 1 + accessTTL m) * second)"
    using jwt.validate_signed(1) [OF assms(1) _ assms(4,5)] access by (simp add: GenerateAccessToken_def)
  then show ?thesis using r resp redeems_insert [OF ins, of dbnow "RefreshToken resp"] s' by auto
qed

text \<open>
  Nothing but the name is needed to log in: for every account, when the limiter lets the
  attempt through and the database takes the new token, the answer is a pair of tokens.  No
  secret of the user takes part.
\<close>

theorem Login_needs_only_name:
  assumes "jwt J verified" and "pg_ok (database s)" and "row \<in> set (users_tab (database s))"
    and "fst (Allow (ae_clk env 0) (u_login row) (limiter s))" and "ae_fl env = (\<lambda>_. None)"
    and "tokens_tab (database s) = []"
  shows "is_ok (fst (srv_Login J m env (u_login row) s))"
proof -
  obtain rl where rl: "Allow (ae_clk env 0) (u_login row) (limiter s) = (True, rl)"
    using assms(4) by (metis (full_types) prod.collapse)
  have "List.find (\<lambda>r. u_login r = u_login row) (users_tab (database s)) = Some row"
  proof -
    have "\<exists>r. List.find (\<lambda>r. u_login r = u_login row) (users_tab (database s)) = Some r"
      using assms(3) by (cases "List.find (\<lambda>r. u_login r = u_login row) (users_tab (database s))")
        (auto simp: find_None_iff)
    then obtain r where r: "List.find (\<lambda>r. u_login r = u_login row) (users_tab (database s)) = Some r" ..
    then have "r \<in> set (users_tab (database s))" "u_login r = u_login row" by (auto simp: find_Some_iff)
    then have "r = row" using assms(2,3) by (auto simp: pg_ok_def distinct_map dest: inj_onD)
    then show ?thesis using r by simp
  qed
  moreover have "u_id row \<in> u_id ` set (users_tab (database s))" using assms(3) by simp
  moreover obtain t1 t2 where
    "GenerateAccessToken J m (ae_clk env 1) (ae_clk env 2) (u_id row) = Ok t1"
    "GenerateRefreshToken J m (ae_clk env 3) (ae_clk env 4) (u_id row) = Ok t2"
    using jwt.sign_total [OF assms(1)] by (metis GenerateAccessToken_def GenerateRefreshToken_def)
  ultimately show ?thesis
    using rl assms(5,6)
    by (simp add: srv_Login_def sql_find_login_def sql_insert_token_def user_exists_def)
qed

text \<open>
  Tokens are a function of the user and of the second: a second login of the same account
  within the same second makes the same refresh token, breaks the unique key on its hash, and
  fails with \<open>Internal\<close>.
\<close>

theorem Login_twice_in_a_second:
  assumes "srv_Login J m env login s = (Ok resp, s1)" and "srv_Login J m env2 login s1 = (r, s2)"
    and "fst (Allow (ae_clk env2 0) login (limiter s1))" and "ae_fl env2 = (\<lambda>_. None)"
    and "GenerateAccessToken J m (ae_clk env2 1) (ae_clk env2 2) = GenerateAccessToken J m (ae_clk env 1) (ae_clk env 2)"
    and "Unix (ae_clk env2 3 + refreshTTL m) = Unix (ae_clk env 3 + refreshTTL m)"
    and "Unix (ae_clk env2 4) = Unix (ae_clk env 4)"
  shows "\<exists>msg. r = Err (Status Internal msg)"
proof -
  obtain row db where row: "List.find (\<lambda>r. u_login r = login) (users_tab (database s)) = Some row"
    and access: "GenerateAccessToken J m (ae_clk env 1) (ae_clk env 2) (u_id row) = Ok (AccessToken resp)"
    and refresh: "GenerateRefreshToken J m (ae_clk env 3) (ae_clk env 4) (u_id row) = Ok (RefreshToken resp)"
    and ins: "sql_insert_token (ae_fl env 1) (database s)
        \<lparr>t_id = ae_uuid env, t_user = u_id row, t_hash = hashToken (RefreshToken resp),
         t_expires = db_expiry (ae_clk env 5)\<rparr> = Ok db"
    and s1: "database s1 = db"
    using assms(1)
    by (auto simp: srv_Login_def sql_find_login_def Let_def
        split: prod.splits if_splits try_res_splits option.splits)
  have db: "users_tab db = users_tab (database s)" "hashToken (RefreshToken resp) \<in> set (map t_hash (tokens_tab db))"
    using ins by (auto simp: sql_insert_token_def split: option.splits if_splits)
  have "GenerateRefreshToken J m (ae_clk env2 3) (ae_clk env2 4) (u_id row) = Ok (RefreshToken resp)"
    using refresh assms(6,7) by (simp add: GenerateRefreshToken_def)
  then show ?thesis
    using assms(2-5) row access db s1
    by (auto simp: srv_Login_def sql_find_login_def sql_insert_token_def Let_def internal_def
        split: prod.splits if_splits)
qed


text \<open>
  C12. A refresh that fails changes nothing, unless the failure is that of a commit that was
  applied all the same: the deletion and the insertion are rolled back together.
\<close>

theorem Refresh_all_or_nothing:
  assumes "srv_RefreshToken J m env tok s = (Err e, s')" and "ae_fl env 4 = None \<or> \<not> ae_applied env"
  shows "s' = s"
proof (cases "refresh_lookup env tok s")
  case (Ok u)
  then have "refresh_rotate J m env tok u s = (Err e, s')" using assms(1) by (simp add: srv_RefreshToken_def)
  then show ?thesis using rotate_Err [of J m env tok u s "Err e" s'] assms(2) by auto
qed (use assms in \<open>auto simp: srv_RefreshToken_def\<close>)


section \<open>Witnesses\<close>

text \<open>A quiet environment at a time in nanoseconds, and a server with one account.\<close>

definition ref_env :: "int \<Rightarrow> auth_env" where
  "ref_env t = \<lparr>ae_fl = (\<lambda>_. None), ae_clk = (\<lambda>_. t), ae_dbnow = t div 1000, ae_uuid = ''n'',
     ae_rand = Inr (replicate 16 7), ae_applied = False\<rparr>"

definition ref_server :: server where
  "ref_server = \<lparr>limiter = \<lparr>attempts = Map.empty, rl_max = 5, rl_window = 300 * second, rl_stopped = False\<rparr>,
     database = empty_pg\<lparr>users_tab := [\<lparr>u_id = ''u'', u_login = ''l'', u_secret = [1], u_salt = [2]\<rparr>]\<rparr>\<rparr>"

lemma ref_env_sel [simp]:
  "ae_fl (ref_env t) = (\<lambda>_. None)" "ae_clk (ref_env t) = (\<lambda>_. t)" "ae_dbnow (ref_env t) = t div 1000"
  "ae_uuid (ref_env t) = ''n''" "ae_rand (ref_env t) = Inr (replicate 16 7)" "ae_applied (ref_env t) = False"
  by (simp_all add: ref_env_def)

lemma ref_users [simp]:
  "users_tab (database ref_server) = [\<lparr>u_id = ''u'', u_login = ''l'', u_secret = [1], u_salt = [2]\<rparr>]"
  "tokens_tab (database ref_server) = []" "entries_tab (database ref_server) = []"
  by (simp_all add: ref_server_def empty_pg_def)

lemma ref_server_ok: "pg_ok (database ref_server)"
  by (simp add: pg_ok_def)

lemma ref_allow: "fst (Allow 0 ''l'' (limiter ref_server))"
  by (simp add: Allow_def ref_server_def)

lemma varchar_l: "varchar_ok 64 ''m'' \<and> varchar_ok 64 ''l''"
proof -
  have "utf8_valid ''m''" "utf8_valid ''l''" by (subst utf8_valid.simps, simp add: cc_def)+
  moreover have "length (filter (\<lambda>c. \<not> cont c) ''m'') \<le> 64" "length (filter (\<lambda>c. \<not> cont c) ''l'') \<le> 64"
    using length_filter_le [of "\<lambda>c. \<not> cont c" "''m''"] length_filter_le [of "\<lambda>c. \<not> cont c" "''l''"] by simp_all
  ultimately show ?thesis by (simp add: varchar_ok_def ch_eq_iff cc_def)
qed

definition ref_refresh_token :: string where
  "ref_refresh_token = frame ''s'' @ frame ''u'' @ frame (dec_int 259200) @ frame (dec_int 0)"

definition ref_access_token :: string where
  "ref_access_token = frame ''s'' @ frame ''u'' @ frame (dec_int 900) @ frame (dec_int 0)"

definition ref_token_row :: token_row where
  "ref_token_row = \<lparr>t_id = ''n'', t_user = ''u'', t_hash = hashToken ref_refresh_token, t_expires = 259200000000\<rparr>"

definition ref_logged_in :: server where
  "ref_logged_in = ref_server\<lparr>database := (database ref_server)\<lparr>tokens_tab := [ref_token_row]\<rparr>\<rparr>"

lemma ref_tokens:
  "GenerateAccessToken ref_jwt ref_manager 0 0 ''u'' = Ok ref_access_token"
  "GenerateRefreshToken ref_jwt ref_manager 0 0 ''u'' = Ok ref_refresh_token"
  by (simp_all add: ref_access ref_refresh ref_access_token_def ref_refresh_token_def)

lemma db_expiry_0: "db_expiry 0 = 259200000000"
  by (simp add: db_expiry_def second_def)

lemma ref_login:
  "srv_Login ref_jwt ref_manager (ref_env 0) ''l'' ref_server =
     (Ok \<lparr>EncryptedSecret = [1], AccessToken = ref_access_token, RefreshToken = ref_refresh_token, Salt = [2]\<rparr>,
      ref_logged_in\<lparr>limiter := snd (Allow 0 ''l'' (limiter ref_server))\<rparr>)"
  using ref_allow
  by (cases "Allow 0 ''l'' (limiter ref_server)")
    (simp add: srv_Login_def sql_find_login_def sql_insert_token_def user_exists_def ref_tokens
      ref_logged_in_def ref_token_row_def db_expiry_0)

lemma ref_rotate:
  "refresh_lookup (ref_env 0) ref_refresh_token ref_logged_in = Ok ''u''"
  "refresh_rotate ref_jwt ref_manager (ref_env 0) ref_refresh_token ''u'' ref_logged_in =
     (Ok (ref_access_token, ref_refresh_token), ref_logged_in)"
  by (simp_all add: refresh_lookup_def sql_find_token_def ref_logged_in_def ref_token_row_def refresh_rotate_def
      ref_tokens sql_delete_token_def sql_insert_token_def user_exists_def db_expiry_0)


theorem Register_taken_witness:
  "srv_Register (ref_env 0) ''l'' [9] ref_server = (Err (Status AlreadyExists ''login already taken''), ref_server)"
  using Register_taken [of "ref_env 0" "replicate 16 7" "[9]" "''l''" ref_server] varchar_l by simp

theorem Login_answers_account_witness:
  "ValidateToken ref_jwt ref_manager (899 * second) ref_access_token = Ok ''u'' \<and>
   redeems (database ref_logged_in) 0 ref_refresh_token = Some ''u''"
  using Login_answers_account [OF ref_jwt.jwt_axioms ref_login, of "899 * second" 0]
  by (simp add: user_exists_def exact_def Unix_def second_def db_expiry_0)

theorem Login_needs_only_name_witness:
  "is_ok (fst (srv_Login ref_jwt ref_manager (ref_env 0) ''l'' ref_server))"
  using Login_needs_only_name [OF ref_jwt.jwt_axioms ref_server_ok,
      of "\<lparr>u_id = ''u'', u_login = ''l'', u_secret = [1], u_salt = [2]\<rparr>" "ref_env 0"] ref_allow
  by simp

theorem Login_twice_in_a_second_witness:
  "\<exists>msg. fst (srv_Login ref_jwt ref_manager (ref_env 1) ''l''
     (ref_logged_in\<lparr>limiter := snd (Allow 0 ''l'' (limiter ref_server))\<rparr>)) = Err (Status Internal msg)"
proof -
  have a: "fst (Allow 1 ''l'' (snd (Allow 0 ''l'' (limiter ref_server))))"
    by (simp add: Allow_def ref_server_def second_def)
  have g: "GenerateAccessToken ref_jwt ref_manager 1 1 = GenerateAccessToken ref_jwt ref_manager 0 0"
    by (simp add: GenerateAccessToken_def Unix_def second_def fun_eq_iff)
  show ?thesis
    by (rule Login_twice_in_a_second [OF ref_login prod.collapse [symmetric]])
      (simp_all add: a g Unix_def second_def)
qed


theorem Refresh_all_or_nothing_witness:
  "snd (srv_RefreshToken ref_jwt ref_manager (ref_env 0) ref_refresh_token ref_server) = ref_server"
proof -
  have "srv_RefreshToken ref_jwt ref_manager (ref_env 0) ref_refresh_token ref_server =
      (Err (Status Unauthenticated ''invalid or expired refresh token''),
       snd (srv_RefreshToken ref_jwt ref_manager (ref_env 0) ref_refresh_token ref_server))"
    by (simp add: srv_RefreshToken_def refresh_lookup_def sql_find_token_def)
  from Refresh_all_or_nothing [OF this] show ?thesis by simp
qed


text \<open>The row of a registration, and the row a login answers from.\<close>

lemma Register_row:
  "srv_Register env login sec s = (Ok u, s') \<Longrightarrow>
     \<exists>salt. \<lparr>u_id = u, u_login = login, u_secret = sec, u_salt = salt\<rparr> \<in> set (users_tab (database s'))"
  by (auto simp: srv_Register_def sql_insert_user_def split: sum.splits try_res_splits option.splits if_splits)

definition account_of :: "server \<Rightarrow> string \<Rightarrow> user_row option" where
  "account_of s login = List.find (\<lambda>r. u_login r = login) (users_tab (database s))"

lemma Login_row:
  "srv_Login J m env login s = (Ok resp, s') \<Longrightarrow>
     \<exists>row. account_of s login = Some row \<and> EncryptedSecret resp = u_secret row \<and> Salt resp = u_salt row"
  by (auto simp: srv_Login_def sql_find_login_def account_of_def Let_def
      split: prod.splits if_splits try_res_splits option.splits)

end
