(* ===== verification/SyncClient.thy ===== *)
theory SyncClient
  imports Store Policy Base64 SyncServer
begin

text \<open>
  The synchronisation client, \<open>internal/client/sync/sync.go\<close>: the three calls with the bearer
  token in their metadata, and \<open>FullSync\<close> with its pull, push and delete phases over the local
  store.  The connection (\<open>grpc.ClientConn\<close>) is a parameter: a record of the generated stub's
  calls on a state \<open>'s\<close> that stands for the network and the server behind it.
\<close>

section \<open>The client\<close>

type_synonym metadata = "(string \<times> string list) list"

record 's sync_stub =
  stub_Push :: "metadata \<Rightarrow> pb_entry list \<Rightarrow> 's \<Rightarrow> unit res \<times> 's"
  stub_Pull :: "metadata \<Rightarrow> int64 \<Rightarrow> 's \<Rightarrow> pb_entry list res \<times> 's"
  stub_Delete :: "metadata \<Rightarrow> string \<Rightarrow> int64 \<Rightarrow> 's \<Rightarrow> unit res \<times> 's"

record 's Client =
  sync :: "'s sync_stub"
  token_of :: string

definition bearer :: "string \<Rightarrow> metadata" where
  "bearer tok = [(''authorization'', [''Bearer '' @ tok])]"

definition cli_Push :: "'s Client \<Rightarrow> pb_entry list \<Rightarrow> 's \<Rightarrow> unit res \<times> 's" where
  "cli_Push c es s = stub_Push (sync c) (bearer (token_of c)) es s"

definition cli_Pull :: "'s Client \<Rightarrow> int64 \<Rightarrow> 's \<Rightarrow> pb_entry list res \<times> 's" where
  "cli_Pull c since s = stub_Pull (sync c) (bearer (token_of c)) since s"

definition cli_Delete :: "'s Client \<Rightarrow> string \<Rightarrow> int64 \<Rightarrow> 's \<Rightarrow> unit res \<times> 's" where
  "cli_Delete c entryID version s = stub_Delete (sync c) (bearer (token_of c)) entryID version s"

section \<open>FullSync\<close>

text \<open>The pull phase: one step per entry the server sent.\<close>

definition policy_local :: "string \<Rightarrow> int64 \<Rightarrow> policy_entry" where
  "policy_local i v = \<lparr>pe_ID = i, pe_Version = v, pe_EncryptedData = [], pe_UpdatedAt = 0\<rparr>"

definition policy_remote :: "pb_entry \<Rightarrow> policy_entry" where
  "policy_remote se =
     \<lparr>pe_ID = Id se, pe_Version = Version se, pe_EncryptedData = [], pe_UpdatedAt = UpdatedAt se\<rparr>"

fun pull_loop ::
  "'b bolt_ops \<Rightarrow> resolver \<Rightarrow> string \<Rightarrow> pb_entry list \<Rightarrow> 'b db \<Rightarrow> unit res \<times> 'b db" where
  "pull_loop B R u [] d = (Ok (), d)"
| "pull_loop B R u (se # ses) d =
     and_then (drop_err 0 (GetVersion B d u (Id se)), d) (\<lambda>localVer d.
       case Resolve R (policy_local (Id se) localVer) (policy_remote se) of
         Ok RemotePtr \<Rightarrow>
           and_then (Put B d u (Id se) (EncryptedData se)) (\<lambda>_ d1.
             and_then (case PutVersion B d1 u (Id se) (Version se) of (r, d2) \<Rightarrow> (drop_err () r, d2)) (\<lambda>_ d2.
               pull_loop B R u ses d2))
       | Ok LocalPtr \<Rightarrow> pull_loop B R u ses d
       | Err _ \<Rightarrow> pull_loop B R u ses d
       | Panic \<Rightarrow> (Panic, d)
       | Hang \<Rightarrow> (Hang, d))"

text \<open>
  The type that goes with a pushed entry: data that begins like a JSON object is probed, but
  only its first 64 bytes.
\<close>

definition type_probe :: "bytes \<Rightarrow> string res" where
  "type_probe data = unmarshal_struct [str_field ''Type'' (\<lambda>s _. s)] '''' data"

definition entry_type :: "bytes \<Rightarrow> string" where
  "entry_type data =
     (if data \<noteq> [] \<and> hd data = byte_of CHR ''{'' then
        (case type_probe (take (min (length data) 64) data) of
           Ok t \<Rightarrow> if t \<noteq> '''' then t else ''text''
         | _ \<Rightarrow> ''text'')
      else ''text'')"

definition push_entry :: "string \<Rightarrow> bytes \<Rightarrow> int64 \<Rightarrow> int64 \<Rightarrow> pb_entry" where
  "push_entry i data v now =
     \<lparr>Id = i, Type = entry_type data, EncryptedData = data, EncryptedMeta = [],
      Version = v, UpdatedAt = now\<rparr>"

text \<open>The push phase reads the store and changes only the remote side; \<open>clk i\<close> is \<open>time.Now().Unix()\<close> when \<open>i\<close> is pushed.\<close>

fun push_phase ::
  "'b bolt_ops \<Rightarrow> 's Client \<Rightarrow> (string \<Rightarrow> int64) \<Rightarrow> string \<Rightarrow> string list \<Rightarrow> 'b db \<Rightarrow> 's \<Rightarrow> unit res \<times> 's" where
  "push_phase B c clk u [] d s = (Ok (), s)"
| "push_phase B c clk u (i # ids) d s =
     (case GetVersion B d u i of
        Panic \<Rightarrow> (Panic, s)
      | Hang \<Rightarrow> (Hang, s)
      | Err _ \<Rightarrow> push_phase B c clk u ids d s
      | Ok localVer \<Rightarrow>
          if localVer = 0 \<or> localVer = - 1 then push_phase B c clk u ids d s
          else (case Get B d u i of
                  Panic \<Rightarrow> (Panic, s)
                | Hang \<Rightarrow> (Hang, s)
                | Err _ \<Rightarrow> push_phase B c clk u ids d s
                | Ok data \<Rightarrow>
                    (case cli_Push c [push_entry i data localVer (clk i)] s of
                       (Ok _, s') \<Rightarrow> push_phase B c clk u ids d s'
                     | (Err e, s') \<Rightarrow> (Err (Wrapf (''push '' @ i) e), s')
                     | (Panic, s') \<Rightarrow> (Panic, s')
                     | (Hang, s') \<Rightarrow> (Hang, s'))))"

text \<open>The delete phase: a tombstone is cleared locally once the server has taken the deletion.\<close>

fun delete_phase ::
  "'b bolt_ops \<Rightarrow> 's Client \<Rightarrow> string \<Rightarrow> string list \<Rightarrow> 'b db \<times> 's \<Rightarrow> unit res \<times> 'b db \<times> 's" where
  "delete_phase B c u [] ds = (Ok (), ds)"
| "delete_phase B c u (i # ids) (d, s) =
     (case GetVersion B d u i of
        Panic \<Rightarrow> (Panic, d, s)
      | Hang \<Rightarrow> (Hang, d, s)
      | Err _ \<Rightarrow> delete_phase B c u ids (d, s)
      | Ok localVer \<Rightarrow>
          if localVer \<noteq> - 1 then delete_phase B c u ids (d, s)
          else (case cli_Delete c i localVer s of
                  (Err _, s') \<Rightarrow> delete_phase B c u ids (d, s')
                | (Panic, s') \<Rightarrow> (Panic, d, s')
                | (Hang, s') \<Rightarrow> (Hang, d, s')
                | (Ok _, s') \<Rightarrow>
                    and_then (case Delete B d u i of (r, d1) \<Rightarrow> (drop_err () r, d1, s')) (\<lambda>_ ds1.
                      and_then (case DeleteVersion B (fst ds1) u i of (r, d2) \<Rightarrow> (drop_err () r, d2, s')) (\<lambda>_ ds2.
                        delete_phase B c u ids ds2))))"

text \<open>
  \<open>FullSync\<close> with the client \<open>NewClientFunc\<close> returned, or its error; the policy is the one the
  code names.
\<close>

definition FullSync ::
  "'b bolt_ops \<Rightarrow> (error + 's sync_stub) \<Rightarrow> (string \<Rightarrow> int64) \<Rightarrow> string \<Rightarrow> string \<Rightarrow> 'b db \<times> 's \<Rightarrow>
   unit res \<times> 'b db \<times> 's" where
  "FullSync B dial clk userID tok ds =
     (case dial of
        Inl e \<Rightarrow> (Err e, ds)
      | Inr stub \<Rightarrow>
          (let c = \<lparr>sync = stub, token_of = tok\<rparr>; d = fst ds; s = snd ds in
           and_then (NewResolver ''last-write-wins'', ds) (\<lambda>resolver _.
           and_then (GetMaxVersion B d userID, ds) (\<lambda>maxLocal _.
           and_then (case cli_Pull c maxLocal s of (r, s1) \<Rightarrow> (r, d, s1)) (\<lambda>ses ds1.
           and_then (case pull_loop B resolver userID ses d of (r, d2) \<Rightarrow> (r, d2, snd ds1)) (\<lambda>_ ds2.
           and_then (List B (fst ds2) userID, ds2) (\<lambda>ids _.
           and_then (case push_phase B c clk userID ids (fst ds2) (snd ds2) of (r, s3) \<Rightarrow> (r, fst ds2, s3)) (\<lambda>_ ds3.
           delete_phase B c userID ids ds3))))))))"

section \<open>Frames\<close>

text \<open>What a call leaves alone: the store stays well formed and other users' cells keep their values.\<close>

definition own_key :: "string \<Rightarrow> bytes \<Rightarrow> bool" where
  "own_key u k \<longleftrightarrow> (\<exists>i. k = key u i)"

definition only_own :: "'b bolt_ops \<Rightarrow> string \<Rightarrow> 'b db \<Rightarrow> 'b db \<Rightarrow> bool" where
  "only_own B u d d' \<longleftrightarrow>
     store_ok B d' \<and> is_open d' = is_open d \<and>
     (\<forall>k. \<not> own_key u k \<longrightarrow> entry_cell B d' k = entry_cell B d k \<and> version_cell B d' k = version_cell B d k)"

lemma only_own_refl: "store_ok B d \<Longrightarrow> only_own B u d d"
  by (simp add: only_own_def)

lemma only_own_trans: "only_own B u d d1 \<Longrightarrow> only_own B u d1 d2 \<Longrightarrow> only_own B u d d2"
  by (simp add: only_own_def)

lemma only_own_ok: "only_own B u d d' \<Longrightarrow> store_ok B d'"
  by (simp add: only_own_def)

text \<open>A connection whose calls come back.\<close>

definition stub_returns :: "'s sync_stub \<Rightarrow> bool" where
  "stub_returns st \<longleftrightarrow>
     (\<forall>md es s. returned (fst (stub_Push st md es s))) \<and>
     (\<forall>md v s. returned (fst (stub_Pull st md v s))) \<and>
     (\<forall>md i v s. returned (fst (stub_Delete st md i v s)))"

context bolt
begin

lemma own_steps:
  assumes "only_own B u d d1"
  shows "settles (only_own B u d) (Put B d1 u i x)"
    and "settles (only_own B u d) (PutVersion B d1 u i v)"
    and "settles (only_own B u d) (Delete B d1 u i)"
    and "settles (only_own B u d) (DeleteVersion B d1 u i)"
proof -
  have ok: "store_ok B d1" using assms by (rule only_own_ok)
  have own: "settles (only_own B u d) p" if "settles (only_own B u d1) p" for p :: "unit res \<times> 'b db"
    using settles_mono [OF that] only_own_trans [OF assms] by blast
  show "settles (only_own B u d) (Put B d1 u i x)"
    using Put_step [OF ok, of u i x "fst (Put B d1 u i x)" "snd (Put B d1 u i x)"]
    by (intro own) (auto simp: settles_def only_own_def own_key_def)
  show "settles (only_own B u d) (PutVersion B d1 u i v)"
    using PutVersion_step [OF ok, of u i v "fst (PutVersion B d1 u i v)" "snd (PutVersion B d1 u i v)"]
    by (intro own) (auto simp: settles_def only_own_def own_key_def)
  show "settles (only_own B u d) (Delete B d1 u i)"
    using Delete_step [OF ok, of u i "fst (Delete B d1 u i)" "snd (Delete B d1 u i)"]
    by (intro own) (auto simp: settles_def only_own_def own_key_def)
  show "settles (only_own B u d) (DeleteVersion B d1 u i)"
    using DeleteVersion_step [OF ok, of u i "fst (DeleteVersion B d1 u i)" "snd (DeleteVersion B d1 u i)"]
    by (intro own) (auto simp: settles_def only_own_def own_key_def)
qed

lemma GetVersion_returned: "store_ok B d \<Longrightarrow> returned (GetVersion B d u i)"
  by (simp add: GetVersion_cases split: option.split)

lemma Get_returned: "store_ok B d \<Longrightarrow> returned (Get B d u i)"
  by (simp add: Get_cases split: option.split)

lemma List_returned: "store_ok B d \<Longrightarrow> returned (List B d u)"
  using List_cases [of d u] by auto

lemma GetMaxVersion_returned: "store_ok B d \<Longrightarrow> returned (GetMaxVersion B d u)"
  using GetMaxVersion_cases [of d u] by auto

lemmas reads_returned = GetVersion_returned Get_returned List_returned GetMaxVersion_returned

lemma pull_loop_own:
  "only_own B u d d1 \<Longrightarrow> settles (only_own B u d) (pull_loop B R u ses d1)"
proof (induction ses arbitrary: d1)
  case (Cons se ses)
  have v: "settles (only_own B u d) (drop_err 0 (GetVersion B d1 u (Id se)), d1)"
    using Cons.prems GetVersion_returned [OF only_own_ok] by (simp add: settles_def)
  have w: "\<exists>w. Resolve R l r = Ok w" for l r
    by (cases R) (auto simp: lww_Resolve_def server_Resolve_def client_Resolve_def)
  have rest: "settles (only_own B u d)
      (and_then (Put B d2 u (Id se) (EncryptedData se)) (\<lambda>_ d3.
         and_then (case PutVersion B d3 u (Id se) (Version se) of (r, d4) \<Rightarrow> (drop_err () r, d4))
           (\<lambda>_ d4. pull_loop B R u ses d4)))" if d2: "only_own B u d d2" for d2
  proof (rule settles_and_then [OF own_steps(1) [OF d2]])
    fix x d3 assume d3: "only_own B u d d3"
    show "settles (only_own B u d)
        (and_then (case PutVersion B d3 u (Id se) (Version se) of (r, d4) \<Rightarrow> (drop_err () r, d4))
           (\<lambda>_ d4. pull_loop B R u ses d4))"
      using own_steps(2) [OF d3, of "Id se" "Version se"] Cons.IH
      by (intro settles_and_then [where Q = "only_own B u d"]) (auto split: prod.split)
  qed
  show ?case unfolding pull_loop.simps
  proof (rule settles_and_then [OF v])
    fix x d2 assume d2: "only_own B u d d2"
    obtain w where "Resolve R (policy_local (Id se) x) (policy_remote se) = Ok w"
      using w by blast
    then show "settles (only_own B u d)
       (case Resolve R (policy_local (Id se) x) (policy_remote se) of
         Ok RemotePtr \<Rightarrow>
           and_then (Put B d2 u (Id se) (EncryptedData se)) (\<lambda>_ d3.
             and_then (case PutVersion B d3 u (Id se) (Version se) of (r, d4) \<Rightarrow> (drop_err () r, d4)) (\<lambda>_ d4.
               pull_loop B R u ses d4))
       | Ok LocalPtr \<Rightarrow> pull_loop B R u ses d2
       | Err _ \<Rightarrow> pull_loop B R u ses d2
       | Panic \<Rightarrow> (Panic, d2)
       | Hang \<Rightarrow> (Hang, d2))"
      using rest [OF d2] Cons.IH [OF d2] by (cases w) simp_all
  qed assumption
qed simp

lemma push_phase_returned:
  "store_ok B d \<Longrightarrow> stub_returns (sync c) \<Longrightarrow> returned (fst (push_phase B c clk u ids d s))"
proof (induction ids arbitrary: s)
  case (Cons i ids)
  have p: "returned (fst (cli_Push c es s))" for es
    using Cons.prems(2) by (simp add: cli_Push_def stub_returns_def)
  have IH: "returned (fst (push_phase B c clk u ids d s))" for s
    using Cons by blast
  show ?case
  proof (cases "GetVersion B d u i")
    case (Ok v)
    show ?thesis
    proof (cases "Get B d u i")
      case (Ok data)
      note g = Ok
      obtain q s1 where "cli_Push c [push_entry i data v (clk i)] s = (q, s1)" by fastforce
      then show ?thesis
        using \<open>GetVersion B d u i = Ok v\<close> g IH p [of "[push_entry i data v (clk i)]"] by (cases q) auto
    qed (use \<open>GetVersion B d u i = Ok v\<close> IH Get_returned [OF Cons.prems(1), of u i] in auto)
  qed (use IH GetVersion_returned [OF Cons.prems(1), of u i] in auto)
qed simp

lemma delete_phase_own:
  "only_own B u d (fst ds) \<Longrightarrow> stub_returns (sync c) \<Longrightarrow>
     settles (\<lambda>ds. only_own B u d (fst ds)) (delete_phase B c u ids ds)"
proof (induction ids arbitrary: ds)
  case (Cons i ids)
  obtain d1 s where ds: "ds = (d1, s)" by fastforce
  have d1: "only_own B u d d1" and ok: "store_ok B d1" using Cons.prems ds only_own_ok by auto
  have IH: "only_own B u d (fst ds) \<Longrightarrow> settles (\<lambda>ds. only_own B u d (fst ds)) (delete_phase B c u ids ds)" for ds
    using Cons by blast
  show ?case
  proof (cases "GetVersion B d1 u i")
    case (Ok v)
    show ?thesis
    proof (cases "v = - 1")
      case False
      then show ?thesis using Ok ds d1 IH by simp
    next
      case True
      obtain q s1 where q: "cli_Delete c i v s = (q, s1)" by fastforce
      have calm: "returned q"
        using q Cons.prems(2) by (metis cli_Delete_def fst_conv stub_returns_def)
      have del: "settles (\<lambda>ds. only_own B u d (fst ds)) (case Delete B d1 u i of (r, d2) \<Rightarrow> (drop_err () r, d2, s1))"
        using own_steps(3) [OF d1, of i] by (simp add: settles_def split_beta)
      have delv: "settles (\<lambda>ds. only_own B u d (fst ds))
          (case DeleteVersion B d2 u i of (r, d3) \<Rightarrow> (drop_err () r, d3, s1))" if "only_own B u d d2" for d2
        using own_steps(4) [OF that, of i] by (simp add: settles_def split_beta)
      have rest: "settles (\<lambda>ds. only_own B u d (fst ds))
         (and_then (case Delete B d1 u i of (r, d2) \<Rightarrow> (drop_err () r, d2, s1)) (\<lambda>_ ds1.
            and_then (case DeleteVersion B (fst ds1) u i of (r, d2) \<Rightarrow> (drop_err () r, d2, s1)) (\<lambda>_ ds2.
              delete_phase B c u ids ds2)))"
        by (rule settles_and_then [OF del], rule settles_and_then [OF delv]) (auto intro: IH)
      show ?thesis using ds Ok True q calm rest IH d1 by (cases q) auto
    qed
  qed (use ds d1 IH GetVersion_returned [OF ok, of u i] in auto)
qed simp

lemma FullSync_own:
  assumes "store_ok B (fst ds)" and "\<And>st. dial = Inr st \<Longrightarrow> stub_returns st"
  shows "settles (\<lambda>ds'. only_own B u (fst ds) (fst ds')) (FullSync B dial clk u tok ds)"
proof (cases dial)
  case (Inl e)
  then show ?thesis using assms by (simp add: FullSync_def only_own_refl)
next
  case (Inr st)
  let ?c = "\<lparr>sync = st, token_of = tok\<rparr>" and ?d = "fst ds"
  let ?Q = "\<lambda>ds'. only_own B u ?d (fst ds')"
  note st = assms(2) [OF Inr] and refl = only_own_refl [OF assms(1), of u]
  have pull: "returned (fst (cli_Pull ?c v s))" for v s
    using st by (simp add: cli_Pull_def stub_returns_def)
  have "settles ?Q (and_then (NewResolver ''last-write-wins'', ds) (\<lambda>resolver _.
           and_then (GetMaxVersion B ?d u, ds) (\<lambda>maxLocal _.
           and_then (case cli_Pull ?c maxLocal (snd ds) of (r, s1) \<Rightarrow> (r, ?d, s1)) (\<lambda>ses ds1.
           and_then (case pull_loop B resolver u ses ?d of (r, d2) \<Rightarrow> (r, d2, snd ds1)) (\<lambda>_ ds2.
           and_then (List B (fst ds2) u, ds2) (\<lambda>ids _.
           and_then (case push_phase B ?c clk u ids (fst ds2) (snd ds2) of (r, s3) \<Rightarrow> (r, fst ds2, s3)) (\<lambda>_ ds3.
           delete_phase B ?c u ids ds3)))))))"
  proof (intro settles_and_then [where Q = ?Q])
    show "settles ?Q (NewResolver ''last-write-wins'', ds)"
      by (simp add: NewResolver_def PolicyLastWriteWins_def refl)
    show "settles ?Q (GetMaxVersion B ?d u, ds)"
      using GetMaxVersion_returned [OF assms(1)] refl by (simp add: settles_def)
    show "settles ?Q (case cli_Pull ?c v (snd ds) of (r, s1) \<Rightarrow> (r, ?d, s1))" for v
      using pull refl by (simp add: settles_def split_beta)
    show "settles ?Q (case pull_loop B R u ses ?d of (r, d2) \<Rightarrow> (r, d2, snd ds1))" for R ses ds1
      using pull_loop_own [OF refl] by (simp add: settles_def split_beta)
    show "settles ?Q (List B (fst ds2) u, ds2)" if "?Q ds2" for ds2
      using that List_returned [OF only_own_ok] by (simp add: settles_def)
    show "settles ?Q (case push_phase B ?c clk u ids (fst ds2) (snd ds2) of (r, s3) \<Rightarrow> (r, fst ds2, s3))"
      if "?Q ds2" for ids ds2
      using that push_phase_returned [OF only_own_ok, of u ?d "fst ds2" ?c] st
      by (simp add: settles_def split_beta)
    show "settles ?Q (delete_phase B ?c u ids ds3)" if "?Q ds3" for ids ds3
      using delete_phase_own [OF that] st by simp
  qed
  then show ?thesis using Inr by (simp add: FullSync_def Let_def)
qed

end

end
