(* ===== verification/SyncSpec.thy ===== *)
theory SyncSpec
  imports SyncClient
begin

text \<open>
  The abstract specification of a synchronisation and its refinement.  A user's local data is a
  pair of finite maps, ciphertexts and versions by entry id; \<open>FullSync\<close> over a database that
  does not fail does to them, and to the remote side, what \<open>spec_sync\<close> says.
\<close>

section \<open>A user's local data\<close>

type_synonym cells = "(string \<Rightarrow> bytes option) \<times> (string \<Rightarrow> int64 option)"

definition own_cells :: "'b bolt_ops \<Rightarrow> string \<Rightarrow> 'b db \<Rightarrow> cells" where
  "own_cells B u d = (\<lambda>i. entry_cell B d (key u i), \<lambda>i. version_cell B d (key u i))"

definition usable :: "'b bolt_ops \<Rightarrow> 'b db \<Rightarrow> bool" where
  "usable B d \<longleftrightarrow> store_ok B d \<and> is_open d"

text \<open>What the database accepts as an entry.\<close>

definition fits :: "string \<Rightarrow> pb_entry \<Rightarrow> bool" where
  "fits u e \<longleftrightarrow> put_ok (key u (Id e)) (EncryptedData e)"

context bolt_reliable
begin

lemma usable_view: "usable B d \<Longrightarrow> db_view_err B d = None"
  by (simp add: usable_def view_total)

lemma Put_usable:
  assumes "usable B d" and "put_ok (key u i) x"
  obtains d' where "Put B d u i x = (Ok (), d')" "usable B d'"
    "entry_cell B d' = (entry_cell B d)(key u i \<mapsto> x)" "version_cell B d' = version_cell B d"
proof -
  have ok: "store_ok B d" "is_open d" using assms(1) by (auto simp: usable_def)
  obtain b where b: "buckets d ''entries'' = Some b" using ok by (auto simp: store_ok_def)
  obtain b' where "bk_put B b (key u i) x = Inr b'" using put_total [OF assms(2)] by blast
  then have "fst (Put B d u i x) = Ok ()" using update_total [OF ok(2)] b by (simp add: Put_def)
  then obtain d' where d': "Put B d u i x = (Ok (), d')" by (metis prod.collapse)
  then show ?thesis using Put_step [OF ok(1) d'] ok(2) that by (auto simp: usable_def)
qed

lemma PutVersion_usable:
  assumes "usable B d" and "put_ok (key u i) x"
  obtains d' where "PutVersion B d u i v = (Ok (), d')" "usable B d'"
    "version_cell B d' = (version_cell B d)(key u i \<mapsto> v)" "entry_cell B d' = entry_cell B d"
proof -
  have ok: "store_ok B d" "is_open d" using assms(1) by (auto simp: usable_def)
  obtain b where b: "buckets d ''versions'' = Some b" using ok by (auto simp: store_ok_def)
  have "put_ok (key u i) (int64ToBytes v)" using assms(2) by (simp add: put_ok_def)
  then obtain b' where "bk_put B b (key u i) (int64ToBytes v) = Inr b'" using put_total by blast
  then have "fst (PutVersion B d u i v) = Ok ()" using update_total [OF ok(2)] b by (simp add: PutVersion_def)
  then obtain d' where d': "PutVersion B d u i v = (Ok (), d')" by (metis prod.collapse)
  then show ?thesis using PutVersion_step [OF ok(1) d'] ok(2) that by (auto simp: usable_def)
qed

lemma Delete_usable:
  assumes "usable B d"
  obtains d' where "Delete B d u i = (Ok (), d')" "usable B d'"
    "entry_cell B d' = (entry_cell B d)(key u i := None)" "version_cell B d' = version_cell B d"
proof -
  have ok: "store_ok B d" "is_open d" using assms(1) by (auto simp: usable_def)
  obtain b where b: "buckets d ''entries'' = Some b" using ok by (auto simp: store_ok_def)
  obtain b' where "bk_delete B b (key u i) = Inr b'" using delete_total by blast
  then have "fst (Delete B d u i) = Ok ()" using update_total [OF ok(2)] b by (simp add: Delete_def)
  then obtain d' where d': "Delete B d u i = (Ok (), d')" by (metis prod.collapse)
  then show ?thesis using Delete_step [OF ok(1) d'] ok(2) that by (auto simp: usable_def)
qed

lemma DeleteVersion_usable:
  assumes "usable B d"
  obtains d' where "DeleteVersion B d u i = (Ok (), d')" "usable B d'"
    "version_cell B d' = (version_cell B d)(key u i := None)" "entry_cell B d' = entry_cell B d"
proof -
  have ok: "store_ok B d" "is_open d" using assms(1) by (auto simp: usable_def)
  obtain b where b: "buckets d ''versions'' = Some b" using ok by (auto simp: store_ok_def)
  obtain b' where "bk_delete B b (key u i) = Inr b'" using delete_total by blast
  then have "fst (DeleteVersion B d u i) = Ok ()" using update_total [OF ok(2)] b by (simp add: DeleteVersion_def)
  then obtain d' where d': "DeleteVersion B d u i = (Ok (), d')" by (metis prod.collapse)
  then show ?thesis using DeleteVersion_step [OF ok(1) d'] ok(2) that by (auto simp: usable_def)
qed

lemma reads_usable:
  assumes "usable B d"
  shows "GetVersion B d u i =
      (case snd (own_cells B u d) i of None \<Rightarrow> Err (Errorf ''version not found'') | Some v \<Rightarrow> Ok v)"
    and "Get B d u i =
      (case fst (own_cells B u d) i of None \<Rightarrow> Err (Errorf ''entry not found'') | Some x \<Rightarrow> Ok x)"
  using assms usable_view [OF assms]
  by (simp_all add: usable_def GetVersion_cases Get_cases own_cells_def split: option.split)

end

section \<open>The phases, on the maps\<close>

text \<open>
  With \<open>UpdatedAt = 0\<close> on the local side, last-write-wins takes every entry the server dates
  after the epoch.
\<close>

fun spec_pull :: "pb_entry list \<Rightarrow> cells \<Rightarrow> cells" where
  "spec_pull [] EV = EV"
| "spec_pull (se # ses) EV =
     spec_pull ses
       (if 0 < sint (UpdatedAt se)
        then ((fst EV)(Id se \<mapsto> EncryptedData se), (snd EV)(Id se \<mapsto> Version se)) else EV)"

definition to_push :: "(string \<Rightarrow> int64) \<Rightarrow> cells \<Rightarrow> string \<Rightarrow> pb_entry option" where
  "to_push clk EV i =
     (case (fst EV i, snd EV i) of
        (Some x, Some v) \<Rightarrow> if v = 0 \<or> v = - 1 then None else Some (push_entry i x v (clk i))
      | _ \<Rightarrow> None)"

fun send_all :: "'s Client \<Rightarrow> pb_entry list \<Rightarrow> 's \<Rightarrow> unit res \<times> 's" where
  "send_all c [] s = (Ok (), s)"
| "send_all c (e # es) s =
     (case cli_Push c [e] s of
        (Ok _, s') \<Rightarrow> send_all c es s'
      | (Err x, s') \<Rightarrow> (Err (Wrapf (''push '' @ Id e) x), s')
      | (Panic, s') \<Rightarrow> (Panic, s')
      | (Hang, s') \<Rightarrow> (Hang, s'))"

fun spec_delete :: "'s Client \<Rightarrow> string list \<Rightarrow> cells \<times> 's \<Rightarrow> unit res \<times> cells \<times> 's" where
  "spec_delete c [] EVs = (Ok (), EVs)"
| "spec_delete c (i # ids) (EV, s) =
     (if snd EV i \<noteq> Some (- 1) then spec_delete c ids (EV, s)
      else (case cli_Delete c i (- 1) s of
              (Ok _, s') \<Rightarrow> spec_delete c ids (((fst EV)(i := None), (snd EV)(i := None)), s')
            | (Err _, s') \<Rightarrow> spec_delete c ids (EV, s')
            | (Panic, s') \<Rightarrow> (Panic, EV, s')
            | (Hang, s') \<Rightarrow> (Hang, EV, s')))"

text \<open>The highest version, at least 0.\<close>

definition is_max_version :: "cells \<Rightarrow> int64 \<Rightarrow> bool" where
  "is_max_version EV m \<longleftrightarrow> sint m = Max (insert 0 (sint ` ran (snd EV)))"

text \<open>The entry ids in the order of their keys.\<close>

definition ids_in_order :: "string \<Rightarrow> cells \<Rightarrow> string list \<Rightarrow> bool" where
  "ids_in_order u EV ids \<longleftrightarrow> set ids = dom (fst EV) \<and> sorted_wrt (\<lambda>i j. key u i < key u j) ids"

inductive spec_sync ::
  "'s Client \<Rightarrow> (string \<Rightarrow> int64) \<Rightarrow> string \<Rightarrow> cells \<times> 's \<Rightarrow> unit res \<times> cells \<times> 's \<Rightarrow> bool"
  for c :: "'s Client" and clk :: "string \<Rightarrow> int64" and u :: string where
  pull_failed:
    "is_max_version EV m \<Longrightarrow> cli_Pull c m s = (r, s1) \<Longrightarrow> \<not> is_ok r \<Longrightarrow>
     spec_sync c clk u (EV, s) (map_res (\<lambda>_. ()) r, EV, s1)"
| push_failed:
    "is_max_version EV m \<Longrightarrow> cli_Pull c m s = (Ok ses, s1) \<Longrightarrow>
     ids_in_order u (spec_pull ses EV) ids \<Longrightarrow>
     send_all c (List.map_filter (to_push clk (spec_pull ses EV)) ids) s1 = (r, s2) \<Longrightarrow> \<not> is_ok r \<Longrightarrow>
     spec_sync c clk u (EV, s) (r, spec_pull ses EV, s2)"
| completed:
    "is_max_version EV m \<Longrightarrow> cli_Pull c m s = (Ok ses, s1) \<Longrightarrow>
     ids_in_order u (spec_pull ses EV) ids \<Longrightarrow>
     send_all c (List.map_filter (to_push clk (spec_pull ses EV)) ids) s1 = (Ok (), s2) \<Longrightarrow>
     spec_delete c ids (spec_pull ses EV, s2) = res \<Longrightarrow>
     spec_sync c clk u (EV, s) res"

inductive_cases spec_syncE: "spec_sync c clk u EVs res"

section \<open>Refinement\<close>

context bolt_reliable
begin

lemma own_cells_Put:
  "entry_cell B d' = (entry_cell B d)(key u i \<mapsto> x) \<Longrightarrow> version_cell B d' = version_cell B d \<Longrightarrow>
     own_cells B u d' = ((fst (own_cells B u d))(i \<mapsto> x), snd (own_cells B u d))"
  by (auto simp: own_cells_def fun_eq_iff)

lemma own_cells_PutVersion:
  "version_cell B d' = (version_cell B d)(key u i \<mapsto> v) \<Longrightarrow> entry_cell B d' = entry_cell B d \<Longrightarrow>
     own_cells B u d' = (fst (own_cells B u d), (snd (own_cells B u d))(i \<mapsto> v))"
  by (auto simp: own_cells_def fun_eq_iff)

lemma own_cells_Delete:
  "entry_cell B d' = (entry_cell B d)(key u i := None) \<Longrightarrow> version_cell B d' = version_cell B d \<Longrightarrow>
     own_cells B u d' = ((fst (own_cells B u d))(i := None), snd (own_cells B u d))"
  by (auto simp: own_cells_def fun_eq_iff)

lemma own_cells_DeleteVersion:
  "version_cell B d' = (version_cell B d)(key u i := None) \<Longrightarrow> entry_cell B d' = entry_cell B d \<Longrightarrow>
     own_cells B u d' = (fst (own_cells B u d), (snd (own_cells B u d))(i := None))"
  by (auto simp: own_cells_def fun_eq_iff)

lemma pull_loop_spec:
  "usable B d \<Longrightarrow> \<forall>se \<in> set ses. fits u se \<Longrightarrow>
     \<exists>d'. pull_loop B LastWriteWins u ses d = (Ok (), d') \<and> usable B d' \<and>
       own_cells B u d' = spec_pull ses (own_cells B u d)"
proof (induction ses arbitrary: d)
  case (Cons se ses)
  obtain v where v: "drop_err 0 (GetVersion B d u (Id se)) = Ok v"
    using reads_usable(1) [OF Cons.prems(1), of u "Id se"]
    by (cases "snd (own_cells B u d) (Id se)") auto
  have w: "Resolve LastWriteWins (policy_local (Id se) v) (policy_remote se) =
      Ok (if 0 < sint (UpdatedAt se) then RemotePtr else LocalPtr)"
    by (simp add: lww_Resolve_def policy_local_def policy_remote_def)
  show ?case
  proof (cases "0 < sint (UpdatedAt se)")
    case False
    then show ?thesis using Cons.IH [OF Cons.prems(1)] Cons.prems(2) v w by simp
  next
    case True
    have f: "put_ok (key u (Id se)) (EncryptedData se)" using Cons.prems(2) by (simp add: fits_def)
    obtain d1 where 1: "Put B d u (Id se) (EncryptedData se) = (Ok (), d1)" "usable B d1"
      "own_cells B u d1 = ((fst (own_cells B u d))(Id se \<mapsto> EncryptedData se), snd (own_cells B u d))"
      using Put_usable [OF Cons.prems(1) f] own_cells_Put by metis
    obtain d2 where 2: "PutVersion B d1 u (Id se) (Version se) = (Ok (), d2)" "usable B d2"
      "own_cells B u d2 = (fst (own_cells B u d1), (snd (own_cells B u d1))(Id se \<mapsto> Version se))"
      using PutVersion_usable [OF 1(2) f] own_cells_PutVersion by metis
    show ?thesis using Cons.IH [OF 2(2)] Cons.prems(2) v w 1 2 True by simp
  qed
qed simp

lemma push_phase_spec:
  "usable B d \<Longrightarrow> push_phase B c clk u ids d s =
     send_all c (List.map_filter (to_push clk (own_cells B u d)) ids) s"
proof (induction ids arbitrary: s)
  case Nil
  then show ?case by (simp add: map_filter_simps)
next
  case (Cons i ids)
  obtain E V where EV: "own_cells B u d = (E, V)" by fastforce
  show ?case
    using Cons reads_usable [OF Cons.prems, of u i] EV
    by (cases "V i"; cases "E i") (auto simp: map_filter_simps to_push_def push_entry_def split: prod.split res.split)
qed

lemma delete_phase_spec:
  "usable B d \<Longrightarrow> \<exists>d'. usable B d' \<and>
     (case spec_delete c ids (own_cells B u d, s) of (r, EV, s') \<Rightarrow>
        delete_phase B c u ids (d, s) = (r, d', s') \<and> own_cells B u d' = EV)"
proof (induction ids arbitrary: d s)
  case Nil
  then show ?case by auto
next
  case (Cons i ids)
  note g = reads_usable(1) [OF Cons.prems, of u i]
  show ?case
  proof (cases "snd (own_cells B u d) i = Some (- 1)")
    case False
    then show ?thesis using Cons g by (cases "snd (own_cells B u d) i") auto
  next
    case True
    obtain q s1 where q: "cli_Delete c i (- 1) s = (q, s1)" by fastforce
    show ?thesis
    proof (cases q)
      case (Ok x)
      obtain d1 where 1: "Delete B d u i = (Ok (), d1)" "usable B d1"
        "own_cells B u d1 = ((fst (own_cells B u d))(i := None), snd (own_cells B u d))"
        using Delete_usable [OF Cons.prems] own_cells_Delete by metis
      obtain d2 where 2: "DeleteVersion B d1 u i = (Ok (), d2)" "usable B d2"
        "own_cells B u d2 = (fst (own_cells B u d1), (snd (own_cells B u d1))(i := None))"
        using DeleteVersion_usable [OF 1(2)] own_cells_DeleteVersion by metis
      show ?thesis using Cons.IH [OF 2(2), of s1] True g q Ok 1 2 by simp
    qed (use Cons.IH [OF Cons.prems, of s1] Cons.prems True g q in auto)
  qed
qed

lemma GetMaxVersion_spec:
  assumes "usable B d"
  obtains m where "GetMaxVersion B d u = Ok m" "is_max_version (own_cells B u d) m"
proof -
  have "sint ` ran (snd (own_cells B u d)) = {sint v | i v. version_cell B d (key u i) = Some v}"
    by (auto simp: own_cells_def ran_def)
  then show ?thesis
    using GetMaxVersion_cases [of d u] assms usable_view [OF assms] that
    by (auto simp: usable_def is_max_version_def)
qed

lemma List_spec:
  assumes "usable B d"
  obtains ids where "List B d u = Ok ids" "ids_in_order u (own_cells B u d) ids"
proof -
  have "dom (fst (own_cells B u d)) = ids_of (entry_cell B d) u"
    by (auto simp: own_cells_def ids_of_def)
  moreover have "store_ok B d" using assms by (simp add: usable_def)
  ultimately show ?thesis
    using that by (auto intro: List_reliable [OF _ usable_view [OF assms], of u] simp: ids_in_order_def)
qed

lemma FullSync_spec:
  assumes d: "usable B d"
    and fit: "\<And>v ses s'. cli_Pull \<lparr>sync = st, token_of = tok\<rparr> v s = (Ok ses, s') \<Longrightarrow> \<forall>se \<in> set ses. fits u se"
    and run: "FullSync B (Inr st) clk u tok (d, s) = (r, d', s')"
  shows "usable B d' \<and> spec_sync \<lparr>sync = st, token_of = tok\<rparr> clk u (own_cells B u d, s) (r, own_cells B u d', s')"
proof -
  let ?c = "\<lparr>sync = st, token_of = tok\<rparr>" and ?EV = "own_cells B u d"
  obtain m where m: "GetMaxVersion B d u = Ok m" "is_max_version ?EV m"
    using GetMaxVersion_spec [OF d] .
  have new: "NewResolver ''last-write-wins'' = Ok LastWriteWins"
    by (simp add: NewResolver_def PolicyLastWriteWins_def)
  obtain q s1 where q: "cli_Pull ?c m s = (q, s1)" by fastforce
  show ?thesis
  proof (cases q)
    case (Ok ses)
    note pull = q [unfolded Ok]
    obtain d2 where d2: "pull_loop B LastWriteWins u ses d = (Ok (), d2)" "usable B d2"
      "own_cells B u d2 = spec_pull ses ?EV"
      using pull_loop_spec [OF d fit [OF pull]] by blast
    obtain ids where ids: "List B d2 u = Ok ids" "ids_in_order u (spec_pull ses ?EV) ids"
      using List_spec [OF d2(2), of u] d2(3) by metis
    obtain r3 s3 where 3: "send_all ?c (List.map_filter (to_push clk (spec_pull ses ?EV)) ids) s1 = (r3, s3)"
      by fastforce
    have push: "push_phase B ?c clk u ids d2 s1 = (r3, s3)"
      using push_phase_spec [OF d2(2), of ?c clk u ids s1] d2(3) 3 by simp
    show ?thesis
    proof (cases "is_ok r3")
      case True
      then have "r3 = Ok ()" by (auto simp: is_ok_iff)
      obtain r4 EV4 s4 where 4: "spec_delete ?c ids (spec_pull ses ?EV, s3) = (r4, EV4, s4)"
        by (metis prod.collapse)
      then obtain d4 where d4: "usable B d4" "delete_phase B ?c u ids (d2, s3) = (r4, d4, s4)" "own_cells B u d4 = EV4"
        using delete_phase_spec [OF d2(2), where c = ?c and ids = ids and s = s3 and u = u] d2(3) by auto
      have "(r, d', s') = (r4, d4, s4)"
        using run m new pull d2 ids push d4 \<open>r3 = Ok ()\<close> by (simp add: FullSync_def Let_def)
      then show ?thesis
        using d4 spec_sync.completed [OF m(2) pull ids(2) 3 [unfolded \<open>r3 = Ok ()\<close>] 4] by simp
    next
      case False
      then have "(r, d', s') = (r3, d2, s3)"
        using run m new pull d2 ids push by (cases r3) (simp_all add: FullSync_def Let_def)
      then show ?thesis
        using d2 spec_sync.push_failed [OF m(2) pull ids(2) 3 False] by simp
    qed
  qed (use spec_sync.pull_failed [OF m(2) q, of clk u] run m new q d in
        \<open>auto simp: FullSync_def Let_def\<close>)
qed

end

end
