(* ===== verification/Remote.thy ===== *)
theory Remote
  imports SyncSpec
begin

text \<open>
  What a synchronisation relies on of the other side, as a locale: a table of rows that the
  three calls read and change on behalf of one user.  The laws are conditioned on what a call
  answers, and allow for an answer that is lost after the call took effect, so that they hold
  whatever the limiter, the token check and the network do; \<open>clock\<close> is what the other side's clock
  may show.  \<open>Server\<close> proves them for the
  server's own handlers behind the interceptor.
\<close>

section \<open>The interface\<close>

definition rows_since :: "string \<Rightarrow> int64 \<Rightarrow> entry_row list \<Rightarrow> entry_row list" where
  "rows_since u v rows =
     sort_key (\<lambda>r. sint (e_version r)) (filter (\<lambda>r. e_user r = u \<and> sint (e_version r) > sint v) rows)"

definition without :: "string \<Rightarrow> string \<Rightarrow> entry_row list \<Rightarrow> entry_row list" where
  "without u i rows = filter (\<lambda>r. row_key r \<noteq> (u, i)) rows"

locale sync_remote =
  fixes c :: "'s Client" and u :: string and table :: "'s \<Rightarrow> entry_row list" and clock :: "int set"
  assumes pull_ok: "cli_Pull c v s = (Ok ses, s') \<Longrightarrow> ses = map row_to_entry (rows_since u v (table s))"
    and pull_any: "table (snd (cli_Pull c v s)) = table s"
    and push_ok: "cli_Push c [e] s = (Ok (), s') \<Longrightarrow>
      \<exists>t \<in> clock. table s' = upsert_rows (entry_to_row u e t) (table s)"
    and push_any: "table (snd (cli_Push c [e] s)) = table s \<or>
      (\<exists>t. table (snd (cli_Push c [e] s)) = upsert_rows (entry_to_row u e t) (table s))"
    and delete_ok: "cli_Delete c i v s = (Ok (), s') \<Longrightarrow>
      table s' = without u i (table s) \<and> row_of (table s) u i \<noteq> None"
    and delete_any: "table (snd (cli_Delete c i v s)) = table s \<or>
      table (snd (cli_Delete c i v s)) = without u i (table s)"

section \<open>How a table grows\<close>

definition same_others :: "string \<Rightarrow> entry_row list \<Rightarrow> entry_row list \<Rightarrow> bool" where
  "same_others u T T' \<longleftrightarrow> (\<forall>u' i. u' \<noteq> u \<longrightarrow> row_of T' u' i = row_of T u' i)"

text \<open>The row of an id is there with at least a version.\<close>

definition at_least :: "entry_row list \<Rightarrow> string \<Rightarrow> string \<Rightarrow> int \<Rightarrow> bool" where
  "at_least T u i v \<longleftrightarrow> (\<exists>r. row_of T u i = Some r \<and> v \<le> sint (e_version r))"

lemma same_others_refl [simp]: "same_others u T T"
  by (simp add: same_others_def)

lemma same_others_trans: "same_others u T1 T2 \<Longrightarrow> same_others u T2 T3 \<Longrightarrow> same_others u T1 T3"
  by (simp add: same_others_def)

lemma same_others_upsert [simp]: "same_others u T (upsert_rows (entry_to_row u e t) T)"
  by (simp add: same_others_def row_of_upsert)

lemma same_others_without [simp]: "same_others u T (without u i T)"
  by (simp add: same_others_def without_def row_of_filter)

lemma at_least_upsert: "at_least T u i v \<Longrightarrow> at_least (upsert_rows r T) u i v"
  by (auto simp: at_least_def row_of_upsert newer_def split: option.splits)

lemma at_least_new: "at_least (upsert_rows (entry_to_row u e t) T) u (Id e) (sint (Version e))"
  by (auto simp: at_least_def row_of_upsert newer_def split: option.splits)

lemma at_least_without: "j \<noteq> i \<Longrightarrow> at_least (without u i T) u j v \<longleftrightarrow> at_least T u j v"
  by (simp add: at_least_def without_def row_of_filter)

context sync_remote
begin

lemma send_all_table:
  assumes "send_all c es s = (r, s')"
  shows "same_others u (table s) (table s') \<and>
    (\<forall>i v. at_least (table s) u i v \<longrightarrow> at_least (table s') u i v) \<and>
    (is_ok r \<longrightarrow> (\<forall>e \<in> set es. at_least (table s') u (Id e) (sint (Version e))))"
  using assms
proof (induction es arbitrary: s)
  case (Cons e es)
  obtain q s1 where q: "cli_Push c [e] s = (q, s1)" by fastforce
  have step: "same_others u (table s) (table s1)" "\<And>i v. at_least (table s) u i v \<Longrightarrow> at_least (table s1) u i v"
    using push_any [of e s] q at_least_upsert by auto
  show ?case
  proof (cases q)
    case (Ok x)
    obtain t where "table s1 = upsert_rows (entry_to_row u e t) (table s)"
      using push_ok [of e s s1] q Ok by auto
    then have "at_least (table s1) u (Id e) (sint (Version e))" by (simp add: at_least_new)
    then show ?thesis
      using Cons.IH [of s1] Cons.prems q Ok step same_others_trans by auto
  qed (use Cons.prems q step in auto)
qed simp

text \<open>The rows and the versions change only at tombstones.\<close>

lemma spec_delete_table:
  assumes "spec_delete c ids (EV, s) = (r, EV', s')"
  shows "same_others u (table s) (table s') \<and>
    (\<forall>i. snd EV i \<noteq> Some (- 1) \<longrightarrow>
       row_of (table s') u i = row_of (table s) u i \<and> fst EV' i = fst EV i \<and> snd EV' i = snd EV i) \<and>
    (\<forall>i. snd EV' i = snd EV i \<and> fst EV' i = fst EV i \<or>
       snd EV' i = None \<and> fst EV' i = None \<and> row_of (table s') u i = None)"
  using assms
proof (induction ids arbitrary: EV s)
  case (Cons j ids)
  show ?case
  proof (cases "snd EV j = Some (- 1)")
    case False
    then show ?thesis using Cons by simp
  next
    case True
    obtain q s1 where q: "cli_Delete c j (- 1) s = (q, s1)" by fastforce
    have any: "table s1 = table s \<or> table s1 = without u j (table s)"
      using delete_any [of j "- 1" s] q by simp
    have step: "same_others u (table s) (table s1)"
      "\<And>i. i \<noteq> j \<Longrightarrow> row_of (table s1) u i = row_of (table s) u i"
      using any same_others_without [of u "table s" j] by (auto simp: without_def row_of_filter)
    show ?thesis
    proof (cases q)
      case (Ok x)
      let ?EV = "((fst EV)(j := None), (snd EV)(j := None))"
      have run: "spec_delete c ids (?EV, s1) = (r, EV', s')" using Cons.prems True q Ok by simp
      note IH = Cons.IH [OF run]
      have "row_of (table s1) u j = None"
        using delete_ok [of j "- 1" s s1] q Ok by (auto simp: without_def row_of_filter)
      then have j: "fst EV' j = None \<and> snd EV' j = None \<and> row_of (table s') u j = None" using IH by auto
      show ?thesis
      proof (intro conjI allI impI)
        show "same_others u (table s) (table s')" using IH step same_others_trans by blast
      next
        fix i assume i: "snd EV i \<noteq> Some (- 1)"
        then have "i \<noteq> j" using True by auto
        then show "row_of (table s') u i = row_of (table s) u i" "fst EV' i = fst EV i" "snd EV' i = snd EV i"
          using IH i step(2) by auto
      next
        fix i
        show "snd EV' i = snd EV i \<and> fst EV' i = fst EV i \<or>
          snd EV' i = None \<and> fst EV' i = None \<and> row_of (table s') u i = None"
          using spec [OF conjunct2 [OF conjunct2 [OF IH]], of i] j by (cases "i = j") auto
      qed
    next
      case (Err e)
      then have run: "spec_delete c ids (EV, s1) = (r, EV', s')" using Cons.prems True q by simp
      note IH = Cons.IH [OF run]
      show ?thesis
      proof (intro conjI allI impI)
        show "same_others u (table s) (table s')" using IH step same_others_trans by blast
      next
        fix i assume i: "snd EV i \<noteq> Some (- 1)"
        then have "i \<noteq> j" using True by auto
        then show "row_of (table s') u i = row_of (table s) u i" "fst EV' i = fst EV i" "snd EV' i = snd EV i"
          using IH i step(2) by auto
      next
        fix i show "snd EV' i = snd EV i \<and> fst EV' i = fst EV i \<or>
          snd EV' i = None \<and> fst EV' i = None \<and> row_of (table s') u i = None"
          using spec [OF conjunct2 [OF conjunct2 [OF IH]], of i] .
      qed
    next
      case Panic
      have "row_of (table s1) u i = row_of (table s) u i" if "snd EV i \<noteq> Some (- 1)" for i
        using that True step(2) by metis
      then show ?thesis using Cons.prems True q step(1) Panic by auto
    next
      case Hang
      have "row_of (table s1) u i = row_of (table s) u i" if "snd EV i \<noteq> Some (- 1)" for i
        using that True step(2) by metis
      then show ?thesis using Cons.prems True q step(1) Hang by auto
    qed
  qed
qed auto

end

section \<open>The pull phase against the table\<close>

lemma row_to_entry_sel [simp]:
  "Id (row_to_entry r) = e_entry r" "Version (row_to_entry r) = e_version r"
  "EncryptedData (row_to_entry r) = e_data r"
  by (simp_all add: row_to_entry_def)

lemma set_rows_since:
  "r \<in> set (rows_since u v rows) \<longleftrightarrow> r \<in> set rows \<and> e_user r = u \<and> sint v < sint (e_version r)"
  by (auto simp: rows_since_def)

text \<open>A row the server dates after the epoch, within the range of its 64-bit seconds.\<close>

definition dated :: "entry_row \<Rightarrow> bool" where
  "dated r \<longleftrightarrow> 0 < sint (UpdatedAt (row_to_entry r))"

text \<open>
  A pulled entry overwrites the local one, whatever was there; ids the server does not send
  are left alone.
\<close>

lemma spec_pull_other:
  "i \<notin> Id ` set ses \<Longrightarrow> fst (spec_pull ses EV) i = fst EV i \<and> snd (spec_pull ses EV) i = snd EV i"
  by (induction ses EV rule: spec_pull.induct) auto

lemma spec_pull_last:
  assumes "distinct (map Id ses)" and "se \<in> set ses" and "0 < sint (UpdatedAt se)"
  shows "fst (spec_pull ses EV) (Id se) = Some (EncryptedData se) \<and>
         snd (spec_pull ses EV) (Id se) = Some (Version se)"
  using assms
proof (induction ses EV rule: spec_pull.induct)
  case (2 se' ses EV)
  show ?case
  proof (cases "se = se'")
    case True
    then have "Id se \<notin> Id ` set ses" using 2(2) by auto
    then show ?thesis using True 2(4) by (simp add: spec_pull_other)
  next
    case False
    then show ?thesis using 2 by auto
  qed
qed simp

lemma distinct_pulled:
  assumes "distinct (map row_key rows)"
  shows "distinct (map Id (map row_to_entry (rows_since u v rows)))"
proof -
  let ?P = "\<lambda>r. e_user r = u \<and> sint v < sint (e_version r)"
  have "inj_on e_entry (set (filter ?P rows))"
  proof (rule inj_onI)
    fix x y assume "x \<in> set (filter ?P rows)" "y \<in> set (filter ?P rows)" "e_entry x = e_entry y"
    then have "row_key x = row_key y" "x \<in> set rows" "y \<in> set rows" by (auto simp: row_key_def)
    then show "x = y" using assms by (auto simp: distinct_map dest: inj_onD)
  qed
  moreover have "distinct rows" using assms by (simp add: distinct_map)
  ultimately show ?thesis by (simp add: rows_since_def distinct_map comp_def)
qed

lemma pulled_row:
  assumes "distinct (map row_key rows)" and "row_of rows u i = Some r"
    and "sint v < sint (e_version r)" and "dated r"
  shows "fst (spec_pull (map row_to_entry (rows_since u v rows)) EV) i = Some (e_data r) \<and>
         snd (spec_pull (map row_to_entry (rows_since u v rows)) EV) i = Some (e_version r)"
proof -
  have r: "r \<in> set rows" "e_user r = u" "e_entry r = i" using row_of_Some [OF assms(2)] by auto
  then have "row_to_entry r \<in> set (map row_to_entry (rows_since u v rows))"
    using assms(3) by (auto simp: set_rows_since)
  from spec_pull_last [OF distinct_pulled [OF assms(1)] this] assms(4) r(3)
  show ?thesis by (simp add: dated_def)
qed

lemma unpulled_row:
  assumes "\<And>r. row_of rows u i = Some r \<Longrightarrow> sint (e_version r) \<le> sint v" and "distinct (map row_key rows)"
  shows "fst (spec_pull (map row_to_entry (rows_since u v rows)) EV) i = fst EV i \<and>
         snd (spec_pull (map row_to_entry (rows_since u v rows)) EV) i = snd EV i"
proof (rule spec_pull_other)
  show "i \<notin> Id ` set (map row_to_entry (rows_since u v rows))"
  proof
    assume "i \<in> Id ` set (map row_to_entry (rows_since u v rows))"
    then obtain r where r: "r \<in> set rows" "e_user r = u" "sint v < sint (e_version r)" "e_entry r = i"
      by (auto simp: set_rows_since)
    then have "row_of rows u i = Some r" using row_of_member [OF assms(2) r(1)] by simp
    then show False using assms(1) r(3) by fastforce
  qed
qed

section \<open>A completed synchronisation\<close>

lemma map_filter_set: "x \<in> set (List.map_filter f xs) \<longleftrightarrow> (\<exists>y \<in> set xs. f y = Some x)"
  by (induction xs) (auto simp: map_filter_simps split: option.split)

lemma max_version_bound:
  assumes "is_max_version EV m" and "finite (ran (snd EV))" and "snd EV i = Some v"
  shows "sint v \<le> sint m" and "0 \<le> sint m"
  using assms by (auto simp: is_max_version_def intro!: Max_ge ranI)

context sync_remote
begin

text \<open>
  Everything a completed synchronisation promises, for a user known locally as \<open>n\<close> and to the
  server as \<open>u\<close>: other users' rows are untouched; a local
  entry with a version of its own is on the server with at least that version; and an entry
  that is no tombstone is, locally, the server's when the server's is newer than every local
  version, and otherwise what it was.
\<close>

lemma completed_sync:
  assumes "spec_sync c clk n (EV, s) (Ok (), EV', s')" and rows: "distinct (map row_key (table s))"
  obtains m where "is_max_version EV m"
    and "same_others u (table s) (table s')"
    and "\<And>i x v. fst EV' i = Some x \<Longrightarrow> snd EV' i = Some v \<Longrightarrow> v \<noteq> 0 \<Longrightarrow> v \<noteq> - 1 \<Longrightarrow> at_least (table s') u i (sint v)"
    and "\<And>i r. row_of (table s) u i = Some r \<Longrightarrow> sint m < sint (e_version r) \<Longrightarrow> dated r \<Longrightarrow>
      fst EV' i = Some (e_data r) \<and> snd EV' i = Some (e_version r) \<and> at_least (table s') u i (sint (e_version r))"
    and "\<And>i. (\<And>r. row_of (table s) u i = Some r \<Longrightarrow> sint (e_version r) \<le> sint m) \<Longrightarrow> snd EV i \<noteq> Some (- 1) \<Longrightarrow>
      fst EV' i = fst EV i \<and> snd EV' i = snd EV i"
  using assms(1)
proof (cases rule: spec_sync.cases)
  case (completed m ses s1 ids s2)
  let ?EV = "spec_pull ses EV"
  have ses: "ses = map row_to_entry (rows_since u m (table s))" using pull_ok [OF completed(2)] .
  have s1: "table s1 = table s" using pull_any [of m s] completed(2) by simp
  note send = send_all_table [OF completed(4)] and del = spec_delete_table [OF completed(5)]
  show thesis
  proof (rule that [OF completed(1)])
    show "same_others u (table s) (table s')"
      using send del s1 same_others_trans by metis
  next
    fix i x v assume x: "fst EV' i = Some x" and v: "snd EV' i = Some v" "v \<noteq> 0" "v \<noteq> - 1"
    have E: "fst ?EV i = Some x" "snd ?EV i = Some v"
      using spec [OF conjunct2 [OF conjunct2 [OF del]], of i] x v by auto
    then have "i \<in> set ids" using completed(3) by (auto simp: ids_in_order_def)
    then have "push_entry i x v (clk i) \<in> set (List.map_filter (to_push clk ?EV) ids)"
      using E v by (auto simp: map_filter_set to_push_def intro!: bexI [of _ i])
    then have "at_least (table s2) u i (sint v)" using send by (fastforce simp: push_entry_def)
    moreover have "row_of (table s') u i = row_of (table s2) u i" using del E v(3) by auto
    ultimately show "at_least (table s') u i (sint v)" by (simp add: at_least_def)
  next
    fix i r assume r: "row_of (table s) u i = Some r" "sint m < sint (e_version r)" "dated r"
    have E: "fst ?EV i = Some (e_data r)" "snd ?EV i = Some (e_version r)"
      using pulled_row [OF rows r] ses by auto
    have "0 \<le> sint m" using completed(1) by (simp add: is_max_version_def)
    then have "e_version r \<noteq> - 1" using r(2) by auto
    then have n: "snd ?EV i \<noteq> Some (- 1)" using E by simp
    have "at_least (table s1) u i (sint (e_version r))" using r(1) s1 by (simp add: at_least_def)
    then have "at_least (table s') u i (sint (e_version r))"
      using send del n by (simp add: at_least_def)
    then show "fst EV' i = Some (e_data r) \<and> snd EV' i = Some (e_version r) \<and>
        at_least (table s') u i (sint (e_version r))"
      using del n E by simp
  next
    fix i assume "\<And>r. row_of (table s) u i = Some r \<Longrightarrow> sint (e_version r) \<le> sint m" "snd EV i \<noteq> Some (- 1)"
    then show "fst EV' i = fst EV i \<and> snd EV' i = snd EV i"
      using unpulled_row [of "table s" u i m EV] rows ses del by simp
  qed
qed (auto dest!: arg_cong [of _ _ is_ok])

section \<open>A new entry\<close>

text \<open>
  An entry for an id that the other side has no row of becomes its row, with the ciphertext and
  the version it has locally, and stays what it was locally.
\<close>

lemma send_all_new:
  assumes "send_all c es s = (Ok (), s')" and "\<And>e'. e' \<in> set es \<Longrightarrow> Id e' = Id e \<Longrightarrow> e' = e"
    and "row_of (table s) u (Id e) = None \<and> e \<in> set es \<or>
      (\<exists>t \<in> clock. row_of (table s) u (Id e) = Some (entry_to_row u e t))"
  shows "\<exists>t \<in> clock. row_of (table s') u (Id e) = Some (entry_to_row u e t)"
  using assms
proof (induction es arbitrary: s)
  case (Cons a es)
  obtain s1 where q: "cli_Push c [a] s = (Ok (), s1)" and rest: "send_all c es s1 = (Ok (), s')"
    using Cons.prems(1) by (auto split: prod.splits res.splits)
  obtain t where t: "t \<in> clock" "table s1 = upsert_rows (entry_to_row u a t) (table s)" using push_ok [OF q] by blast
  have "row_of (table s1) u (Id e) = None \<and> e \<in> set es \<or>
      (\<exists>t \<in> clock. row_of (table s1) u (Id e) = Some (entry_to_row u e t))"
  proof (cases "a = e")
    case True
    then show ?thesis using Cons.prems(3) t by (auto simp: row_of_upsert newer_def)
  next
    case False
    then have "Id a \<noteq> Id e" using Cons.prems(2) [of a] by auto
    then show ?thesis using Cons.prems(3) False t(2) by (auto simp: row_of_upsert)
  qed
  then show ?case using Cons.IH [OF rest] Cons.prems(2) by simp
qed simp

lemma new_entry_sent:
  assumes "spec_sync c clk n (EV, s) (Ok (), EV', s')" and "distinct (map row_key (table s))"
    and "row_of (table s) u i = None" and "fst EV i = Some x" "snd EV i = Some v" "v \<noteq> 0" "v \<noteq> - 1"
  shows "\<exists>t \<in> clock. row_of (table s') u i = Some (entry_to_row u (push_entry i x v (clk i)) t)"
  using assms(1)
proof (cases rule: spec_sync.cases)
  case (completed m ses s1 ids s2)
  let ?EV = "spec_pull ses EV" and ?e = "push_entry i x v (clk i)"
  have ses: "ses = map row_to_entry (rows_since u m (table s))" using pull_ok [OF completed(2)] .
  have s1: "table s1 = table s" using pull_any [of m s] completed(2) by simp
  have E: "fst ?EV i = Some x" "snd ?EV i = Some v"
    using unpulled_row [OF _ assms(2), of u i m EV] assms(3-5) ses by auto
  then have "i \<in> set ids" "to_push clk ?EV i = Some ?e"
    using completed(3) assms(6,7) by (auto simp: ids_in_order_def to_push_def)
  then have mem: "?e \<in> set (List.map_filter (to_push clk ?EV) ids)" by (auto simp: map_filter_set)
  have only: "e' = ?e" if "e' \<in> set (List.map_filter (to_push clk ?EV) ids)" "Id e' = Id ?e" for e'
  proof -
    have "\<exists>j. to_push clk ?EV j = Some e'" using that(1) by (auto simp: map_filter_set)
    then obtain j where j: "to_push clk ?EV j = Some e'" ..
    then have "j = i" using that(2) by (auto simp: to_push_def push_entry_def split: option.splits if_splits)
    then show ?thesis using j \<open>to_push clk ?EV i = Some ?e\<close> by simp
  qed
  have i: "Id ?e = i" by (simp add: push_entry_def)
  have "row_of (table s1) u (Id ?e) = None" using assms(3) s1 i by simp
  then have "\<exists>t \<in> clock. row_of (table s2) u (Id ?e) = Some (entry_to_row u ?e t)"
    using mem by (intro send_all_new [OF completed(4) only] disjI1 conjI)
  then have "\<exists>t \<in> clock. row_of (table s2) u i = Some (entry_to_row u ?e t)" by (simp only: i)
  moreover have "row_of (table s') u i = row_of (table s2) u i"
    using spec_delete_table [OF completed(5)] E(2) assms(7) by auto
  ultimately show ?thesis by simp
qed (auto dest!: arg_cong [of _ _ is_ok])

section \<open>Quiescence\<close>

text \<open>Where a row comes from after the push phase.\<close>

lemma send_all_source:
  assumes "send_all c es s = (r, s')" and "row_of (table s') u i = Some x"
  shows "row_of (table s) u i = Some x \<or> (\<exists>e \<in> set es. Id e = i \<and> e_version x = Version e)"
  using assms
proof (induction es arbitrary: s)
  case (Cons e es)
  obtain q s1 where q: "cli_Push c [e] s = (q, s1)" by fastforce
  have step: "row_of (table s) u i = Some x \<or> Id e = i \<and> e_version x = Version e"
    if "row_of (table s1) u i = Some x"
    using push_any [of e s] q that
    by (auto simp: row_of_upsert newer_def split: if_splits option.splits)
  show ?case
  proof (cases q)
    case (Ok y)
    then show ?thesis using Cons.IH [of s1] Cons.prems q step by auto
  qed (use Cons.prems q step in auto)
qed simp

lemma spec_delete_shrinks:
  assumes "spec_delete c ids (EV, s) = (r, EV', s')" and "row_of (table s') u i = Some x"
  shows "row_of (table s) u i = Some x"
  using assms
proof (induction ids arbitrary: EV s)
  case (Cons j ids)
  show ?case
  proof (cases "snd EV j = Some (- 1)")
    case True
    obtain q s1 where q: "cli_Delete c j (- 1) s = (q, s1)" by fastforce
    have "row_of (table s) u i = Some x" if "row_of (table s1) u i = Some x"
      using delete_any [of j "- 1" s] q that by (auto simp: without_def row_of_filter split: if_splits)
    then show ?thesis using Cons True q by (cases q) auto
  qed (use Cons in simp)
qed simp

lemma max_version_grows:
  assumes "is_max_version EV m" "is_max_version EV' m'" "finite (dom (snd EV))" "finite (dom (snd EV'))"
    and "\<And>i v. snd EV i = Some v \<Longrightarrow> 0 < sint v \<Longrightarrow> \<exists>v'. snd EV' i = Some v' \<and> sint v \<le> sint v'"
  shows "sint m \<le> sint m'"
proof -
  have fin: "finite (ran (snd EV))" "finite (ran (snd EV'))" using assms(3,4) by (auto intro: finite_ran)
  have "0 \<le> sint m'" using assms(2) fin by (simp add: is_max_version_def)
  have "sint m \<in> insert 0 (sint ` ran (snd EV))"
    using assms(1) fin Max_in [of "insert 0 (sint ` ran (snd EV))"] by (simp add: is_max_version_def)
  then consider "sint m = 0" | i v where "snd EV i = Some v" "sint m = sint v"
    by (auto simp: ran_def)
  then show ?thesis
  proof cases
    case 2
    show ?thesis
    proof (cases "0 < sint v")
      case True
      then obtain v' where "snd EV' i = Some v'" "sint v \<le> sint v'" using assms(5) 2 by blast
      then show ?thesis using max_version_bound(1) [OF assms(2) fin(2)] 2 by fastforce
    qed (use 2 \<open>0 \<le> sint m'\<close> in simp)
  qed (use \<open>0 \<le> sint m'\<close> in simp)
qed

text \<open>
  After a completed synchronisation the next pull finds nothing: no row of the user is newer
  than the highest local version.
\<close>

lemma next_pull_empty:
  assumes "spec_sync c clk n (EV, s) (Ok (), EV', s')" and rows: "distinct (map row_key (table s))"
    and fin: "finite (dom (snd EV))" "finite (dom (snd EV'))"
    and dat: "\<And>r. r \<in> set (table s) \<Longrightarrow> e_user r = u \<Longrightarrow> dated r"
    and m': "is_max_version EV' m'" and x: "row_of (table s') u i = Some x"
  shows "sint (e_version x) \<le> sint m'"
  using assms(1)
proof (cases rule: spec_sync.cases)
  case (completed m ses s1 ids s2)
  let ?EV = "spec_pull ses EV"
  have ses: "ses = map row_to_entry (rows_since u m (table s))" using pull_ok [OF completed(2)] .
  have s1: "table s1 = table s" using pull_any [of m s] completed(2) by simp
  note del = spec_delete_table [OF completed(5)]
  have fin': "finite (ran (snd EV'))" using fin(2) by (rule finite_ran)
  have bound: "sint v \<le> sint m'" if "snd EV' i = Some v" for i v
    using max_version_bound(1) [OF m' fin' that] .
  have nonneg: "0 \<le> sint m" using completed(1) finite_ran [OF fin(1)] by (simp add: is_max_version_def)
  have pulled: "snd ?EV i = Some (e_version r)" if "row_of (table s) u i = Some r" "sint m < sint (e_version r)" for i r
  proof -
    have "dated r" using row_of_Some [OF that(1)] dat by blast
    then show ?thesis using pulled_row [OF rows that] ses by simp
  qed
  have keep: "snd EV' i = Some v" if "snd ?EV i = Some v" "v \<noteq> - 1" for i v
    using del that by simp
  have grows: "\<exists>v'. snd EV' i = Some v' \<and> sint v \<le> sint v'" if v: "snd EV i = Some v" "0 < sint v" for i v
  proof (cases "\<exists>r. row_of (table s) u i = Some r \<and> sint m < sint (e_version r)")
    case True
    then obtain r where r: "row_of (table s) u i = Some r" "sint m < sint (e_version r)" by blast
    have "sint v \<le> sint m" using max_version_bound(1) [OF completed(1) finite_ran [OF fin(1)] v(1)] .
    moreover have "e_version r \<noteq> - 1" using r(2) nonneg by auto
    then have "snd EV' i = Some (e_version r)" using keep [OF pulled [OF r]] by blast
    ultimately show ?thesis using r(2) by auto
  next
    case False
    then have "snd ?EV i = Some v" using unpulled_row [of "table s" u i m EV] rows ses v(1) by force
    then have "snd EV' i = Some v" using v(2) by (intro keep) auto
    then show ?thesis by blast
  qed
  have mm: "sint m \<le> sint m'" using max_version_grows [OF completed(1) m' fin] grows by blast
  have old: "sint (e_version x) \<le> sint m'" if "row_of (table s) u i = Some x"
  proof (cases "sint m < sint (e_version x)")
    case True
    then have "e_version x \<noteq> - 1" using nonneg by auto
    then have "snd EV' i = Some (e_version x)" using keep [OF pulled [OF that True]] by blast
    then show ?thesis by (rule bound)
  qed (use mm in simp)
  have new: "sint (e_version x) \<le> sint m'"
    if "e \<in> set (List.map_filter (to_push clk ?EV) ids)" "Id e = i" "e_version x = Version e" for e
  proof -
    have "\<exists>j. to_push clk ?EV j = Some e" using that(1) by (auto simp: map_filter_set)
    then obtain j where "to_push clk ?EV j = Some e" ..
    then have "snd ?EV i = Some (Version e)" "Version e \<noteq> - 1"
      using that(2) by (auto simp: to_push_def push_entry_def split: option.splits if_splits)
    from bound [OF keep [OF this]] that(3) show ?thesis by simp
  qed
  have "row_of (table s2) u i = Some x"
    using spec_delete_shrinks [OF completed(5) x] .
  from send_all_source [OF completed(4) this, unfolded s1] show ?thesis
    using old new by (elim disjE bexE conjE) blast+
qed (auto dest!: arg_cong [of _ _ is_ok])

end

end
