(* ===== verification/Server.thy ===== *)
theory Server
  imports Remote AuthServer
begin

text \<open>
  The server put together as \<open>cmd/server/main.go\<close> does: every call goes through the
  interceptor to a handler of the two services, over one limiter and one database; and the
  connection a client holds to it.  The server's clock readings and the failures of the
  database and of the network are arguments, one record per call.
\<close>

section \<open>Calls through the interceptor\<close>

record rpc_env =
  re_rl :: int
  re_jwt :: int
  re_fl :: "nat \<Rightarrow> error option"
  re_clk :: "nat \<Rightarrow> int"
  re_unreach :: "error option"
  re_lost :: "error option"

definition push_method :: string where
  "push_method = ''/gophkeeper.sync.Sync/Push''"

definition pull_method :: string where
  "pull_method = ''/gophkeeper.sync.Sync/Pull''"

definition delete_method :: string where
  "delete_method = ''/gophkeeper.sync.Sync/Delete''"

definition refresh_method :: string where
  "refresh_method = ''/gophkeeper.auth.Auth/RefreshToken''"

definition on_db :: "(pg \<Rightarrow> 'r res \<times> pg) \<Rightarrow> server \<Rightarrow> 'r res \<times> server" where
  "on_db f s = (case f (database s) of (r, db) \<Rightarrow> (r, s\<lparr>database := db\<rparr>))"

definition serve_Push ::
  "jwt_lib \<Rightarrow> Manager \<Rightarrow> rpc_env \<Rightarrow> pb_entry list \<Rightarrow> call_ctx \<Rightarrow> server \<Rightarrow> unit res \<times> server" where
  "serve_Push J m env es =
     UnaryAuthInterceptor J m (re_rl env) (re_jwt env) push_method
       (\<lambda>ctx. on_db (srv_Push (re_fl env) (re_clk env) (UserIDFromContext ctx) es))"

definition serve_Pull ::
  "jwt_lib \<Rightarrow> Manager \<Rightarrow> rpc_env \<Rightarrow> int64 \<Rightarrow> call_ctx \<Rightarrow> server \<Rightarrow> pb_entry list res \<times> server" where
  "serve_Pull J m env since =
     UnaryAuthInterceptor J m (re_rl env) (re_jwt env) pull_method
       (\<lambda>ctx. on_db (\<lambda>db. (srv_Pull (re_fl env) (UserIDFromContext ctx) since db, db)))"

definition serve_Delete ::
  "jwt_lib \<Rightarrow> Manager \<Rightarrow> rpc_env \<Rightarrow> string \<Rightarrow> int64 \<Rightarrow> call_ctx \<Rightarrow> server \<Rightarrow> unit res \<times> server" where
  "serve_Delete J m env i v =
     UnaryAuthInterceptor J m (re_rl env) (re_jwt env) delete_method
       (\<lambda>ctx. on_db (srv_Delete (re_fl env) (UserIDFromContext ctx) i v))"

definition serve_Register ::
  "jwt_lib \<Rightarrow> Manager \<Rightarrow> rpc_env \<Rightarrow> auth_env \<Rightarrow> string \<Rightarrow> bytes \<Rightarrow> call_ctx \<Rightarrow> server \<Rightarrow> string res \<times> server" where
  "serve_Register J m env ae login sec =
     UnaryAuthInterceptor J m (re_rl env) (re_jwt env) register_method
       (\<lambda>ctx. srv_Register ae login sec)"

definition serve_Login ::
  "jwt_lib \<Rightarrow> Manager \<Rightarrow> rpc_env \<Rightarrow> auth_env \<Rightarrow> string \<Rightarrow> call_ctx \<Rightarrow> server \<Rightarrow> LoginResponse res \<times> server" where
  "serve_Login J m env ae login =
     UnaryAuthInterceptor J m (re_rl env) (re_jwt env) login_method (\<lambda>ctx. srv_Login J m ae login)"

definition serve_RefreshToken ::
  "jwt_lib \<Rightarrow> Manager \<Rightarrow> rpc_env \<Rightarrow> auth_env \<Rightarrow> string \<Rightarrow> call_ctx \<Rightarrow> server \<Rightarrow> (string \<times> string) res \<times> server" where
  "serve_RefreshToken J m env ae tok =
     UnaryAuthInterceptor J m (re_rl env) (re_jwt env) refresh_method (\<lambda>ctx. srv_RefreshToken J m ae tok)"

section \<open>A connection\<close>

text \<open>
  The world of a connection is the server and the number of calls made so far.  A call may not
  reach the server, and its answer may be lost.
\<close>

record world =
  srv :: server
  calls :: nat

definition net_call ::
  "(nat \<Rightarrow> rpc_env) \<Rightarrow> string \<Rightarrow> metadata \<Rightarrow> (rpc_env \<Rightarrow> call_ctx \<Rightarrow> server \<Rightarrow> 'r res \<times> server) \<Rightarrow>
   world \<Rightarrow> 'r res \<times> world" where
  "net_call envs peer md h w =
     (let env = envs (calls w); w1 = w\<lparr>calls := Suc (calls w)\<rparr> in
      case re_unreach env of
        Some e \<Rightarrow> (Err e, w1)
      | None \<Rightarrow>
          (case h env \<lparr>c_peer = Some peer, c_md = Some md, c_user = None\<rparr> (srv w) of
             (r, s') \<Rightarrow>
               (case re_lost env of
                  Some e \<Rightarrow> (Err e, w1\<lparr>srv := s'\<rparr>)
                | None \<Rightarrow> (r, w1\<lparr>srv := s'\<rparr>))))"

definition net_stub :: "jwt_lib \<Rightarrow> Manager \<Rightarrow> (nat \<Rightarrow> rpc_env) \<Rightarrow> string \<Rightarrow> world sync_stub" where
  "net_stub J m envs peer = \<lparr>
     stub_Push = (\<lambda>md es. net_call envs peer md (\<lambda>env. serve_Push J m env es)),
     stub_Pull = (\<lambda>md v. net_call envs peer md (\<lambda>env. serve_Pull J m env v)),
     stub_Delete = (\<lambda>md i v. net_call envs peer md (\<lambda>env. serve_Delete J m env i v)) \<rparr>"

definition net_client :: "jwt_lib \<Rightarrow> Manager \<Rightarrow> (nat \<Rightarrow> rpc_env) \<Rightarrow> string \<Rightarrow> string \<Rightarrow> world Client" where
  "net_client J m envs peer tok = \<lparr>sync = net_stub J m envs peer, token_of = tok\<rparr>"

definition table_of :: "world \<Rightarrow> entry_row list" where
  "table_of w = entries_tab (database (srv w))"

section \<open>The gate\<close>

text \<open>A handler that only sees the database cannot change it without a token that validates.\<close>

lemma gate:
  assumes "jwt J verified" and "fm \<noteq> register_method" "fm \<noteq> login_method"
    and run: "UnaryAuthInterceptor J m t1 t2 fm (\<lambda>ctx. on_db (f (UserIDFromContext ctx))) ctx s = (r, s')"
  obtains (refused) "database s' = database s" "\<exists>e. r = Err e"
  | (passed) md tok toks u where "c_md ctx = Some md" "md_Get md ''authorization'' = tok # toks"
      "ValidateToken J m t2 (strip_bearer tok) = Ok u" "(r, database s') = f (Some u) (database s)"
proof (cases rule: interceptor_cases [OF assms(1) run])
  case 1
  then show ?thesis using that(1) by simp
next
  case 2
  then show ?thesis using assms(2,3) by simp
next
  case (3 msg)
  then show ?thesis using that(1) by simp
next
  case (4 md tok toks u)
  then show ?thesis
    using that(2) [OF 4(4,5,6)]
    by (simp add: on_db_def UserIDFromContext_def split: prod.splits)
qed

lemma gate_refuses:
  assumes "jwt J verified" and "c_md ctx = Some md"
    and "\<And>tok toks u. md_Get md ''authorization'' = tok # toks \<Longrightarrow> ValidateToken J m t2 (strip_bearer tok) \<noteq> Ok u"
    and "UnaryAuthInterceptor J m t1 t2 fm (\<lambda>ctx. on_db (f (UserIDFromContext ctx))) ctx s = (r, s')"
    and "fm \<noteq> register_method" "fm \<noteq> login_method"
  shows "(\<exists>e. r = Err e) \<and> database s' = database s"
  using gate [OF assms(1,5,6,4)] assms(2,3) by fastforce

section \<open>The user a token stands for\<close>

definition claimed_user :: "jwt_lib \<Rightarrow> string \<Rightarrow> string" where
  "claimed_user J tok =
     (case ParseUnverified J tok of
        Ok t \<Rightarrow> (case Claims t of
                   Some c \<Rightarrow> (case c ''sub'' of Some (CStr u) \<Rightarrow> u | _ \<Rightarrow> '''')
                 | None \<Rightarrow> '''')
      | _ \<Rightarrow> '''')"

text \<open>The token the server reads from the client's metadata.\<close>

definition sent_token :: "string \<Rightarrow> string" where
  "sent_token tok = strip_bearer (''Bearer '' @ tok)"

lemma md_Get_bearer [simp]: "md_Get (bearer tok) ''authorization'' = [''Bearer '' @ tok]"
  by (simp add: md_Get_def bearer_def)

section \<open>The handlers, for one user\<close>

lemma srv_Push_one:
  assumes "(r, db') = srv_Push fl clk (Some u) [e] db"
  shows "r = Ok () \<and> entries_tab db' = upsert_rows (entry_to_row u e (clk 0)) (entries_tab db) \<or>
         \<not> is_ok r \<and> entries_tab db' = entries_tab db"
  using assms sql_upsert_cases [of "fl 0" db "entry_to_row u e (clk 0)"]
  by (auto simp: srv_Push_def split: res.splits)

lemma srv_Pull_rows:
  "srv_Pull fl (Some u) v db = Ok ses \<Longrightarrow> ses = map row_to_entry (rows_since u v (entries_tab db))"
  by (auto simp: srv_Pull_def sql_select_since_def rows_since_def split: option.splits if_splits)

lemma srv_Delete_rows:
  assumes "(r, db') = srv_Delete fl (Some u) i v db"
  shows "entries_tab db' = without u i (entries_tab db) \<and> (r = Ok () \<longrightarrow> row_of (entries_tab db) u i \<noteq> None) \<or>
         \<not> is_ok r \<and> entries_tab db' = entries_tab db"
proof -
  have "row_of rows u i \<noteq> None" if "length (filter (\<lambda>r. row_key r = (u, i)) rows) \<noteq> 0" for rows
    using that by (auto simp: row_of_def find_None_iff filter_empty_conv)
  then show ?thesis using assms
    by (auto simp: srv_Delete_def sql_delete_entry_def without_def split: option.splits if_splits)
qed

context jwt
begin

lemma validate_claimed:
  assumes "ValidateToken J m now s = Ok u"
  shows "u = claimed_user J s"
proof -
  obtain tok where tok: "Parse J (key_func m) now s = Ok tok" "Valid tok"
    using assms by (auto simp: ValidateToken_def split: res.splits option.splits if_splits)
  from parse [OF tok(1)] obtain v where "ParseUnverified J s = Ok v" "tok = v\<lparr>Valid := True\<rparr>" by blast
  then show ?thesis using assms tok
    by (auto simp: ValidateToken_def claimed_user_def split: option.splits)
qed

text \<open>A call with a bearer token: nothing happened to the database, or the user's handler ran.\<close>

lemma net_call_cases:
  assumes "net_call envs peer (bearer tok) h w = (r, w')"
    and h: "\<And>env. h env = UnaryAuthInterceptor J m (re_rl env) (re_jwt env) fm (\<lambda>ctx. on_db (f env (UserIDFromContext ctx)))"
    and fm: "fm \<noteq> register_method" "fm \<noteq> login_method"
  obtains (nothing) "database (srv w') = database (srv w)" "\<exists>e. r = Err e"
  | (ran) q where "(q, database (srv w')) = f (envs (calls w)) (Some (claimed_user J (sent_token tok))) (database (srv w))"
      "r = q \<or> (\<exists>e. r = Err e)"
proof (cases "re_unreach (envs (calls w))")
  case (Some e)
  then show ?thesis using assms(1) that(1) by (auto simp: net_call_def Let_def)
next
  case None
  let ?env = "envs (calls w)" and ?ctx = "\<lparr>c_peer = Some peer, c_md = Some (bearer tok), c_user = None\<rparr>"
  obtain q s' where q: "h ?env ?ctx (srv w) = (q, s')" by fastforce
  then have w': "srv w' = s'" and r: "r = q \<or> (\<exists>e. r = Err e)"
    using assms(1) None by (auto simp: net_call_def Let_def split: option.splits)
  from q have "UnaryAuthInterceptor J m (re_rl ?env) (re_jwt ?env) fm
      (\<lambda>ctx. on_db (f ?env (UserIDFromContext ctx))) ?ctx (srv w) = (q, s')" by (simp add: h)
  show ?thesis
  proof (cases rule: gate [OF jwt_axioms fm \<open>UnaryAuthInterceptor J m _ _ fm _ ?ctx (srv w) = (q, s')\<close>])
    case 1
    then show ?thesis using that(1) w' r by auto
  next
    case (2 md t toks u)
    then have "u = claimed_user J (sent_token tok)" using validate_claimed by (auto simp: sent_token_def)
    then show ?thesis using that(2) 2 w' r by auto
  qed
qed

lemmas methods = push_method_def pull_method_def delete_method_def register_method_def login_method_def

end

sublocale jwt \<subseteq> net: sync_remote "net_client J m envs peer tok" "claimed_user J (sent_token tok)" table_of
    "range (\<lambda>k. re_clk (envs k) 0)"
  for m envs peer tok
proof
  let ?c = "net_client J m envs peer tok" and ?u = "claimed_user J (sent_token tok)"
  fix v e i and s s' :: world and ses
  have pull: "cli_Pull ?c v s = (r, s') \<Longrightarrow> table_of s' = table_of s \<and>
      (r = Ok ses \<longrightarrow> ses = map row_to_entry (rows_since ?u v (table_of s)))" for r s' ses
    by (simp add: cli_Pull_def net_client_def net_stub_def serve_Pull_def,
        erule net_call_cases [OF _ refl, where f = "\<lambda>env ctx db. (srv_Pull (re_fl env) ctx v db, db)"])
      (auto simp: methods table_of_def dest!: srv_Pull_rows [OF sym])
  have push: "cli_Push ?c [e] s = (r, s') \<Longrightarrow>
      (\<exists>k. table_of s' = upsert_rows (entry_to_row ?u e (re_clk (envs k) 0)) (table_of s)) \<or>
      r \<noteq> Ok () \<and> table_of s' = table_of s" for r s'
    by (simp add: cli_Push_def net_client_def net_stub_def serve_Push_def,
        erule net_call_cases [OF _ refl, where f = "\<lambda>env ctx. srv_Push (re_fl env) (re_clk env) ctx [e]"])
      (auto simp: methods table_of_def dest!: srv_Push_one)
  have del: "cli_Delete ?c i v s = (r, s') \<Longrightarrow>
      table_of s' = without ?u i (table_of s) \<and> (r = Ok () \<longrightarrow> row_of (table_of s) ?u i \<noteq> None) \<or>
      r \<noteq> Ok () \<and> table_of s' = table_of s" for r s'
    by (simp add: cli_Delete_def net_client_def net_stub_def serve_Delete_def,
        erule net_call_cases [OF _ refl, where f = "\<lambda>env ctx. srv_Delete (re_fl env) ctx i v"])
      (auto simp: methods table_of_def dest!: srv_Delete_rows)
  show "cli_Pull ?c v s = (Ok ses, s') \<Longrightarrow> ses = map row_to_entry (rows_since ?u v (table_of s))"
    using pull by blast
  show "table_of (snd (cli_Pull ?c v s)) = table_of s"
    using pull [of "fst (cli_Pull ?c v s)" "snd (cli_Pull ?c v s)"] by simp
  show "cli_Push ?c [e] s = (Ok (), s') \<Longrightarrow>
      \<exists>t \<in> range (\<lambda>k. re_clk (envs k) 0). table_of s' = upsert_rows (entry_to_row ?u e t) (table_of s)"
    using push by blast
  show "table_of (snd (cli_Push ?c [e] s)) = table_of s \<or>
      (\<exists>t. table_of (snd (cli_Push ?c [e] s)) = upsert_rows (entry_to_row ?u e t) (table_of s))"
    using push [of "fst (cli_Push ?c [e] s)" "snd (cli_Push ?c [e] s)"] by auto
  show "cli_Delete ?c i v s = (Ok (), s') \<Longrightarrow>
      table_of s' = without ?u i (table_of s) \<and> row_of (table_of s) ?u i \<noteq> None"
    using del by blast
  show "table_of (snd (cli_Delete ?c i v s)) = table_of s \<or>
      table_of (snd (cli_Delete ?c i v s)) = without ?u i (table_of s)"
    using del [of "fst (cli_Delete ?c i v s)" "snd (cli_Delete ?c i v s)"] by auto
qed

section \<open>Runs of the server\<close>

text \<open>
  A step is one call to any of the six methods, with any context, or a tick of the clean-up
  goroutine.
\<close>

inductive server_step :: "jwt_lib \<Rightarrow> Manager \<Rightarrow> server \<Rightarrow> server \<Rightarrow> bool" for J :: jwt_lib and m :: Manager where
  call_Push: "serve_Push J m env es ctx s = (r, s') \<Longrightarrow> server_step J m s s'"
| call_Pull: "serve_Pull J m env v ctx s = (q, s') \<Longrightarrow> server_step J m s s'"
| call_Delete: "serve_Delete J m env i v ctx s = (r, s') \<Longrightarrow> server_step J m s s'"
| call_Register: "serve_Register J m env ae login sec ctx s = (u, s') \<Longrightarrow> server_step J m s s'"
| call_Login: "serve_Login J m env ae login ctx s = (l, s') \<Longrightarrow> server_step J m s s'"
| call_Refresh: "serve_RefreshToken J m env ae tok ctx s = (p, s') \<Longrightarrow> server_step J m s s'"
| tick: "server_step J m s (s\<lparr>limiter := cleanup t (limiter s)\<rparr>)"

inductive_cases server_stepE: "server_step J m s s'"

definition server_ok :: "server \<Rightarrow> bool" where
  "server_ok s \<longleftrightarrow> pg_ok (database s) \<and> rl_ok (limiter s)"

lemma limit_step_ok: "server_ok s \<Longrightarrow> server_ok (snd (limit_step t ctx s))"
  by (auto simp: server_ok_def limit_step_def rl_ok_Allow split: option.split)

text \<open>The interceptor keeps what its handler keeps.\<close>

lemma interceptor_keeps:
  assumes "\<And>ctx s r s'. h ctx s = (r, s') \<Longrightarrow> server_ok s \<Longrightarrow> server_ok s'"
    and "UnaryAuthInterceptor J m t1 t2 fm h ctx s = (r, s')" and "server_ok s"
  shows "server_ok s'"
  using assms(1) assms(2) limit_step_ok [OF assms(3), of t1 ctx]
  by (auto simp: interceptor_unfold Let_def split: if_splits option.splits list.splits res.splits)

lemma Login_limiter: "srv_Login J m ae login s = (r, s') \<Longrightarrow> limiter s' = snd (Allow (ae_clk ae 0) login (limiter s))"
  by (auto simp: srv_Login_def Let_def split: prod.splits if_splits try_res_splits)

lemma Register_limiter: "srv_Register ae login sec s = (r, s') \<Longrightarrow> limiter s' = limiter s"
  by (auto simp: srv_Register_def split: sum.splits try_res_splits)

lemma Refresh_limiter: "srv_RefreshToken J m ae tok s = (r, s') \<Longrightarrow> limiter s' = limiter s"
  by (auto simp: srv_RefreshToken_def refresh_rotate_def split: try_res_splits option.splits if_splits)

lemma srv_Push_ok: "srv_Push fl clk ctx es db = (r, db') \<Longrightarrow> pg_ok db \<Longrightarrow> pg_ok db'"
  by (auto simp: srv_Push_def split: option.splits dest: push_loop_ok)

lemma srv_Delete_ok: "srv_Delete fl ctx i v db = (r, db') \<Longrightarrow> pg_ok db \<Longrightarrow> pg_ok db'"
  by (auto simp: srv_Delete_def split: option.splits res.splits if_splits dest: sql_ok)

lemma server_step_ok:
  assumes "server_step J m s s'" and "server_ok s"
  shows "server_ok s'"
  using assms
proof cases
  case (call_Push env es ctx r)
  then show ?thesis unfolding serve_Push_def
    by (rule interceptor_keeps [rotated])
      (use assms(2) in \<open>auto simp: on_db_def server_ok_def split: prod.splits dest: srv_Push_ok\<close>)
next
  case (call_Pull env v ctx q)
  then show ?thesis unfolding serve_Pull_def
    by (rule interceptor_keeps [rotated])
      (use assms(2) in \<open>auto simp: on_db_def server_ok_def split: prod.splits\<close>)
next
  case (call_Delete env i v ctx r)
  then show ?thesis unfolding serve_Delete_def
    by (rule interceptor_keeps [rotated])
      (use assms(2) in \<open>auto simp: on_db_def server_ok_def split: prod.splits dest: srv_Delete_ok\<close>)
next
  case (call_Register env ae login sec ctx u)
  then show ?thesis unfolding serve_Register_def
    by (rule interceptor_keeps [rotated])
      (use assms(2) in \<open>auto simp: server_ok_def dest: Register_ok Register_limiter\<close>)
next
  case (call_Login env ae login ctx l)
  then show ?thesis unfolding serve_Login_def
    by (rule interceptor_keeps [rotated])
      (use assms(2) in \<open>auto simp: server_ok_def rl_ok_Allow dest: Login_ok Login_limiter\<close>)
next
  case (call_Refresh env ae tok ctx p)
  then show ?thesis unfolding serve_RefreshToken_def
    by (rule interceptor_keeps [rotated])
      (use assms(2) in \<open>auto simp: server_ok_def dest: Refresh_ok Refresh_limiter\<close>)
next
  case (tick t)
  then show ?thesis using assms(2) by (simp add: server_ok_def rl_ok_cleanup)
qed

section \<open>A synchronisation against the server\<close>

context bolt
begin

lemma own_cells_finite: "finite (dom (snd (own_cells B u d)))"
proof -
  have "finite (dom (version_cell B d))"
  proof (cases "buckets d ''versions''")
    case (Some b)
    have "dom (version_cell B d) \<subseteq> dom (bk_get B b)"
      using Some by (auto simp: version_cell_def bind_eq_Some_conv)
    then show ?thesis using finite_bucket finite_subset by blast
  qed (simp add: version_cell_def dom_def)
  moreover have "key u ` dom (snd (own_cells B u d)) \<subseteq> dom (version_cell B d)"
    by (auto simp: own_cells_def)
  moreover have "inj_on (key u) (dom (snd (own_cells B u d)))" by (simp add: inj_on_def)
  ultimately show ?thesis using finite_imageD finite_subset by metis
qed

end

context jwt
begin

lemma net_remote: "sync_remote (net_client J m envs peer tok) (claimed_user J (sent_token tok)) table_of
    (range (\<lambda>k. re_clk (envs k) 0))"
  by (rule net.sync_remote_axioms)

end

text \<open>
  The clients keep a user's data under the login name \<open>n\<close>; the server keeps the rows under the
  id \<open>u\<close> the token carries.  Every row of the user fits the local store.
\<close>

definition rows_fit :: "string \<Rightarrow> string \<Rightarrow> entry_row list \<Rightarrow> bool" where
  "rows_fit n u rows \<longleftrightarrow> (\<forall>r \<in> set rows. e_user r = u \<longrightarrow> put_ok (key n (e_entry r)) (e_data r))"

lemma FullSync_net_spec:
  assumes "bolt_reliable B" and "jwt J verified" and "usable B d"
    and "rows_fit n u (table_of w)" and u: "u = claimed_user J (sent_token tok)"
    and "FullSync B (Inr (net_stub J m envs peer)) clk n tok (d, w) = (r, d', w')"
  shows "usable B d' \<and>
    spec_sync (net_client J m envs peer tok) clk n (own_cells B n d, w) (r, own_cells B n d', w')"
proof -
  have "\<forall>se \<in> set ses. fits n se"
    if "cli_Pull \<lparr>sync = net_stub J m envs peer, token_of = tok\<rparr> v w = (Ok ses, s')" for v ses s'
  proof -
    have "ses = map row_to_entry (rows_since u v (table_of w))"
      using sync_remote.pull_ok [OF jwt.net_remote [OF assms(2)]] that u by (metis net_client_def)
    then show ?thesis using assms(4) u by (auto simp: fits_def rows_fit_def set_rows_since)
  qed
  from bolt_reliable.FullSync_spec [OF assms(1,3) this assms(6)]
  show ?thesis by (simp add: net_client_def)
qed

section \<open>The limiter's budget for a connection\<close>

text \<open>The limiter's entry for a peer: in one window, opened not before a time, with a count.\<close>

definition budget :: "string \<Rightarrow> int \<Rightarrow> int \<Rightarrow> int \<Rightarrow> world \<Rightarrow> bool" where
  "budget peer t0 mx n w \<longleftrightarrow> rl_max (limiter (srv w)) = mx \<and>
     (\<exists>a. attempts (limiter (srv w)) peer = Some a \<and> a_count a = n \<and> t0 \<le> a_first a)"

lemma interceptor_limiter:
  assumes "UnaryAuthInterceptor J m t1 t2 fm (\<lambda>ctx. on_db (f (UserIDFromContext ctx))) ctx s = (r, s')"
    and "fm \<noteq> register_method" "fm \<noteq> login_method"
  shows "limiter s' = limiter (snd (limit_step t1 ctx s)) \<and> (is_ok r \<longrightarrow> fst (limit_step t1 ctx s))"
  using assms
  by (auto simp: interceptor_unfold Let_def on_db_def split: if_splits option.splits list.splits res.splits prod.splits)

lemma net_call_budget:
  assumes run: "net_call envs peer md h w = (Ok x, w')"
    and h: "\<And>env. h env = UnaryAuthInterceptor J m (re_rl env) (re_jwt env) fm (\<lambda>ctx. on_db (f env (UserIDFromContext ctx)))"
    and fm: "fm \<noteq> register_method" "fm \<noteq> login_method"
    and near: "\<And>n. t0 \<le> re_rl (envs n) \<and> re_rl (envs n) \<le> t0 + rl_window (limiter (srv w))"
  shows "rl_window (limiter (srv w')) = rl_window (limiter (srv w)) \<and>
    (attempts (limiter (srv w)) peer = None \<longrightarrow> budget peer t0 (rl_max (limiter (srv w))) 1 w') \<and>
    (\<forall>mx n. budget peer t0 mx n w \<longrightarrow> n + 1 \<le> mx \<and> budget peer t0 mx (n + 1) w')"
proof -
  let ?env = "envs (calls w)" and ?ctx = "\<lparr>c_peer = Some peer, c_md = Some md, c_user = None\<rparr>"
  let ?rl = "limiter (srv w)" and ?t = "re_rl (envs (calls w))"
  obtain q s' where q: "h ?env ?ctx (srv w) = (q, s')" by fastforce
  then have w': "srv w' = s'" and "q = Ok x"
    using run by (auto simp: net_call_def Let_def split: option.splits)
  from q have "UnaryAuthInterceptor J m ?t (re_jwt ?env) fm
      (\<lambda>ctx. on_db (f ?env (UserIDFromContext ctx))) ?ctx (srv w) = (q, s')" by (simp add: h)
  from interceptor_limiter [OF this fm] \<open>q = Ok x\<close>
  have l: "limiter (srv w') = snd (Allow ?t peer ?rl)" "fst (Allow ?t peer ?rl)"
    by (auto simp: w' limit_step_def)
  have new: "budget peer t0 (rl_max ?rl) 1 w'" if "attempts ?rl peer = None"
    using that l near [of "calls w"] by (simp add: budget_def Allow_def)
  have more: "n + 1 \<le> mx \<and> budget peer t0 mx (n + 1) w'" if b: "budget peer t0 mx n w" for mx n
  proof -
    obtain a where a: "attempts ?rl peer = Some a" "a_count a = n" "t0 \<le> a_first a" "rl_max ?rl = mx"
      using b by (auto simp: budget_def)
    have "\<not> ?t - a_first a > rl_window ?rl" using near [of "calls w"] a(3) by linarith
    then show ?thesis using a l by (auto simp: Allow_def budget_def)
  qed
  show ?thesis using new more l by simp
qed

lemma cli_budget:
  assumes near: "\<And>n. t0 \<le> re_rl (envs n) \<and> re_rl (envs n) \<le> t0 + rl_window (limiter (srv w))"
  shows "cli_Pull (net_client J m envs peer tok) v w = (Ok ses, w') \<Longrightarrow>
      attempts (limiter (srv w)) peer = None \<Longrightarrow>
      budget peer t0 (rl_max (limiter (srv w))) 1 w' \<and> rl_window (limiter (srv w')) = rl_window (limiter (srv w))"
    and "cli_Push (net_client J m envs peer tok) es w = (Ok (), w') \<Longrightarrow> budget peer t0 mx n w \<Longrightarrow>
      n + 1 \<le> mx \<and> budget peer t0 mx (n + 1) w' \<and> rl_window (limiter (srv w')) = rl_window (limiter (srv w))"
proof -
  assume "cli_Pull (net_client J m envs peer tok) v w = (Ok ses, w')" and none: "attempts (limiter (srv w)) peer = None"
  then have "net_call envs peer (bearer tok) (\<lambda>env. serve_Pull J m env v) w = (Ok ses, w')"
    by (simp add: cli_Pull_def net_client_def net_stub_def)
  from net_call_budget [where f = "\<lambda>env ctx db. (srv_Pull (re_fl env) ctx v db, db)" and ?t0.0 = t0,
      OF this, unfolded serve_Pull_def, OF refl] near none
  show "budget peer t0 (rl_max (limiter (srv w))) 1 w' \<and> rl_window (limiter (srv w')) = rl_window (limiter (srv w))"
    by (simp add: pull_method_def register_method_def login_method_def)
next
  assume "cli_Push (net_client J m envs peer tok) es w = (Ok (), w')" and b: "budget peer t0 mx n w"
  then have "net_call envs peer (bearer tok) (\<lambda>env. serve_Push J m env es) w = (Ok (), w')"
    by (simp add: cli_Push_def net_client_def net_stub_def)
  from net_call_budget [where f = "\<lambda>env ctx. srv_Push (re_fl env) (re_clk env) ctx es" and ?t0.0 = t0,
      OF this, unfolded serve_Push_def, OF refl] near b
  show "n + 1 \<le> mx \<and> budget peer t0 mx (n + 1) w' \<and> rl_window (limiter (srv w')) = rl_window (limiter (srv w))"
    by (simp add: push_method_def register_method_def login_method_def)
qed

lemma send_all_budget:
  assumes "send_all (net_client J m envs peer tok) es w = (Ok (), w')" and "budget peer t0 mx n w"
    and "\<And>n. t0 \<le> re_rl (envs n) \<and> re_rl (envs n) \<le> t0 + rl_window (limiter (srv w))"
    and "n \<le> max 1 mx"
  shows "n + int (length es) \<le> max 1 mx"
  using assms
proof (induction es arbitrary: w n)
  case (Cons e es)
  obtain q w1 where q: "cli_Push (net_client J m envs peer tok) [e] w = (q, w1)" by fastforce
  then have ok: "cli_Push (net_client J m envs peer tok) [e] w = (Ok (), w1)"
    and rest: "send_all (net_client J m envs peer tok) es w1 = (Ok (), w')"
    using Cons.prems(1) by (auto split: res.splits)
  note b = cli_budget(2) [OF Cons.prems(3) ok Cons.prems(2)]
  have "n + 1 + int (length es) \<le> max 1 mx"
    using Cons.IH [OF rest, of "n + 1"] b Cons.prems(3) by (simp add: le_max_iff_disj)
  then show ?case by simp
qed simp

section \<open>When a synchronisation succeeds\<close>

lemma interceptor_returned:
  assumes "jwt J verified" and "\<And>ctx s. returned (fst (h ctx s))"
  shows "returned (fst (UnaryAuthInterceptor J m t1 t2 fm h ctx s))"
  using assms(2) jwt.validate_returns [OF assms(1), of m t2]
  by (auto simp: interceptor_unfold Let_def split: option.split list.split res.split)

lemma push_loop_returned: "returned (fst (push_loop fl clk n u es db))"
proof (induction fl clk n u es db rule: push_loop.induct)
  case (2 fl clk n u e es db)
  then show ?case
    by (cases "sql_upsert_entry (fl n) db (entry_to_row u e (clk n))")
      (auto simp: sql_upsert_entry_def split: option.splits)
qed simp

lemma net_stub_returns:
  assumes "jwt J verified"
  shows "stub_returns (net_stub J m envs peer)"
proof -
  have c: "returned (fst (net_call envs peer md h w))" if "\<And>env ctx s. returned (fst (h env ctx s))"
    for md and h :: "rpc_env \<Rightarrow> call_ctx \<Rightarrow> server \<Rightarrow> 'r res \<times> server" and w
    using that by (simp add: net_call_def Let_def split_beta split: option.split)
  have c': "returned (fst (net_call envs peer md h w))" if "\<And>env ctx s. returned (fst (h env ctx s))"
    for md and h :: "rpc_env \<Rightarrow> call_ctx \<Rightarrow> server \<Rightarrow> pb_entry list res \<times> server" and w
    using that by (simp add: net_call_def Let_def split_beta split: option.split)
  have c'': "returned (fst (net_call envs peer md h w))" if "\<And>env ctx s. returned (fst (h env ctx s))"
    for md and h :: "rpc_env \<Rightarrow> call_ctx \<Rightarrow> server \<Rightarrow> unit res \<times> server" and w
    using that by (simp add: net_call_def Let_def split_beta split: option.split)
  have 1: "returned (fst (serve_Push J m env es ctx s))" for env es ctx s
    unfolding serve_Push_def
    by (rule interceptor_returned [OF assms])
      (simp add: on_db_def srv_Push_def push_loop_returned split_beta split: option.split)
  have 2: "returned (fst (serve_Pull J m env v ctx s))" for env v ctx s
    unfolding serve_Pull_def
    by (rule interceptor_returned [OF assms])
      (simp add: on_db_def srv_Pull_def sql_select_since_def split: option.split)
  have 3: "returned (fst (serve_Delete J m env i v ctx s))" for env i v ctx s
    unfolding serve_Delete_def
    by (rule interceptor_returned [OF assms])
      (simp add: on_db_def srv_Delete_def sql_delete_entry_def split: option.split)
  show ?thesis
    by (simp add: stub_returns_def net_stub_def c' [OF 2] c'' [OF 1] c'' [OF 3])
qed

text \<open>
  A quiet connection: no failure of the network or the database, a token that validates, and
  all calls within one window of the limiter.
\<close>

definition quiet :: "jwt_lib \<Rightarrow> Manager \<Rightarrow> (nat \<Rightarrow> rpc_env) \<Rightarrow> string \<Rightarrow> string \<Rightarrow> int \<Rightarrow> int \<Rightarrow> bool" where
  "quiet J m envs tok u t0 win \<longleftrightarrow>
     (\<forall>n. re_unreach (envs n) = None \<and> re_lost (envs n) = None \<and> re_fl (envs n) = (\<lambda>_. None) \<and>
        ValidateToken J m (re_jwt (envs n)) (sent_token tok) = Ok u \<and>
        t0 \<le> re_rl (envs n) \<and> re_rl (envs n) \<le> t0 + win)"

definition sendable :: "string \<Rightarrow> bytes \<Rightarrow> bool" where
  "sendable i x \<longleftrightarrow> x \<noteq> [] \<and> varchar_ok 255 i"

text \<open>The peer can still make a call.\<close>

definition may_call :: "string \<Rightarrow> int \<Rightarrow> int \<Rightarrow> int \<Rightarrow> int \<Rightarrow> world \<Rightarrow> bool" where
  "may_call peer t0 win mx n w \<longleftrightarrow> rl_window (limiter (srv w)) = win \<and> rl_max (limiter (srv w)) = mx \<and>
     (n = 0 \<and> attempts (limiter (srv w)) peer = None \<or> budget peer t0 mx n w \<and> n + 1 \<le> mx)"

lemma quiet_call:
  assumes q: "quiet J m envs tok u t0 win" and c: "may_call peer t0 win mx n w"
    and h: "\<And>env. h env = UnaryAuthInterceptor J m (re_rl env) (re_jwt env) fm (\<lambda>ctx. on_db (f env (UserIDFromContext ctx)))"
    and fm: "fm \<noteq> register_method" "fm \<noteq> login_method"
  shows "\<exists>w'. net_call envs peer (bearer tok) h w = (fst (f (envs (calls w)) (Some u) (database (srv w))), w') \<and>
    database (srv w') = snd (f (envs (calls w)) (Some u) (database (srv w))) \<and>
    budget peer t0 mx (n + 1) w' \<and> rl_window (limiter (srv w')) = win \<and> rl_max (limiter (srv w')) = mx"
proof -
  let ?env = "envs (calls w)" and ?ctx = "\<lparr>c_peer = Some peer, c_md = Some (bearer tok), c_user = None\<rparr>"
  let ?rl = "limiter (srv w)" and ?t = "re_rl (envs (calls w))"
  have env: "re_unreach ?env = None" "re_lost ?env = None" "ValidateToken J m (re_jwt ?env) (strip_bearer (''Bearer '' @ tok)) = Ok u"
    "t0 \<le> ?t" "?t \<le> t0 + win"
    using q by (auto simp: quiet_def sent_token_def)
  obtain rl where rl: "Allow ?t peer ?rl = (True, rl)" "rl_window rl = win" "rl_max rl = mx"
    "\<exists>a. attempts rl peer = Some a \<and> a_count a = n + 1 \<and> t0 \<le> a_first a"
  proof (cases "attempts ?rl peer")
    case None
    then have "n = 0" using c by (auto simp: may_call_def budget_def)
    then show ?thesis using None c env that by (simp add: may_call_def Allow_def)
  next
    case (Some a)
    then have "a_count a = n" "t0 \<le> a_first a" and w: "rl_window ?rl = win" "rl_max ?rl = mx"
      using c by (auto simp: may_call_def budget_def)
    moreover have "\<not> ?t - a_first a > win" using env(4,5) \<open>t0 \<le> a_first a\<close> by linarith
    moreover have "n + 1 \<le> mx"
      using c Some by (auto simp: may_call_def budget_def)
    ultimately show ?thesis using Some that by (simp add: Allow_def)
  qed
  have "h ?env ?ctx (srv w) = on_db (f ?env (Some u)) ((srv w)\<lparr>limiter := rl\<rparr>)"
    using rl(1) env(3) fm by (simp add: h UnaryAuthInterceptor_def UserIDFromContext_def)
  then show ?thesis
    using env(1,2) rl(2-4) by (auto simp: net_call_def Let_def on_db_def budget_def split: prod.split)
qed

lemma cli_ok:
  assumes q: "quiet J m envs tok u t0 win" and c: "may_call peer t0 win mx n w"
  shows "\<exists>w'. cli_Pull (net_client J m envs peer tok) v w =
        (Ok (map row_to_entry (rows_since u v (table_of w))), w') \<and> database (srv w') = database (srv w) \<and>
        budget peer t0 mx (n + 1) w' \<and> rl_window (limiter (srv w')) = win"
    and "sendable (Id e) (EncryptedData e) \<Longrightarrow> user_exists (database (srv w)) u \<Longrightarrow>
      \<exists>w'. cli_Push (net_client J m envs peer tok) [e] w = (Ok (), w') \<and>
        users_tab (database (srv w')) = users_tab (database (srv w)) \<and>
        budget peer t0 mx (n + 1) w' \<and> rl_window (limiter (srv w')) = win"
proof -
  have fl: "re_fl (envs k) = (\<lambda>_. None)" for k using q by (simp add: quiet_def)
  have "fst (srv_Pull (re_fl (envs (calls w))) (Some u) v (database (srv w)), database (srv w)) =
      Ok (map row_to_entry (rows_since u v (table_of w)))"
    by (simp add: fl srv_Pull_def sql_select_since_def rows_since_def table_of_def)
  then show "\<exists>w'. cli_Pull (net_client J m envs peer tok) v w =
        (Ok (map row_to_entry (rows_since u v (table_of w))), w') \<and> database (srv w') = database (srv w) \<and>
        budget peer t0 mx (n + 1) w' \<and> rl_window (limiter (srv w')) = win"
    using quiet_call [OF q c, where h = "\<lambda>env. serve_Pull J m env v" and fm = pull_method
        and f = "\<lambda>env ctx db. (srv_Pull (re_fl env) ctx v db, db)"]
    by (auto simp: cli_Pull_def net_client_def net_stub_def serve_Pull_def pull_method_def register_method_def login_method_def)
  assume e: "sendable (Id e) (EncryptedData e)" and u: "user_exists (database (srv w)) u"
  let ?row = "entry_to_row u e (re_clk (envs (calls w)) 0)"
  have ins: "insert_checks (database (srv w)) ?row = None" using e u by (simp add: insert_checks_def sendable_def)
  have "srv_Push (re_fl (envs (calls w))) (re_clk (envs (calls w))) (Some u) [e] (database (srv w)) =
      (Ok (), (database (srv w))\<lparr>entries_tab := upsert_rows ?row (table_of w)\<rparr>)"
    by (simp add: fl srv_Push_def sql_upsert_entry_def ins table_of_def)
  then show "\<exists>w'. cli_Push (net_client J m envs peer tok) [e] w = (Ok (), w') \<and>
        users_tab (database (srv w')) = users_tab (database (srv w)) \<and>
        budget peer t0 mx (n + 1) w' \<and> rl_window (limiter (srv w')) = win"
    using quiet_call [OF q c, where h = "\<lambda>env. serve_Push J m env [e]" and fm = push_method
        and f = "\<lambda>env ctx. srv_Push (re_fl env) (re_clk env) ctx [e]"]
    by (auto simp: cli_Push_def net_client_def net_stub_def serve_Push_def push_method_def register_method_def login_method_def)
qed

lemma send_all_ok:
  assumes q: "quiet J m envs tok u t0 win"
  shows "budget peer t0 mx n w \<Longrightarrow> rl_window (limiter (srv w)) = win \<Longrightarrow> n + int (length es) \<le> mx \<Longrightarrow>
    \<forall>e \<in> set es. sendable (Id e) (EncryptedData e) \<Longrightarrow> user_exists (database (srv w)) u \<Longrightarrow>
    \<exists>w'. send_all (net_client J m envs peer tok) es w = (Ok (), w')"
proof (induction es arbitrary: w n)
  case (Cons e es)
  have c: "may_call peer t0 win mx n w"
    using Cons.prems(1-3) by (simp add: may_call_def budget_def)
  obtain w1 where w1: "cli_Push (net_client J m envs peer tok) [e] w = (Ok (), w1)"
    "users_tab (database (srv w1)) = users_tab (database (srv w))" "budget peer t0 mx (n + 1) w1"
    "rl_window (limiter (srv w1)) = win"
    using cli_ok(2) [OF q c, of e] Cons.prems(4,5) by auto
  show ?case using Cons.IH [OF w1(3,4)] Cons.prems w1(1,2) by (auto simp: user_exists_def)
qed simp

lemma spec_delete_Ok:
  "(\<And>i s. returned (fst (cli_Delete c i (- 1) s))) \<Longrightarrow> fst (spec_delete c ids EVs) = Ok ()"
proof (induction ids arbitrary: EVs)
  case (Cons i ids)
  obtain EV s where EVs: "EVs = (EV, s)" by fastforce
  show ?case
    using Cons.IH [OF Cons.prems] Cons.prems [of i s] EVs
    by (cases "cli_Delete c i (- 1) s"; cases "fst (cli_Delete c i (- 1) s)") auto
qed simp

lemma spec_pull_dom:
  "dom (fst (spec_pull ses EV)) \<subseteq> dom (fst EV) \<union> Id ` set ses"
proof (induction ses EV rule: spec_pull.induct)
  case (2 se ses EV)
  then show ?case by (auto split: if_splits)
qed simp

lemma spec_pull_data:
  "fst (spec_pull ses EV) i = Some x \<Longrightarrow> fst EV i = Some x \<or> (\<exists>se \<in> set ses. Id se = i \<and> EncryptedData se = x)"
proof (induction ses EV rule: spec_pull.induct)
  case (2 se ses EV)
  then show ?case by (auto split: if_splits)
qed simp

text \<open>
  The entries on either side can all be sent, and their number leaves the peer a call for the
  pull.
\<close>

definition all_sendable :: "string \<Rightarrow> cells \<Rightarrow> entry_row list \<Rightarrow> bool" where
  "all_sendable u EV rows \<longleftrightarrow>
     (\<forall>i x. fst EV i = Some x \<longrightarrow> sendable i x) \<and>
     (\<forall>r \<in> set rows. e_user r = u \<longrightarrow> sendable (e_entry r) (e_data r))"

definition all_ids :: "string \<Rightarrow> cells \<Rightarrow> entry_row list \<Rightarrow> string set" where
  "all_ids u EV rows = dom (fst EV) \<union> e_entry ` {r \<in> set rows. e_user r = u}"

lemma to_push_Some:
  "to_push clk EV i = Some e \<Longrightarrow>
     Id e = i \<and> fst EV i = Some (EncryptedData e) \<and> snd EV i = Some (Version e) \<and> Version e \<noteq> 0 \<and> Version e \<noteq> - 1"
  unfolding to_push_def push_entry_def
  by (cases "fst EV i"; cases "snd EV i") (auto split: if_splits)

lemma length_map_filter: "length (List.map_filter f xs) \<le> length xs"
  by (induction xs) (auto simp: map_filter_simps split: option.split)

lemma sorted_key_distinct: "sorted_wrt (\<lambda>i j. key n i < key n j) ids \<Longrightarrow> distinct ids"
  by (induction ids) auto

lemma spec_sync_Ok:
  assumes q: "quiet J m envs tok u t0 win" and J: "jwt J verified"
    and c: "may_call peer t0 win mx 0 w"
    and fin: "finite (dom (fst EV))" and snd: "all_sendable u EV (table_of w)"
    and n: "1 + int (card (all_ids u EV (table_of w))) \<le> mx" and u: "user_exists (database (srv w)) u"
    and spec: "spec_sync (net_client J m envs peer tok) clk n (EV, w) (r, EV', w')"
  shows "r = Ok ()"
  using spec
proof (cases rule: spec_sync.cases)
  case (pull_failed v r0)
  then show ?thesis using cli_ok(1) [OF q c, of v] by auto
next
  case (push_failed v ses w1 ids)
  obtain w2 where w2: "cli_Pull (net_client J m envs peer tok) v w =
        (Ok (map row_to_entry (rows_since u v (table_of w))), w2)" "database (srv w2) = database (srv w)"
    "budget peer t0 mx 1 w2" "rl_window (limiter (srv w2)) = win"
    using cli_ok(1) [OF q c, of v] by auto
  then have ses: "ses = map row_to_entry (rows_since u v (table_of w))" "w1 = w2"
    using push_failed by auto
  let ?EV = "spec_pull ses EV" and ?es = "List.map_filter (to_push clk (spec_pull ses EV)) ids"
  have ids: "set ids \<subseteq> all_ids u EV (table_of w)" "distinct ids"
    using push_failed(4) spec_pull_dom [of ses EV] sorted_key_distinct
    by (auto simp: ids_in_order_def all_ids_def ses set_rows_since)
  have "finite (all_ids u EV (table_of w))" using fin by (simp add: all_ids_def)
  then have "length ids \<le> card (all_ids u EV (table_of w))"
    using ids by (metis card_mono distinct_card)
  then have len: "1 + int (length ?es) \<le> mx" using length_map_filter [of "to_push clk ?EV" ids] n by linarith
  have "sendable (Id e) (EncryptedData e)" if "e \<in> set ?es" for e
  proof -
    have "fst ?EV (Id e) = Some (EncryptedData e)"
      using that by (auto simp: map_filter_set dest: to_push_Some)
    from spec_pull_data [OF this] show ?thesis
      using snd by (auto simp: all_sendable_def ses set_rows_since)
  qed
  then obtain w3 where "send_all (net_client J m envs peer tok) ?es w2 = (Ok (), w3)"
    using send_all_ok [OF q w2(3,4) len] w2(2) u by auto
  then show ?thesis using push_failed ses by auto
next
  case (completed v ses w1 ids w2)
  have "returned (fst (cli_Delete (net_client J m envs peer tok) i (- 1) s))" for i s
    using net_stub_returns [OF J] by (simp add: cli_Delete_def net_client_def stub_returns_def)
  from spec_delete_Ok [OF this, where ids = ids and EVs = "(spec_pull ses EV, w2)"]
  show ?thesis using completed by simp
qed

context bolt
begin

lemma own_entries_finite: "finite (dom (fst (own_cells B n d)))"
proof -
  have "finite (dom (entry_cell B d))"
  proof (cases "buckets d ''entries''")
    case (Some b)
    have "dom (entry_cell B d) \<subseteq> dom (bk_get B b)"
      using Some by (auto simp: entry_cell_def)
    then show ?thesis using finite_bucket finite_subset by blast
  qed (simp add: entry_cell_def dom_def)
  moreover have "key n ` dom (fst (own_cells B n d)) \<subseteq> dom (entry_cell B d)"
    by (auto simp: own_cells_def)
  moreover have "inj_on (key n) (dom (fst (own_cells B n d)))" by (simp add: inj_on_def)
  ultimately show ?thesis using finite_imageD finite_subset by metis
qed

end

lemma FullSync_net_Ok:
  assumes "bolt_reliable B" and "jwt J verified" and "usable B d"
    and "quiet J m envs tok u t0 win" and "may_call peer t0 win mx 0 w"
    and "all_sendable u (own_cells B n d) (table_of w)" and "rows_fit n u (table_of w)"
    and "1 + int (card (all_ids u (own_cells B n d) (table_of w))) \<le> mx"
    and "user_exists (database (srv w)) u"
  shows "fst (FullSync B (Inr (net_stub J m envs peer)) clk n tok (d, w)) = Ok ()"
proof -
  have "ValidateToken J m (re_jwt (envs 0)) (sent_token tok) = Ok u" using assms(4) by (simp add: quiet_def)
  then have u: "u = claimed_user J (sent_token tok)" by (rule jwt.validate_claimed [OF assms(2)])
  have b: "bolt B" using assms(1) by (simp add: bolt_reliable_def)
  obtain r d' w' where run: "FullSync B (Inr (net_stub J m envs peer)) clk n tok (d, w) = (r, d', w')"
    by (metis prod.collapse)
  have "spec_sync (net_client J m envs peer tok) clk n (own_cells B n d, w) (r, own_cells B n d', w')"
    using FullSync_net_spec [OF assms(1-3) _ u run] assms(7) u by blast
  from spec_sync_Ok [OF assms(4,2,5) bolt.own_entries_finite [OF b] assms(6,8,9) this] run
  show ?thesis by simp
qed

section \<open>Properties\<close>


text \<open>
  C4. No call changes a row, or answers one, without a token that the manager validates: a
  push, pull or deletion whose token does not validate, or has none, is an error and leaves
  the database as it was.
\<close>

theorem no_access_without_token:
  assumes "jwt J verified" and "c_md ctx = Some md"
    and "\<And>tok toks u. md_Get md ''authorization'' = tok # toks \<Longrightarrow> ValidateToken J m (re_jwt env) (strip_bearer tok) \<noteq> Ok u"
    and "serve_Push J m env es ctx s = (r1, s1)" and "serve_Pull J m env v ctx s = (r2, s2)"
    and "serve_Delete J m env i v ctx s = (r3, s3)"
  shows "(\<exists>e. r1 = Err e) \<and> (\<exists>e. r2 = Err e) \<and> (\<exists>e. r3 = Err e) \<and>
    database s1 = database s \<and> database s2 = database s \<and> database s3 = database s"
proof -
  show ?thesis
    using gate_refuses [OF assms(1-3) assms(4) [unfolded serve_Push_def]]
      gate_refuses [where f = "\<lambda>ctx db. (srv_Pull (re_fl env) ctx v db, db)",
        OF assms(1-3) assms(5) [unfolded serve_Pull_def]]
      gate_refuses [OF assms(1-3) assms(6) [unfolded serve_Delete_def]]
    by (simp add: push_method_def pull_method_def delete_method_def register_method_def login_method_def)
qed

text \<open>
  A client that holds only a refresh token cannot refresh: \<open>authclient.Refresh\<close> sends no
  authorization metadata and \<open>RefreshToken\<close> is not exempt from the interceptor, so the answer is
  an error and the database is untouched, whatever the token is.
\<close>

theorem refresh_unreachable:
  assumes "c_md ctx = Some md" and "md_Get md ''authorization'' = []"
  shows "\<exists>c. fst (serve_RefreshToken J m env ae tok ctx s) = Err (Status c
      (if c = ResourceExhausted then ''too many requests'' else ''missing token'')) \<and>
    database (snd (serve_RefreshToken J m env ae tok ctx s)) = database s"
  using assms
  by (cases "fst (limit_step (re_rl env) ctx s)")
    (auto simp: serve_RefreshToken_def interceptor_unfold Let_def refresh_method_def register_method_def login_method_def)

text \<open>
  C10. A synchronisation always returns, with success or an error, whatever the database and the
  connection do as long as they return; it keeps the local store well formed and writes only
  keys of its own user.
\<close>

theorem FullSync_returns:
  assumes "bolt B" and "store_ok B (fst ds)" and "\<And>st. dial = Inr st \<Longrightarrow> stub_returns st"
  shows "settles (\<lambda>ds'. only_own B n (fst ds) (fst ds')) (FullSync B dial clk n tok ds)"
  using bolt.FullSync_own [OF assms] .

text \<open>
  C3. Over a database that does not fail, \<open>FullSync\<close> refines the abstract synchronisation of the
  two maps: pull what is above the highest local version and overwrite with what is dated,
  push every entry with a version of its own, clear the tombstones the server confirmed.
\<close>

theorem FullSync_refines:
  assumes "bolt_reliable B" and "usable B d"
    and "\<And>v ses s'. cli_Pull \<lparr>sync = st, token_of = tok\<rparr> v s = (Ok ses, s') \<Longrightarrow> \<forall>se \<in> set ses. fits n se"
    and "FullSync B (Inr st) clk n tok (d, s) = (r, d', s')"
  shows "usable B d' \<and>
    spec_sync \<lparr>sync = st, token_of = tok\<rparr> clk n (own_cells B n d, s) (r, own_cells B n d', s')"
  using bolt_reliable.FullSync_spec [OF assms(1,2) _ assms(4)] assms(3) by blast

text \<open>
  C2. A synchronisation that succeeds against the real server, for a user whose local data are
  under the login name \<open>n\<close> and whose rows are under the id \<open>u\<close> of the token, has pulled every dated row newer
  than all local versions, has every local entry with a version of its own on the server with
  at least that version, has not touched another user's rows, and has left alone what was no
  tombstone and not newer on the server.
\<close>

theorem FullSync_synchronises:
  assumes "bolt_reliable B" and "jwt J verified" and "usable B d"
    and "rows_fit n u (table_of w)" and "distinct (map row_key (table_of w))"
    and "u = claimed_user J (sent_token tok)"
    and "FullSync B (Inr (net_stub J m envs peer)) clk n tok (d, w) = (Ok (), d', w')"
  obtains mx where "is_max_version (own_cells B n d) mx"
    and "same_others u (table_of w) (table_of w')"
    and "\<And>i x v. entry_cell B d' (key n i) = Some x \<Longrightarrow> version_cell B d' (key n i) = Some v \<Longrightarrow>
      v \<noteq> 0 \<Longrightarrow> v \<noteq> - 1 \<Longrightarrow> at_least (table_of w') u i (sint v)"
    and "\<And>i r. row_of (table_of w) u i = Some r \<Longrightarrow> sint mx < sint (e_version r) \<Longrightarrow> dated r \<Longrightarrow>
      entry_cell B d' (key n i) = Some (e_data r) \<and> version_cell B d' (key n i) = Some (e_version r)"
    and "\<And>i. (\<And>r. row_of (table_of w) u i = Some r \<Longrightarrow> sint (e_version r) \<le> sint mx) \<Longrightarrow>
      version_cell B d (key n i) \<noteq> Some (- 1) \<Longrightarrow>
      entry_cell B d' (key n i) = entry_cell B d (key n i) \<and> version_cell B d' (key n i) = version_cell B d (key n i)"
proof -
  have spec: "spec_sync (net_client J m envs peer tok) clk n (own_cells B n d, w) (Ok (), own_cells B n d', w')"
    using FullSync_net_spec [OF assms(1-3)] assms(4,6,7) by blast
  note remote = jwt.net_remote [OF assms(2), of m envs peer tok, folded assms(6)]
  show thesis
    by (rule sync_remote.completed_sync [OF remote spec assms(5)], rule that)
      (auto simp: own_cells_def)
qed

text \<open>
  C9. A synchronisation succeeds when the connection is quiet, the token validates, the entries
  on both sides are ones the server's schema takes, and there are fewer of them than calls the
  limiter allows a peer: the conditions under which the system does its work.
\<close>

theorem FullSync_succeeds:
  assumes "bolt_reliable B" and "jwt J verified" and "usable B d"
    and "quiet J m envs tok u t0 win" and "may_call peer t0 win mx 0 w"
    and "all_sendable u (own_cells B n d) (table_of w)" and "rows_fit n u (table_of w)"
    and "1 + int (card (all_ids u (own_cells B n d) (table_of w))) \<le> mx"
    and "user_exists (database (srv w)) u"
  shows "\<exists>d' w'. FullSync B (Inr (net_stub J m envs peer)) clk n tok (d, w) = (Ok (), d', w')"
  using FullSync_net_Ok [OF assms, of clk] by (metis prod.collapse)

text \<open>
  The limiter counts every call of a connection, and a synchronisation makes one call per
  entry it pushes: within one window of the limiter no synchronisation on a fresh connection
  succeeds that leaves the user with \<open>max\<close> or more versioned entries, five in the server's
  configuration.
\<close>

theorem FullSync_limited:
  assumes "bolt_reliable B" and "jwt J verified" and "usable B d"
    and "rows_fit n u (table_of w)" and "u = claimed_user J (sent_token tok)"
    and "FullSync B (Inr (net_stub J m envs peer)) clk n tok (d, w) = (Ok (), d', w')"
    and "attempts (limiter (srv w)) peer = None"
    and "\<And>n. t0 \<le> re_rl (envs n) \<and> re_rl (envs n) \<le> t0 + rl_window (limiter (srv w))"
  shows "1 + int (card {i. \<exists>x v. entry_cell B d' (key n i) = Some x \<and> version_cell B d' (key n i) = Some v \<and> v \<noteq> 0 \<and> v \<noteq> - 1})
    \<le> max 1 (rl_max (limiter (srv w)))"
proof -
  let ?mx = "rl_max (limiter (srv w))"
  have run: "spec_sync (net_client J m envs peer tok) clk n (own_cells B n d, w) (Ok (), own_cells B n d', w')"
    using FullSync_net_spec [OF assms(1-3)] assms(4-6) by blast
  note remote = jwt.net_remote [OF assms(2), of m envs peer tok, folded assms(5)]
  show ?thesis
    using run
  proof (cases rule: spec_sync.cases)
    case (completed v ses w1 ids w2)
    let ?EV = "spec_pull ses (own_cells B n d)"
    let ?es = "List.map_filter (to_push clk ?EV) ids"
    have b: "budget peer t0 ?mx 1 w1" "rl_window (limiter (srv w1)) = rl_window (limiter (srv w))"
      using cli_budget(1) [OF assms(8) completed(2) assms(7)] by auto
    then have len: "1 + int (length ?es) \<le> max 1 ?mx"
      using send_all_budget [OF completed(4) b(1)] assms(8) by simp
    have "{i. \<exists>x v. entry_cell B d' (key n i) = Some x \<and> version_cell B d' (key n i) = Some v \<and> v \<noteq> 0 \<and> v \<noteq> - 1}
        \<subseteq> Id ` set ?es"
    proof
      fix i assume "i \<in> {i. \<exists>x v. entry_cell B d' (key n i) = Some x \<and> version_cell B d' (key n i) = Some v \<and> v \<noteq> 0 \<and> v \<noteq> - 1}"
      then obtain x v where E: "fst (own_cells B n d') i = Some x" "snd (own_cells B n d') i = Some v" "v \<noteq> 0" "v \<noteq> - 1"
        by (auto simp: own_cells_def)
      then have "fst ?EV i = Some x" "snd ?EV i = Some v"
        using spec [OF conjunct2 [OF conjunct2 [OF sync_remote.spec_delete_table [OF remote completed(5)]]], of i] by auto
      then have "push_entry i x v (clk i) \<in> set ?es" using E(3,4) completed(3)
        by (auto simp: map_filter_set to_push_def ids_in_order_def intro!: bexI [of _ i])
      then show "i \<in> Id ` set ?es" by (force simp: push_entry_def)
    qed
    then have "card {i. \<exists>x v. entry_cell B d' (key n i) = Some x \<and> version_cell B d' (key n i) = Some v \<and> v \<noteq> 0 \<and> v \<noteq> - 1}
        \<le> card (Id ` set ?es)" by (rule card_mono [rotated]) simp
    also have "\<dots> \<le> length ?es" using card_image_le [of "set ?es" Id] card_length [of ?es] by simp
    finally show ?thesis using len by linarith
  qed (auto dest!: arg_cong [of _ _ is_ok])
qed

text \<open>
  C23. A deletion can be undone by the very synchronisation that should carry it out: when the
  server's row is newer than every local version, as it is for the newest entry once its
  version is the tombstone -1, the pull overwrites the tombstone, the entry is back with the
  server's data, and the server keeps its row.
\<close>

theorem deletion_undone:
  assumes "bolt_reliable B" and "jwt J verified" and "usable B d"
    and "rows_fit n u (table_of w)" and "distinct (map row_key (table_of w))"
    and "u = claimed_user J (sent_token tok)"
    and "FullSync B (Inr (net_stub J m envs peer)) clk n tok (d, w) = (Ok (), d', w')"
    and "version_cell B d (key n i) = Some (- 1)"
    and "row_of (table_of w) u i = Some r" and "dated r"
    and "\<And>j v. version_cell B d (key n j) = Some v \<Longrightarrow> sint v < sint (e_version r)" and "0 < sint (e_version r)"
  shows "entry_cell B d' (key n i) = Some (e_data r) \<and> version_cell B d' (key n i) = Some (e_version r) \<and>
    at_least (table_of w') u i (sint (e_version r))"
proof -
  have b: "bolt B" using assms(1) by (simp add: bolt_reliable_def)
  have spec: "spec_sync (net_client J m envs peer tok) clk n (own_cells B n d, w) (Ok (), own_cells B n d', w')"
    using FullSync_net_spec [OF assms(1-3)] assms(4,6,7) by blast
  note remote = jwt.net_remote [OF assms(2), of m envs peer tok, folded assms(6)]
  obtain mx where mx: "is_max_version (own_cells B n d) mx"
    and pulled: "\<And>i r. row_of (table_of w) u i = Some r \<Longrightarrow> sint mx < sint (e_version r) \<Longrightarrow> dated r \<Longrightarrow>
      fst (own_cells B n d') i = Some (e_data r) \<and> snd (own_cells B n d') i = Some (e_version r) \<and>
      at_least (table_of w') u i (sint (e_version r))"
    by (rule sync_remote.completed_sync [OF remote spec assms(5)], rule that) auto
  have fin: "finite (ran (snd (own_cells B n d)))" using bolt.own_cells_finite [OF b] by (rule finite_ran)
  have "sint mx < sint (e_version r)"
    using mx assms(11,12) fin by (auto simp: is_max_version_def ran_def own_cells_def)
  from pulled [OF assms(9) this assms(10)] show ?thesis by (simp add: own_cells_def)
qed

text \<open>
  C24. An update can be lost: a server row that is newer than the local version of its entry,
  but not newer than some other local version, is not pulled; after a synchronisation that
  succeeds the two sides still disagree.
\<close>

theorem update_not_pulled:
  assumes "bolt_reliable B" and "jwt J verified" and "usable B d"
    and "rows_fit n u (table_of w)" and "distinct (map row_key (table_of w))"
    and "u = claimed_user J (sent_token tok)"
    and "FullSync B (Inr (net_stub J m envs peer)) clk n tok (d, w) = (Ok (), d', w')"
    and "entry_cell B d (key n i) = Some x" and "version_cell B d (key n i) = Some v" and "v \<noteq> - 1" and "v \<noteq> 0"
    and "row_of (table_of w) u i = Some r" and "sint v < sint (e_version r)"
    and "version_cell B d (key n j) = Some v'" and "sint (e_version r) \<le> sint v'"
  shows "entry_cell B d' (key n i) = Some x \<and> version_cell B d' (key n i) = Some v \<and>
    (\<exists>r'. row_of (table_of w') u i = Some r' \<and> sint v \<le> sint (e_version r'))"
proof -
  have b: "bolt B" using assms(1) by (simp add: bolt_reliable_def)
  have spec: "spec_sync (net_client J m envs peer tok) clk n (own_cells B n d, w) (Ok (), own_cells B n d', w')"
    using FullSync_net_spec [OF assms(1-3)] assms(4,6,7) by blast
  note remote = jwt.net_remote [OF assms(2), of m envs peer tok, folded assms(6)]
  obtain mx where mx: "is_max_version (own_cells B n d) mx"
    and pushed: "\<And>i x v. fst (own_cells B n d') i = Some x \<Longrightarrow> snd (own_cells B n d') i = Some v \<Longrightarrow>
      v \<noteq> 0 \<Longrightarrow> v \<noteq> - 1 \<Longrightarrow> at_least (table_of w') u i (sint v)"
    and kept: "\<And>i. (\<And>r. row_of (table_of w) u i = Some r \<Longrightarrow> sint (e_version r) \<le> sint mx) \<Longrightarrow>
      snd (own_cells B n d) i \<noteq> Some (- 1) \<Longrightarrow>
      fst (own_cells B n d') i = fst (own_cells B n d) i \<and> snd (own_cells B n d') i = snd (own_cells B n d) i"
    by (rule sync_remote.completed_sync [OF remote spec assms(5)], rule that) auto
  have fin: "finite (ran (snd (own_cells B n d)))" using bolt.own_cells_finite [OF b] by (rule finite_ran)
  have "snd (own_cells B n d) j = Some v'" using assms(14) by (simp add: own_cells_def)
  from max_version_bound(1) [OF mx fin this] have "sint (e_version r) \<le> sint mx" using assms(15) by linarith
  then have k: "entry_cell B d' (key n i) = Some x" "version_cell B d' (key n i) = Some v"
    using kept [of i] assms(8-10,12) by (auto simp: own_cells_def)
  then have "at_least (table_of w') u i (sint v)"
    using pushed [of i x v] assms(10,11) by (simp add: own_cells_def)
  then show ?thesis using k by (simp add: at_least_def)
qed

text \<open>
  Quiescence: after a synchronisation that succeeds, with the server's rows dated after the
  epoch, no row of the user is above the highest local version, so the next pull finds nothing.
\<close>

theorem next_sync_pulls_nothing:
  assumes "bolt_reliable B" and "jwt J verified" and "usable B d"
    and "rows_fit n u (table_of w)" and "distinct (map row_key (table_of w))"
    and "u = claimed_user J (sent_token tok)"
    and "FullSync B (Inr (net_stub J m envs peer)) clk n tok (d, w) = (Ok (), d', w')"
    and "\<And>r. r \<in> set (table_of w) \<Longrightarrow> e_user r = u \<Longrightarrow> dated r"
    and "GetMaxVersion B d' n = Ok mx" and "row_of (table_of w') u i = Some r"
  shows "sint (e_version r) \<le> sint mx"
proof -
  have b: "bolt B" using assms(1) by (simp add: bolt_reliable_def)
  have spec: "usable B d' \<and> spec_sync (net_client J m envs peer tok) clk n (own_cells B n d, w) (Ok (), own_cells B n d', w')"
    using FullSync_net_spec [OF assms(1-3)] assms(4,6,7) by blast
  note remote = jwt.net_remote [OF assms(2), of m envs peer tok, folded assms(6)]
  obtain mx' where "GetMaxVersion B d' n = Ok mx'" "is_max_version (own_cells B n d') mx'"
    using bolt_reliable.GetMaxVersion_spec [OF assms(1), of d' n] spec by blast
  then have mx: "is_max_version (own_cells B n d') mx" using assms(9) by simp
  show ?thesis
    using sync_remote.next_pull_empty [OF remote conjunct2 [OF spec] assms(5)
        bolt.own_cells_finite [OF b] bolt.own_cells_finite [OF b] assms(8) mx assms(10)] .
qed

section \<open>Witnesses\<close>

text \<open>
  A local store with given entries under the name \<open>l\<close>, the reference server with given rows, and a quiet
  connection to it with a valid token.
\<close>

definition ref_local :: "(string \<times> bytes \<times> int64) list \<Rightarrow> alist db" where
  "ref_local xs = \<lparr>buckets = [''entries'' \<mapsto> map (\<lambda>(i, x, v). (key ''l'' i, x)) xs,
     ''versions'' \<mapsto> map (\<lambda>(i, x, v). (key ''l'' i, int64ToBytes v)) xs], is_open = True\<rparr>"

definition ref_world :: "entry_row list \<Rightarrow> world" where
  "ref_world rows = \<lparr>srv = ref_server\<lparr>database := (database ref_server)\<lparr>entries_tab := rows\<rparr>\<rparr>, calls = 0\<rparr>"

definition ref_rpc :: rpc_env where
  "ref_rpc = \<lparr>re_rl = 0, re_jwt = 0, re_fl = (\<lambda>_. None), re_clk = (\<lambda>_. 7000000), re_unreach = None, re_lost = None\<rparr>"

abbreviation ref_stub :: "world sync_stub" where
  "ref_stub \<equiv> net_stub ref_jwt ref_manager (\<lambda>_. ref_rpc) ''p''"

lemma ref_local_usable: "usable ref_bolt (ref_local xs)"
proof -
  have "length data = 8" if "map_of (map (\<lambda>(i, x, v). (key ''l'' i, int64ToBytes v)) xs) k = Some data" for k data
    using map_of_SomeD [OF that] by auto
  then show ?thesis by (simp add: usable_def store_ok_def ref_local_def ref_bolt_def)
qed

lemma ref_local_cells:
  "entry_cell ref_bolt (ref_local xs) (key ''l'' i) = map_of (map (\<lambda>(i, x, v). (i, x)) xs) i"
  "version_cell ref_bolt (ref_local xs) (key ''l'' i) = map_of (map (\<lambda>(i, x, v). (i, v)) xs) i"
  by (induction xs)
    (auto simp: entry_cell_def version_cell_def ref_local_def ref_bolt_def split: option.splits)

lemma ref_own_cells:
  "own_cells ref_bolt ''l'' (ref_local xs) =
     (map_of (map (\<lambda>(i, x, v). (i, x)) xs), map_of (map (\<lambda>(i, x, v). (i, v)) xs))"
  by (simp add: own_cells_def ref_local_cells fun_eq_iff)

lemma ref_validate: "ValidateToken ref_jwt ref_manager 0 ref_access_token = Ok ''u''"
  using ref_jwt.validate_signed(1) [of "''u''" 900 0 ref_manager ref_access_token 0]
  by (simp add: ref_jwt_def ref_sign_claims ref_access_token_def exact_def second_def)

lemma ref_sent [simp]: "sent_token ref_access_token = ref_access_token"
  unfolding sent_token_def by (rule strip_bearer_Bearer) (simp add: ref_access_token_def frame_def)

lemma ref_claimed: "''u'' = claimed_user ref_jwt (sent_token ref_access_token)"
  using ref_jwt.validate_claimed [OF ref_validate] by simp

lemma ref_quiet: "quiet ref_jwt ref_manager (\<lambda>_. ref_rpc) ref_access_token ''u'' 0 (300 * second)"
  by (simp add: quiet_def ref_rpc_def ref_validate second_def)

lemma ref_may_call: "may_call ''p'' 0 (300 * second) 5 0 (ref_world rows)"
  by (simp add: may_call_def ref_world_def ref_server_def)

lemma ref_near: "0 \<le> re_rl ref_rpc \<and> re_rl ref_rpc \<le> 0 + rl_window (limiter (srv (ref_world rows)))"
  by (simp add: ref_rpc_def ref_world_def ref_server_def second_def)

lemma ref_table [simp]: "table_of (ref_world rows) = rows"
  by (simp add: table_of_def ref_world_def)

lemma ref_world_user: "user_exists (database (srv (ref_world rows))) ''u''"
  by (simp add: user_exists_def ref_world_def ref_server_def)

lemma ref_fits: "rows_fit ''l'' ''u'' [ref_row v x]"
  by (simp add: rows_fit_def ref_row_def put_ok_def length_key)

lemma ref_dated: "dated (ref_row v x)"
  by (simp add: dated_def row_to_entry_def ref_row_def)

lemma varchar_j [simp]: "varchar_ok 255 ''j''"
proof -
  have "utf8_valid ''j''" by (subst utf8_valid.simps) (simp add: cc_def)
  moreover have "length (filter (\<lambda>c. \<not> cont c) ''j'') \<le> 255"
    using length_filter_le [of "\<lambda>c. \<not> cont c" "''j''"] by simp
  ultimately show ?thesis by (simp add: varchar_ok_def ch_eq_iff cc_def)
qed

lemma ref_row_user [simp]: "e_user (ref_row v x) = ''u''" "e_data (ref_row v x) = [x]"
  by (simp_all add: ref_row_def)

text \<open>The two scenarios: a tombstone of the newest entry, and an update below another version.\<close>

definition tomb_local :: "alist db" where
  "tomb_local = ref_local [(''i'', [1], - 1)]"

definition tomb_world :: world where
  "tomb_world = ref_world [ref_row 5 9]"

definition stale_local :: "alist db" where
  "stale_local = ref_local [(''i'', [1], 1), (''j'', [2], 7)]"

definition stale_world :: world where
  "stale_world = ref_world [ref_row 3 9]"

lemma tomb_runs:
  obtains d' w' where "FullSync ref_bolt (Inr ref_stub) (\<lambda>_. 0) ''l'' ref_access_token (tomb_local, tomb_world) = (Ok (), d', w')"
proof -
  have "all_ids ''u'' (own_cells ref_bolt ''l'' tomb_local) [ref_row 5 9] = {''i''}"
    by (auto simp: all_ids_def tomb_local_def ref_own_cells split: if_splits)
  moreover have "all_sendable ''u'' (own_cells ref_bolt ''l'' tomb_local) [ref_row 5 9]"
    by (simp add: all_sendable_def tomb_local_def ref_own_cells sendable_def)
  ultimately have "fst (FullSync ref_bolt (Inr ref_stub) (\<lambda>_. 0) ''l'' ref_access_token (tomb_local, tomb_world)) = Ok ()"
    unfolding tomb_world_def
    by (intro FullSync_net_Ok [OF ref_bolt_axioms(2) ref_jwt.jwt_axioms _ ref_quiet ref_may_call])
      (simp_all add: tomb_local_def ref_local_usable ref_fits ref_world_user)
  then show thesis using that by (metis prod.collapse)
qed

lemma stale_runs:
  obtains d' w' where "FullSync ref_bolt (Inr ref_stub) (\<lambda>_. 0) ''l'' ref_access_token (stale_local, stale_world) = (Ok (), d', w')"
proof -
  have "all_ids ''u'' (own_cells ref_bolt ''l'' stale_local) [ref_row 3 9] = {''i'', ''j''}"
    by (auto simp: all_ids_def stale_local_def ref_own_cells split: if_splits)
  moreover have "all_sendable ''u'' (own_cells ref_bolt ''l'' stale_local) [ref_row 3 9]"
    by (simp add: all_sendable_def stale_local_def ref_own_cells sendable_def)
  ultimately have "fst (FullSync ref_bolt (Inr ref_stub) (\<lambda>_. 0) ''l'' ref_access_token (stale_local, stale_world)) = Ok ()"
    unfolding stale_world_def
    by (intro FullSync_net_Ok [OF ref_bolt_axioms(2) ref_jwt.jwt_axioms _ ref_quiet ref_may_call])
      (simp_all add: stale_local_def ref_local_usable ref_fits ref_world_user)
  then show thesis using that by (metis prod.collapse)
qed

theorem FullSync_succeeds_witness:
  "\<exists>d' w'. FullSync ref_bolt (Inr ref_stub) (\<lambda>_. 0) ''l'' ref_access_token (stale_local, stale_world) = (Ok (), d', w')"
proof -
  have "all_ids ''u'' (own_cells ref_bolt ''l'' stale_local) [ref_row 3 9] = {''i'', ''j''}"
    by (auto simp: all_ids_def stale_local_def ref_own_cells split: if_splits)
  moreover have "all_sendable ''u'' (own_cells ref_bolt ''l'' stale_local) [ref_row 3 9]"
    by (simp add: all_sendable_def stale_local_def ref_own_cells sendable_def)
  ultimately show ?thesis
    unfolding stale_world_def
    by (intro FullSync_succeeds [OF ref_bolt_axioms(2) ref_jwt.jwt_axioms _ ref_quiet ref_may_call])
      (simp_all add: stale_local_def ref_local_usable ref_fits ref_world_user)
qed


theorem no_access_without_token_witness:
  "database (snd (serve_Delete ref_jwt ref_manager ref_rpc ''i'' 0 \<lparr>c_peer = None, c_md = Some [], c_user = None\<rparr> ref_server)) =
   database ref_server"
proof -
  let ?ctx = "\<lparr>c_peer = None, c_md = Some [], c_user = None\<rparr>"
  obtain r1 s1 where 1: "serve_Push ref_jwt ref_manager ref_rpc [] ?ctx ref_server = (r1, s1)" by fastforce
  obtain r2 s2 where 2: "serve_Pull ref_jwt ref_manager ref_rpc 0 ?ctx ref_server = (r2, s2)" by fastforce
  obtain r3 s3 where 3: "serve_Delete ref_jwt ref_manager ref_rpc ''i'' 0 ?ctx ref_server = (r3, s3)" by fastforce
  show ?thesis using no_access_without_token [OF ref_jwt.jwt_axioms _ _ 1 2 3, of "[]"] 3 by (simp add: md_Get_def)
qed

theorem refresh_unreachable_witness:
  "\<exists>c. fst (serve_RefreshToken ref_jwt ref_manager ref_rpc (ref_env 0) ref_refresh_token
     \<lparr>c_peer = Some ''p'', c_md = Some [], c_user = None\<rparr> ref_logged_in) =
   Err (Status c (if c = ResourceExhausted then ''too many requests'' else ''missing token''))"
  using refresh_unreachable [of "\<lparr>c_peer = Some ''p'', c_md = Some [], c_user = None\<rparr>" "[]"]
  by (simp add: md_Get_def)

theorem FullSync_returns_witness:
  "returned (fst (FullSync ref_bolt (Inr ref_stub) (\<lambda>_. 0) ''l'' ref_access_token (tomb_local, tomb_world)))"
proof -
  have "store_ok ref_bolt tomb_local" using ref_local_usable by (simp add: tomb_local_def usable_def)
  then show ?thesis
    using FullSync_returns [OF ref_bolt_axioms(1), of "(tomb_local, tomb_world)" "Inr ref_stub"]
      net_stub_returns [OF ref_jwt.jwt_axioms]
    by (simp add: settles_def)
qed

theorem FullSync_refines_witness:
  "\<exists>d' w'. spec_sync \<lparr>sync = ref_stub, token_of = ref_access_token\<rparr> (\<lambda>_. 0) ''l''
     (own_cells ref_bolt ''l'' tomb_local, tomb_world) (Ok (), own_cells ref_bolt ''l'' d', w')"
proof -
  obtain d' w' where run: "FullSync ref_bolt (Inr ref_stub) (\<lambda>_. 0) ''l'' ref_access_token (tomb_local, tomb_world) = (Ok (), d', w')"
    using tomb_runs .
  have "usable ref_bolt tomb_local" by (simp add: tomb_local_def ref_local_usable)
  moreover have "\<forall>se \<in> set ses. fits ''l'' se"
    if "cli_Pull \<lparr>sync = ref_stub, token_of = ref_access_token\<rparr> v tomb_world = (Ok ses, s')" for v ses s'
  proof -
    have "ses = map row_to_entry (rows_since ''u'' v (table_of tomb_world))"
      using sync_remote.pull_ok [OF jwt.net_remote [OF ref_jwt.jwt_axioms]] that ref_claimed
      by (metis net_client_def)
    then show ?thesis using ref_fits [of 5 9]
      by (auto simp: tomb_world_def fits_def rows_fit_def set_rows_since)
  qed
  ultimately show ?thesis using FullSync_refines [OF ref_bolt_axioms(2) _ _ run] by blast
qed

theorem FullSync_synchronises_witness:
  "\<exists>d' w'. FullSync ref_bolt (Inr ref_stub) (\<lambda>_. 0) ''l'' ref_access_token (tomb_local, tomb_world) = (Ok (), d', w') \<and>
     same_others ''u'' (table_of tomb_world) (table_of w')"
proof -
  obtain d' w' where run: "FullSync ref_bolt (Inr ref_stub) (\<lambda>_. 0) ''l'' ref_access_token (tomb_local, tomb_world) = (Ok (), d', w')"
    using tomb_runs .
  have "same_others ''u'' (table_of tomb_world) (table_of w')"
    by (rule FullSync_synchronises [OF ref_bolt_axioms(2) ref_jwt.jwt_axioms _ _ _ ref_claimed run])
      (simp_all add: tomb_local_def ref_local_usable tomb_world_def ref_fits)
  then show ?thesis using run by blast
qed

theorem FullSync_limited_witness:
  "\<exists>d' w'. FullSync ref_bolt (Inr ref_stub) (\<lambda>_. 0) ''l'' ref_access_token (stale_local, stale_world) = (Ok (), d', w') \<and>
     1 + int (card {i. \<exists>x v. entry_cell ref_bolt d' (key ''l'' i) = Some x \<and>
       version_cell ref_bolt d' (key ''l'' i) = Some v \<and> v \<noteq> 0 \<and> v \<noteq> - 1}) \<le> 5"
proof -
  obtain d' w' where run: "FullSync ref_bolt (Inr ref_stub) (\<lambda>_. 0) ''l'' ref_access_token (stale_local, stale_world) = (Ok (), d', w')"
    using stale_runs .
  have "limiter (srv stale_world) = limiter ref_server" by (simp add: stale_world_def ref_world_def)
  moreover have "attempts (limiter ref_server) ''p'' = None" "rl_max (limiter ref_server) = 5"
    "rl_window (limiter ref_server) = 300 * second" by (simp_all add: ref_server_def)
  ultimately have "1 + int (card {i. \<exists>x v. entry_cell ref_bolt d' (key ''l'' i) = Some x \<and>
       version_cell ref_bolt d' (key ''l'' i) = Some v \<and> v \<noteq> 0 \<and> v \<noteq> - 1}) \<le> max 1 5"
    using FullSync_limited [OF ref_bolt_axioms(2) ref_jwt.jwt_axioms _ _ ref_claimed run, of 0]
    by (simp add: stale_local_def ref_local_usable ref_rpc_def second_def) (simp add: stale_world_def ref_fits)
  then show ?thesis using run by auto
qed

theorem deletion_undone_witness:
  "\<exists>d' w'. FullSync ref_bolt (Inr ref_stub) (\<lambda>_. 0) ''l'' ref_access_token (tomb_local, tomb_world) = (Ok (), d', w') \<and>
     version_cell ref_bolt tomb_local (key ''l'' ''i'') = Some (- 1) \<and>
     entry_cell ref_bolt d' (key ''l'' ''i'') = Some [9] \<and> version_cell ref_bolt d' (key ''l'' ''i'') = Some 5 \<and>
     at_least (table_of w') ''u'' ''i'' 5"
proof -
  obtain d' w' where run: "FullSync ref_bolt (Inr ref_stub) (\<lambda>_. 0) ''l'' ref_access_token (tomb_local, tomb_world) = (Ok (), d', w')"
    using tomb_runs .
  have v: "version_cell ref_bolt tomb_local (key ''l'' j) = (if j = ''i'' then Some (- 1) else None)" for j
    by (simp add: tomb_local_def ref_local_cells)
  have usable: "usable ref_bolt tomb_local" by (simp add: tomb_local_def ref_local_usable)
  have "entry_cell ref_bolt d' (key ''l'' ''i'') = Some (e_data (ref_row 5 9)) \<and>
      version_cell ref_bolt d' (key ''l'' ''i'') = Some (e_version (ref_row 5 9)) \<and>
      at_least (table_of w') ''u'' ''i'' (sint (e_version (ref_row 5 9)))"
    by (rule deletion_undone [OF ref_bolt_axioms(2) ref_jwt.jwt_axioms _ _ _ ref_claimed run])
      (auto simp: v usable tomb_world_def ref_fits ref_dated row_of_def split: if_splits)
  then show ?thesis using run v by auto
qed

theorem update_not_pulled_witness:
  "\<exists>d' w'. FullSync ref_bolt (Inr ref_stub) (\<lambda>_. 0) ''l'' ref_access_token (stale_local, stale_world) = (Ok (), d', w') \<and>
     row_of (table_of stale_world) ''u'' ''i'' = Some (ref_row 3 9) \<and>
     entry_cell ref_bolt d' (key ''l'' ''i'') = Some [1] \<and> version_cell ref_bolt d' (key ''l'' ''i'') = Some 1"
proof -
  obtain d' w' where run: "FullSync ref_bolt (Inr ref_stub) (\<lambda>_. 0) ''l'' ref_access_token (stale_local, stale_world) = (Ok (), d', w')"
    using stale_runs .
  have c: "entry_cell ref_bolt stale_local (key ''l'' ''i'') = Some [1]"
    "version_cell ref_bolt stale_local (key ''l'' ''i'') = Some 1"
    "version_cell ref_bolt stale_local (key ''l'' ''j'') = Some 7"
    by (simp_all add: stale_local_def ref_local_cells)
  have row: "row_of (table_of stale_world) ''u'' ''i'' = Some (ref_row 3 9)"
    by (simp add: stale_world_def row_of_def)
  have "entry_cell ref_bolt d' (key ''l'' ''i'') = Some [1] \<and> version_cell ref_bolt d' (key ''l'' ''i'') = Some 1 \<and>
      (\<exists>r'. row_of (table_of w') ''u'' ''i'' = Some r' \<and> sint (1 :: int64) \<le> sint (e_version r'))"
    by (rule update_not_pulled [OF ref_bolt_axioms(2) ref_jwt.jwt_axioms _ _ _ ref_claimed run c(1,2) _ _ row _ c(3)])
      (simp_all add: stale_local_def ref_local_usable stale_world_def ref_fits)
  then show ?thesis using run row by blast
qed

theorem next_sync_pulls_nothing_witness:
  "\<exists>d' w'. FullSync ref_bolt (Inr ref_stub) (\<lambda>_. 0) ''l'' ref_access_token (tomb_local, tomb_world) = (Ok (), d', w') \<and>
     (\<forall>mx r. GetMaxVersion ref_bolt d' ''l'' \<noteq> Ok mx \<or> row_of (table_of w') ''u'' ''i'' \<noteq> Some r \<or>
        sint (e_version r) \<le> sint mx)"
proof -
  obtain d' w' where run: "FullSync ref_bolt (Inr ref_stub) (\<lambda>_. 0) ''l'' ref_access_token (tomb_local, tomb_world) = (Ok (), d', w')"
    using tomb_runs .
  have "sint (e_version r) \<le> sint mx"
    if "GetMaxVersion ref_bolt d' ''l'' = Ok mx" "row_of (table_of w') ''u'' ''i'' = Some r" for mx r
    by (rule next_sync_pulls_nothing [OF ref_bolt_axioms(2) ref_jwt.jwt_axioms _ _ _ ref_claimed run _ that])
      (auto simp: tomb_local_def ref_local_usable tomb_world_def ref_fits ref_dated)
  then show ?thesis using run by blast
qed

end
