(* ===== verification/Files.thy ===== *)
theory Files
  imports Prelude
begin

text \<open>
  The files of the client's working directory and the calls of Go's \<open>os\<close> package on them.  A
  call can fail at each of its system calls; a write that fails after the file was opened, and
  so truncated, leaves a prefix of the data.  File modes are not modelled.
\<close>

type_synonym files = "string \<Rightarrow> bytes option"

text \<open>How a \<open>WriteFile\<close> ends: well, at the open, or after some bytes.\<close>

datatype write_fault = Written | OpenFails error | Short nat error

fun WriteFile :: "write_fault \<Rightarrow> string \<Rightarrow> bytes \<Rightarrow> files \<Rightarrow> unit res \<times> files" where
  "WriteFile Written name data fs = (Ok (), fs(name \<mapsto> data))"
| "WriteFile (OpenFails e) name data fs = (Err e, fs)"
| "WriteFile (Short n e) name data fs = (Err e, fs(name \<mapsto> take n data))"

definition ReadFile :: "error option \<Rightarrow> string \<Rightarrow> files \<Rightarrow> error + bytes" where
  "ReadFile fl name fs =
     (case fl of
        Some e \<Rightarrow> Inl e
      | None \<Rightarrow> (case fs name of None \<Rightarrow> Inl (Lib ''no such file or directory'') | Some data \<Rightarrow> Inr data))"

text \<open>A rename is atomic: it replaces the target or does nothing.\<close>

definition Rename :: "error option \<Rightarrow> string \<Rightarrow> string \<Rightarrow> files \<Rightarrow> unit res \<times> files" where
  "Rename fl old new fs =
     (case fl of
        Some e \<Rightarrow> (Err e, fs)
      | None \<Rightarrow>
          (case fs old of
             None \<Rightarrow> (Err (Lib ''no such file or directory''), fs)
           | Some data \<Rightarrow> (Ok (), fs(old := None, new \<mapsto> data))))"

lemma WriteFile_other: "name' \<noteq> name \<Longrightarrow> snd (WriteFile wr name data fs) name' = fs name'"
  by (cases wr) auto

lemma WriteFile_Ok: "WriteFile wr name data fs = (Ok x, fs') \<Longrightarrow> fs' = fs(name \<mapsto> data)"
  by (cases wr) auto

lemma WriteFile_returns: "returned (fst (WriteFile wr name data fs))"
  by (cases wr) auto

lemma ReadFile_Ok [simp]: "ReadFile fl name fs = Inr data \<longleftrightarrow> fl = None \<and> fs name = Some data"
  by (auto simp: ReadFile_def split: option.split)

text \<open>
  \<open>filepath.Base\<close> on Unix: trailing separators are dropped, then everything up to the last one;
  the empty path is a dot and a path of separators is one separator.
\<close>

definition Base :: "string \<Rightarrow> string" where
  "Base path =
     (if path = '''' then ''.''
      else (let r = dropWhile (\<lambda>c. c = CHR ''/'') (rev path)
            in if r = '''' then ''/'' else rev (takeWhile (\<lambda>c. c \<noteq> CHR ''/'') r)))"

lemma Base_no_separator: "CHR ''/'' \<in> set (Base path) \<Longrightarrow> Base path = ''/''"
  by (auto simp: Base_def Let_def split: if_splits dest: set_takeWhileD)

end
