(* ===== verification/Session.thy ===== *)
theory Session
  imports Files Crypto Base64 Jwt
begin

text \<open>
  The saved session, \<open>internal/client/session/session.go\<close>: what \<open>Save\<close> writes and \<open>Load\<close>
  reads, the check of the access token's expiry, and the refresh that replaces the tokens in
  memory and on disk.  A nil and an empty \<open>[]byte\<close> are one value.  The mutex makes
  \<open>updateAndPersist\<close> one step.
\<close>

section \<open>Data\<close>

definition SessionFile :: string where "SessionFile = ''session.enc''"

record sessionData =
  sd_UserID :: string
  sd_MasterKey :: bytes
  sd_AccessToken :: string
  sd_RefreshToken :: string

record Session =
  sn_UserID :: string
  sn_MasterKey :: bytes
  sn_AccessToken :: string
  sn_RefreshToken :: string

definition session_members :: "sessionData \<Rightarrow> (string \<times> json) list" where
  "session_members d =
     [(''user_id'', JStr (sd_UserID d)), (''master_key'', JStr (b64_enc (sd_MasterKey d))),
      (''access_token'', JStr (sd_AccessToken d)), (''refresh_token'', JStr (sd_RefreshToken d))]"

definition session_fields :: "sessionData field list" where
  "session_fields =
     [str_field ''user_id'' (\<lambda>s d. d\<lparr>sd_UserID := s\<rparr>),
      bytes_field ''master_key'' (\<lambda>b d. d\<lparr>sd_MasterKey := b\<rparr>),
      str_field ''access_token'' (\<lambda>s d. d\<lparr>sd_AccessToken := s\<rparr>),
      str_field ''refresh_token'' (\<lambda>s d. d\<lparr>sd_RefreshToken := s\<rparr>)]"

definition zero_session :: sessionData where
  "zero_session = \<lparr>sd_UserID = [], sd_MasterKey = [], sd_AccessToken = [], sd_RefreshToken = []\<rparr>"

text \<open>\<open>json.Marshal\<close> of the struct, which cannot fail.\<close>

definition session_json :: "sessionData \<Rightarrow> bytes" where
  "session_json d = marshal_json (JObj (session_members d))"

section \<open>Saving and loading\<close>

definition Save ::
  "(error + bytes) \<Rightarrow> write_fault \<Rightarrow> bytes \<Rightarrow> string \<Rightarrow> bytes \<Rightarrow> string \<Rightarrow> string \<Rightarrow> files \<Rightarrow> unit res \<times> files" where
  "Save rnd wr encKey userID masterKey access refresh fs =
     (let data = \<lparr>sd_UserID = userID, sd_MasterKey = masterKey, sd_AccessToken = access, sd_RefreshToken = refresh\<rparr>
      in try_res (Encrypt rnd (session_json data) encKey) (Wrapf ''encrypt session'') fs
           (\<lambda>encrypted. WriteFile wr SessionFile encrypted fs))"

definition session_salt :: bytes where
  "session_salt = bytes_of ''gophkeepston-session-salt''"

definition Load :: "scrypt_fun \<Rightarrow> error option \<Rightarrow> bytes \<Rightarrow> files \<Rightarrow> Session res" where
  "Load kdf rf password fs =
     bind_res (wrap_err ''derive session key'' (DeriveKey kdf password session_salt)) (\<lambda>k.
     bind_res (res_of (ReadFile rf SessionFile fs)) (\<lambda>encrypted.
     bind_res (wrap_err ''decrypt session'' (Decrypt encrypted k)) (\<lambda>plain.
     bind_res (wrap_err ''unmarshal session'' (unmarshal_struct session_fields zero_session plain)) (\<lambda>d.
     Ok \<lparr>sn_UserID = sd_UserID d, sn_MasterKey = sd_MasterKey d,
         sn_AccessToken = sd_AccessToken d, sn_RefreshToken = sd_RefreshToken d\<rparr>))))"

section \<open>Expiry and refresh\<close>

text \<open>
  The token's claims are read without checking its signature; the access token counts as
  expired when it cannot be read, has no numeric \<open>exp\<close>, or the clock is past that second.
\<close>

definition isTokenExpired :: "jwt_lib \<Rightarrow> int \<Rightarrow> Session \<Rightarrow> bool" where
  "isTokenExpired J now s =
     (let tokenStr = sn_AccessToken s in
      if tokenStr = '''' then True
      else (case ParseUnverified J tokenStr of
              Ok t \<Rightarrow>
                (case Claims t of
                   None \<Rightarrow> True
                 | Some claims \<Rightarrow>
                     (case claims ''exp'' of
                        Some (CNum e) \<Rightarrow> now > e * second
                      | Some (CFrac e) \<Rightarrow> now > e * second
                      | _ \<Rightarrow> True))
            | _ \<Rightarrow> True))"

text \<open>What one refresh meets: the random source, the two file operations, the clock.\<close>

record sess_env =
  se_rnd :: "error + bytes"
  se_write :: write_fault
  se_rename :: "error option"
  se_now :: int

definition session_data :: "Session \<Rightarrow> sessionData" where
  "session_data s = \<lparr>sd_UserID = sn_UserID s, sd_MasterKey = sn_MasterKey s,
     sd_AccessToken = sn_AccessToken s, sd_RefreshToken = sn_RefreshToken s\<rparr>"

text \<open>The tokens in memory change first; the file is replaced through a temporary one.\<close>

definition updateAndPersist ::
  "sess_env \<Rightarrow> string \<Rightarrow> string \<Rightarrow> bytes \<Rightarrow> Session \<times> files \<Rightarrow> unit res \<times> Session \<times> files" where
  "updateAndPersist env newAccess newRefresh encKey sf =
     (let s = (fst sf)\<lparr>sn_AccessToken := newAccess, sn_RefreshToken := newRefresh\<rparr>;
          fs = snd sf; tmpFile = SessionFile @ ''.tmp'' in
      try_res (Encrypt (se_rnd env) (session_json (session_data s)) encKey) (Wrapf ''encrypt session'') (s, fs)
        (\<lambda>encrypted.
           case WriteFile (se_write env) tmpFile encrypted fs of (r, fs1) \<Rightarrow>
             try_res r (Wrapf ''write temp session'') (s, fs1)
               (\<lambda>_. case Rename (se_rename env) tmpFile SessionFile fs1 of (q, fs2) \<Rightarrow>
                  try_res q (Wrapf ''commit session'') (s, fs2) (\<lambda>_. (Ok (), s, fs2)))))"

text \<open>
  The interface \<open>AuthClient\<close> is its call \<open>Refresh\<close>, on a state \<open>'s\<close> that stands for the
  connection; a nil response is \<open>None\<close>.
\<close>

type_synonym 's refresh_fun = "string \<Rightarrow> 's \<Rightarrow> (string \<times> string) option res \<times> 's"

definition EnsureFreshAccessWithClient ::
  "jwt_lib \<Rightarrow> sess_env \<Rightarrow> 's refresh_fun \<Rightarrow> bytes \<Rightarrow> Session \<times> files \<times> 's \<Rightarrow> unit res \<times> Session \<times> files \<times> 's" where
  "EnsureFreshAccessWithClient J env Refresh sessionKey st =
     (case st of (s, fs, w) \<Rightarrow>
        if \<not> isTokenExpired J (se_now env) s then (Ok (), s, fs, w)
        else (case Refresh (sn_RefreshToken s) w of (r, w1) \<Rightarrow>
          try_res r (Wrapf ''refresh tokens from server'') (s, fs, w1)
            (\<lambda>resp. case resp of
               None \<Rightarrow> (Err (Errorf ''received nil response from refresh''), s, fs, w1)
             | Some (access, refresh) \<Rightarrow>
                 (case updateAndPersist env access refresh sessionKey (s, fs) of
                    (q, s1, fs1) \<Rightarrow> (q, s1, fs1, w1)))))"

text \<open>Dialling gives the client or an error.\<close>

definition EnsureFreshAccess ::
  "jwt_lib \<Rightarrow> sess_env \<Rightarrow> (error + 's refresh_fun) \<Rightarrow> bytes \<Rightarrow> Session \<times> files \<times> 's \<Rightarrow> unit res \<times> Session \<times> files \<times> 's" where
  "EnsureFreshAccess J env dial sessionKey st =
     (case dial of
        Inl e \<Rightarrow> (Err (Wrapf ''create auth client'' e), st)
      | Inr Refresh \<Rightarrow> EnsureFreshAccessWithClient J env Refresh sessionKey st)"

section \<open>What is written is what is read\<close>

lemma session_keys [simp]:
  "utf8_valid ''user_id''" "utf8_valid ''master_key''" "utf8_valid ''access_token''" "utf8_valid ''refresh_token''"
  by (rule utf8_lit, simp add: cc_def)+

definition session_utf8 :: "sessionData \<Rightarrow> bool" where
  "session_utf8 d \<longleftrightarrow> utf8_valid (sd_UserID d) \<and> utf8_valid (sd_AccessToken d) \<and> utf8_valid (sd_RefreshToken d)"

lemma set_session: "set_members session_fields (session_members d) zero_session = Some d"
  by (cases d)
    (simp add: session_fields_def session_members_def zero_session_def find_field_def str_field_def
      bytes_field_def bytes_json_def b64_dec_enc)

lemma session_json_size:
  "length (session_json d) \<le> 12 * length (sd_MasterKey d) +
    6 * (length (sd_UserID d) + length (sd_AccessToken d) + length (sd_RefreshToken d)) + 320"
proof -
  have "\<forall>(k, v) \<in> set (session_members d). flat v"
    by (simp add: session_members_def)
  from marshal_object_size [OF this] show ?thesis
    using b64_enc_length [of "sd_MasterKey d"]
    by (simp add: session_json_def session_members_def member_size_def)
qed

lemma unmarshal_session:
  assumes "session_utf8 d"
  shows "unmarshal_struct session_fields zero_session (session_json d) = Ok d"
proof -
  have "\<forall>(k, v) \<in> set (session_members d). utf8_valid k \<and> scalar v"
    using assms by (auto simp: session_members_def session_utf8_def)
  from unmarshal_marshal_object [OF this, of session_fields zero_session] show ?thesis
    by (simp add: session_json_def set_session)
qed

lemma Save_Ok:
  assumes "Save rnd wr k u mk a r fs = (Ok (), fs')"
  obtains nonce c where "rnd = Inr nonce" "fs' = fs(SessionFile \<mapsto> c)"
    "Encrypt (Inr nonce) (session_json \<lparr>sd_UserID = u, sd_MasterKey = mk, sd_AccessToken = a, sd_RefreshToken = r\<rparr>) k = Ok c"
proof -
  let ?p = "session_json \<lparr>sd_UserID = u, sd_MasterKey = mk, sd_AccessToken = a, sd_RefreshToken = r\<rparr>"
  obtain c where c: "Encrypt rnd ?p k = Ok c" "WriteFile wr SessionFile c fs = (Ok (), fs')"
    using assms by (auto simp: Save_def Let_def split: try_res_splits)
  obtain nonce where "rnd = Inr nonce" using c(1) by (auto simp: Encrypt_def split: res.splits sum.splits)
  then show ?thesis using that c WriteFile_Ok by blast
qed

lemma Load_session:
  assumes "DeriveKey kdf pw session_salt = Ok k" and "fs SessionFile = Some c"
    and "Decrypt c k = Ok (session_json (session_data s))" and "session_utf8 (session_data s)"
  shows "Load kdf None pw fs = Ok s"
  using assms by (simp add: Load_def unmarshal_session ReadFile_def session_data_def)

lemma Load_Ok:
  assumes "Load kdf rf pw fs = Ok s"
  obtains k c p where "DeriveKey kdf pw session_salt = Ok k" "fs SessionFile = Some c" "Decrypt c k = Ok p"
  using assms that by (auto simp: Load_def)

lemma updateAndPersist_cases:
  assumes "updateAndPersist env a r k (s, fs) = (q, s', fs')"
  shows "s' = s\<lparr>sn_AccessToken := a, sn_RefreshToken := r\<rparr> \<and>
    (\<forall>name. name \<noteq> SessionFile \<longrightarrow> name \<noteq> SessionFile @ ''.tmp'' \<longrightarrow> fs' name = fs name) \<and>
    (q = Ok () \<and> (\<exists>nonce c. se_rnd env = Inr nonce \<and> fs' SessionFile = Some c \<and>
        Encrypt (Inr nonce) (session_json (session_data s')) k = Ok c) \<or>
     \<not> is_ok q \<and> fs' SessionFile = fs SessionFile)"
proof -
  let ?s = "s\<lparr>sn_AccessToken := a, sn_RefreshToken := r\<rparr>" and ?t = "SessionFile @ ''.tmp''"
  let ?p = "session_json (session_data ?s)"
  show ?thesis
  proof (cases "Encrypt (se_rnd env) ?p k")
    case (Ok c)
    obtain nonce where n: "se_rnd env = Inr nonce" using Ok by (auto simp: Encrypt_def split: res.splits sum.splits)
    show ?thesis
      using assms Ok n by (cases "se_write env")
        (auto simp: updateAndPersist_def Let_def Rename_def SessionFile_def split: option.splits)
  qed (use assms in \<open>auto simp: updateAndPersist_def Let_def\<close>)
qed

context jwt
begin

lemma expiry_of_signed:
  assumes "GenerateAccessToken J m t1 t2 u = Ok tok" and "tok \<noteq> ''''" and "sn_AccessToken s = tok"
    and "utf8_valid u" and "exact (Unix (t1 + accessTTL m))" and "exact (Unix t2)"
  shows "isTokenExpired J now s \<longleftrightarrow> Unix (t1 + accessTTL m) * second < now"
  using sign [OF assms(4-6), of "secret m" tok] assms(1-3)
  by (simp add: GenerateAccessToken_def isTokenExpired_def token_claims_def)

end

section \<open>Properties\<close>

text \<open>
  C26. A session that was saved under the key derived from the password is loaded with that
  password exactly as it was saved.
\<close>

theorem session_roundtrip:
  assumes "Save (Inr nonce) wr k u mk a r fs = (Ok (), fs')" and "length nonce = NonceSize"
    and "DeriveKey kdf pw session_salt = Ok k" and "utf8_valid u" and "utf8_valid a" and "utf8_valid r"
  shows "Load kdf None pw fs' =
    Ok \<lparr>sn_UserID = u, sn_MasterKey = mk, sn_AccessToken = a, sn_RefreshToken = r\<rparr>"
proof -
  let ?d = "\<lparr>sd_UserID = u, sd_MasterKey = mk, sd_AccessToken = a, sd_RefreshToken = r\<rparr>"
  obtain c where c: "fs' = fs(SessionFile \<mapsto> c)" "Encrypt (Inr nonce) (session_json ?d) k = Ok c"
    using assms(1) by (auto elim!: Save_Ok)
  have "Decrypt c k = Ok (session_json ?d)" using c(2) assms(2) by (rule Decrypt_Encrypt)
  then show ?thesis
    using Load_session [OF assms(3), of fs' c "\<lparr>sn_UserID = u, sn_MasterKey = mk, sn_AccessToken = a, sn_RefreshToken = r\<rparr>"]
      c(1) assms(4-6) by (simp add: session_data_def session_utf8_def)
qed


text \<open>
  Client and server agree on when an access token has expired but for one instant: at
  exactly the second of \<open>exp\<close> the client still uses the token and the server refuses it.
\<close>

theorem expiry_agrees:
  assumes "jwt J verified" and "GenerateAccessToken J m t1 t2 u = Ok tok" and "tok \<noteq> ''''"
    and "sn_AccessToken s = tok"
    and "utf8_valid u" and "exact (Unix (t1 + accessTTL m))" and "exact (Unix t2)"
  shows "(isTokenExpired J now s = (\<not> is_ok (ValidateToken J m now tok))) =
    (now \<noteq> Unix (t1 + accessTTL m) * second)"
proof -
  have "is_ok (ValidateToken J m now tok) = (now < Unix (t1 + accessTTL m) * second)"
    using jwt.validate_signed [OF assms(1,5-7), of m tok now] assms(2)
    by (auto simp: GenerateAccessToken_def is_ok_iff)
  then show ?thesis unfolding jwt.expiry_of_signed [OF assms(1-7)] by auto
qed

section \<open>Witnesses\<close>

definition ref_password :: bytes where
  "ref_password = bytes_of ''password''"

definition ref_key :: bytes where
  "ref_key = take 32 (ref_password @ session_salt @ replicate 32 0)"

definition ref_session :: Session where
  "ref_session = \<lparr>sn_UserID = ''l'', sn_MasterKey = [1], sn_AccessToken = ''a'', sn_RefreshToken = ''r''\<rparr>"

lemma ref_derive: "DeriveKey ref_kdf ref_password session_salt = Ok ref_key"
  by (simp add: DeriveKey_def ref_kdf_def ref_key_def ref_password_def)

lemma ref_key_ok: "key_ok ref_key"
  by (simp add: key_ok_def ref_key_def ref_password_def session_salt_def)

lemma ref_utf8: "utf8_valid ''l'' \<and> utf8_valid ''a'' \<and> utf8_valid ''r''"
  by (intro conjI utf8_lit) (simp_all add: cc_def)

lemma ref_session_encrypts:
  "\<exists>c. Encrypt (Inr (replicate 12 0)) (session_json (session_data ref_session)) ref_key = Ok c"
proof -
  have "length (session_json (session_data ref_session)) \<le> 500"
    using session_json_size [of "session_data ref_session"]
    by (simp add: session_data_def ref_session_def)
  then have "length (session_json (session_data ref_session)) \<le> max_plain" by (simp add: max_plain_def)
  then show ?thesis
    using Encrypt_Ok [OF ref_key_ok, of "replicate 12 0" "session_json (session_data ref_session)"]
    by (auto simp: NonceSize_def)
qed

lemma ref_save:
  obtains fs' where "Save (Inr (replicate 12 0)) Written ref_key ''l'' [1] ''a'' ''r'' Map.empty = (Ok (), fs')"
  using ref_session_encrypts that by (auto simp: Save_def Let_def session_data_def ref_session_def)

theorem session_roundtrip_witness:
  "\<exists>fs'. Save (Inr (replicate 12 0)) Written ref_key ''l'' [1] ''a'' ''r'' Map.empty = (Ok (), fs') \<and>
     Load ref_kdf None ref_password fs' = Ok ref_session"
proof -
  obtain fs' where s: "Save (Inr (replicate 12 0)) Written ref_key ''l'' [1] ''a'' ''r'' Map.empty = (Ok (), fs')"
    using ref_save .
  then show ?thesis
    using session_roundtrip [OF s _ ref_derive] ref_utf8 by (auto simp: NonceSize_def ref_session_def)
qed


definition ref_sess_env :: "error option \<Rightarrow> sess_env" where
  "ref_sess_env e = \<lparr>se_rnd = Inr (replicate 12 0), se_write = Written, se_rename = e, se_now = 0\<rparr>"


theorem expiry_agrees_witness:
  "\<exists>tok. GenerateAccessToken ref_jwt ref_manager 0 0 ''u'' = Ok tok \<and>
     isTokenExpired ref_jwt (900 * second + 1) (ref_session\<lparr>sn_AccessToken := tok\<rparr>) = (\<not> is_ok (ValidateToken ref_jwt ref_manager (900 * second + 1) tok)) \<and>
     isTokenExpired ref_jwt (900 * second) (ref_session\<lparr>sn_AccessToken := tok\<rparr>) = is_ok (ValidateToken ref_jwt ref_manager (900 * second) tok)"
proof -
  let ?t = "frame ''s'' @ frame ''u'' @ frame (dec_int 900) @ frame (dec_int 0)"
  have g: "GenerateAccessToken ref_jwt ref_manager 0 0 ''u'' = Ok ?t" by (simp add: ref_access)
  have e: "Unix (0 + accessTTL ref_manager) = 900" by (simp add: Unix_def second_def)
  have ne: "?t \<noteq> ''''" by (simp add: frame_def)
  have ex: "exact (Unix (0 + accessTTL ref_manager))" "exact (Unix 0)"
    by (simp_all add: exact_def Unix_def second_def)
  have x: "(isTokenExpired ref_jwt now (ref_session\<lparr>sn_AccessToken := ?t\<rparr>) =
      (\<not> is_ok (ValidateToken ref_jwt ref_manager now ?t))) = (now \<noteq> 900 * second)" for now
    using expiry_agrees [OF ref_jwt.jwt_axioms g ne _ utf8_u ex, of "ref_session\<lparr>sn_AccessToken := ?t\<rparr>" now]
    unfolding e by simp
  show ?thesis
    by (rule exI [of _ ?t], intro conjI) (use x [of "900 * second + 1"] x [of "900 * second"] g in auto)
qed

lemma Load_returns:
  assumes "scrypt kdf"
  shows "returned (Load kdf rf pw fs)"
proof -
  have "returned (DeriveKey kdf pw salt)" for salt
    using scrypt.DeriveKey_cases [OF assms, of pw salt] by (cases "length pw < 8") auto
  moreover have "returned (Decrypt c k)" for c k using Decrypt_returns by (simp add: returned_iff)
  moreover have "returned (unmarshal_struct fs x d)" for fs :: "sessionData field list" and x d
    by simp
  ultimately show ?thesis by (simp add: Load_def returned_bind_res)
qed

end
