(* ===== verification/AuthClient.thy ===== *)
theory AuthClient
  imports Server Session
begin

text \<open>
  The clients' side of the connections: \<open>internal/client/authclient/authclient.go\<close> and the
  dialling half of \<open>internal/client/sync/sync.go\<close>.  The certificate pool and \<open>grpc.NewClient\<close>
  are parameters; the generated stub is a record of its calls.  The authentication client puts
  no metadata on its calls.
\<close>

section \<open>Dialling\<close>

text \<open>
  \<open>caCertPath\<close> is the value of \<open>TLS_CA_CERT\<close>, \<open>AppendCertsFromPEM\<close> whether the pool took a
  certificate from the data.  The answer is the data of the certificate pool, \<open>None\<close> for the
  system's.
\<close>

definition tlsCredentials :: "(bytes \<Rightarrow> bool) \<Rightarrow> error option \<Rightarrow> string \<Rightarrow> files \<Rightarrow> error + bytes option" where
  "tlsCredentials AppendCertsFromPEM rf caCertPath fs =
     (if caCertPath \<noteq> '''' then
        (case ReadFile rf caCertPath fs of
           Inl e \<Rightarrow> Inl (Wrapf ''read CA cert'' e)
         | Inr caCert \<Rightarrow>
             if \<not> AppendCertsFromPEM caCert then Inl (Errorf ''parse CA cert: invalid PEM'')
             else Inr (Some caCert))
      else Inr None)"

text \<open>The two clients wrap an error of \<open>grpc.NewClient\<close> differently.\<close>

definition auth_NewClient ::
  "(bytes \<Rightarrow> bool) \<Rightarrow> error option \<Rightarrow> string \<Rightarrow> (string \<Rightarrow> bytes option \<Rightarrow> error + 'c) \<Rightarrow> string \<Rightarrow> files \<Rightarrow> error + 'c" where
  "auth_NewClient pem rf caCertPath grpc_NewClient addr fs =
     (case tlsCredentials pem rf caCertPath fs of
        Inl e \<Rightarrow> Inl (Wrapf ''tls credentials'' e)
      | Inr creds \<Rightarrow>
          (case grpc_NewClient addr creds of
             Inl e \<Rightarrow> Inl (Wrapf ''grpc dial'' e)
           | Inr conn \<Rightarrow> Inr conn))"

definition sync_NewClient ::
  "(bytes \<Rightarrow> bool) \<Rightarrow> error option \<Rightarrow> string \<Rightarrow> (string \<Rightarrow> bytes option \<Rightarrow> error + 'c) \<Rightarrow> string \<Rightarrow> files \<Rightarrow> error + 'c" where
  "sync_NewClient pem rf caCertPath grpc_NewClient addr fs =
     (case tlsCredentials pem rf caCertPath fs of
        Inl e \<Rightarrow> Inl (Wrapf ''tls credentials'' e)
      | Inr creds \<Rightarrow>
          (case grpc_NewClient addr creds of
             Inl e \<Rightarrow> Inl (Wrapf ''dial'' e)
           | Inr conn \<Rightarrow> Inr conn))"

text \<open>A certificate file that is named is used, or dialling fails: no fall-back to the system's.\<close>

lemma tlsCredentials_named:
  "caCertPath \<noteq> '''' \<Longrightarrow> tlsCredentials pem rf caCertPath fs = Inr creds \<Longrightarrow>
     \<exists>data. creds = Some data \<and> fs caCertPath = Some data \<and> pem data"
  by (auto simp: tlsCredentials_def split: if_splits sum.splits)

section \<open>The authentication client\<close>

record 's auth_stub =
  stub_Register :: "metadata \<Rightarrow> string \<Rightarrow> bytes \<Rightarrow> 's \<Rightarrow> string res \<times> 's"
  stub_Login :: "metadata \<Rightarrow> string \<Rightarrow> 's \<Rightarrow> LoginResponse res \<times> 's"
  stub_RefreshToken :: "metadata \<Rightarrow> string \<Rightarrow> 's \<Rightarrow> (string \<times> string) res \<times> 's"

definition cli_Register :: "'s auth_stub \<Rightarrow> string \<Rightarrow> bytes \<Rightarrow> 's \<Rightarrow> string res \<times> 's" where
  "cli_Register c login encSecret s = stub_Register c [] login encSecret s"

definition cli_Login :: "'s auth_stub \<Rightarrow> string \<Rightarrow> 's \<Rightarrow> LoginResponse res \<times> 's" where
  "cli_Login c login s = stub_Login c [] login s"

definition cli_Refresh :: "'s auth_stub \<Rightarrow> 's refresh_fun" where
  "cli_Refresh c refreshToken s =
     (case stub_RefreshToken c [] refreshToken s of (r, s') \<Rightarrow> (map_res Some r, s'))"

text \<open>The stub on a connection to the server of \<open>Server\<close>.\<close>

definition net_auth_stub ::
  "jwt_lib \<Rightarrow> Manager \<Rightarrow> (nat \<Rightarrow> rpc_env) \<Rightarrow> (rpc_env \<Rightarrow> auth_env) \<Rightarrow> string \<Rightarrow> world auth_stub" where
  "net_auth_stub J m envs ae peer = \<lparr>
     stub_Register = (\<lambda>md login sec. net_call envs peer md (\<lambda>env. serve_Register J m env (ae env) login sec)),
     stub_Login = (\<lambda>md login. net_call envs peer md (\<lambda>env. serve_Login J m env (ae env) login)),
     stub_RefreshToken = (\<lambda>md tok. net_call envs peer md (\<lambda>env. serve_RefreshToken J m env (ae env) tok)) \<rparr>"

text \<open>A refresh from a client never gets through.\<close>

lemma net_refresh_fails:
  assumes "cli_Refresh (net_auth_stub J m envs ae peer) tok w = (r, w')"
  shows "(\<exists>e. r = Err e) \<and> database (srv w') = database (srv w)"
proof -
  let ?env = "envs (calls w)" and ?ctx = "\<lparr>c_peer = Some peer, c_md = Some [], c_user = None\<rparr>"
  obtain q s' where q: "serve_RefreshToken J m ?env (ae ?env) tok ?ctx (srv w) = (q, s')" by fastforce
  have "(\<exists>e. q = Err e) \<and> database s' = database (srv w)"
    using q limit_step_database [of "re_rl ?env" ?ctx "srv w"]
    by (auto simp: serve_RefreshToken_def interceptor_unfold Let_def refresh_method_def register_method_def
        login_method_def md_Get_def split: if_splits)
  then show ?thesis
    using assms q
    by (auto simp: cli_Refresh_def net_auth_stub_def net_call_def Let_def split: option.splits prod.splits)
qed

text \<open>What a registration and a login through the connection come from.\<close>

lemma net_register:
  assumes "cli_Register (net_auth_stub J m envs ae peer) login sec w = (Ok u, w')"
  shows "\<exists>env s1. srv_Register (ae env) login sec s1 = (Ok u, srv w') \<and> database s1 = database (srv w)"
proof -
  let ?env = "envs (calls w)" and ?ctx = "\<lparr>c_peer = Some peer, c_md = Some [], c_user = None\<rparr>"
  have "serve_Register J m ?env (ae ?env) login sec ?ctx (srv w) = (Ok u, srv w')"
    using assms by (auto simp: cli_Register_def net_auth_stub_def net_call_def Let_def split: option.splits prod.splits)
  then have "srv_Register (ae ?env) login sec (snd (limit_step (re_rl ?env) ?ctx (srv w))) = (Ok u, srv w')"
    by (auto simp: serve_Register_def interceptor_unfold Let_def split: if_splits)
  then show ?thesis using limit_step_database by metis
qed

lemma net_login:
  assumes "cli_Login (net_auth_stub J m envs ae peer) login w = (Ok resp, w')"
  shows "\<exists>env s1. srv_Login J m (ae env) login s1 = (Ok resp, srv w') \<and> database s1 = database (srv w)"
proof -
  let ?env = "envs (calls w)" and ?ctx = "\<lparr>c_peer = Some peer, c_md = Some [], c_user = None\<rparr>"
  have "serve_Login J m ?env (ae ?env) login ?ctx (srv w) = (Ok resp, srv w')"
    using assms by (auto simp: cli_Login_def net_auth_stub_def net_call_def Let_def split: option.splits prod.splits)
  then have "srv_Login J m (ae ?env) login (snd (limit_step (re_rl ?env) ?ctx (srv w))) = (Ok resp, srv w')"
    by (auto simp: serve_Login_def interceptor_unfold Let_def split: if_splits)
  then show ?thesis using limit_step_database by metis
qed

end
