(* ===== verification/Cli.thy ===== *)
theory Cli
  imports AuthClient Entry
begin

text \<open>
  The command-line client, \<open>cmd/client/main.go\<close>: the session check that runs before the
  commands, and the commands \<open>register\<close>, \<open>login\<close>, \<open>add\<close>, \<open>get\<close>, \<open>list\<close> and \<open>delete\<close>.  What the
  user types is an argument; a command answers what it prints at the end, or its error.  The
  prompts, the deadlines of the contexts and the log line of a failed synchronisation are not
  modelled.
\<close>

section \<open>State and surroundings\<close>

text \<open>
  The globals of the process (\<open>localStore\<close> as whether it is non-nil, a nil \<open>masterKey\<close> as the
  empty list), the working directory, the database file, and the rest of the world.
\<close>

record ('b, 's) cli =
  localStore :: bool
  userID :: string
  masterKey :: bytes
  accessToken :: string
  cwd :: files
  dbfile :: "'b db"
  net :: 's

text \<open>
  What a command meets: \<open>ce_open\<close> is \<open>bbolt.Open\<close> on the file, \<open>ce_auth\<close> and \<open>ce_sync\<close> what
  dialling gives, \<open>ce_rnd n\<close> the \<open>n\<close>-th read of \<open>crypto/rand\<close>, \<open>ce_nano n\<close> the \<open>n\<close>-th reading of
  \<open>time.Now().UnixNano()\<close>, \<open>ce_clk i\<close> the clock when entry \<open>i\<close> is pushed, \<open>ce_sess\<close> what the
  refresh of the session meets.
\<close>

record ('b, 's) cli_env =
  ce_kdf :: scrypt_fun
  ce_bolt :: "'b bolt_ops"
  ce_open :: "'b db \<Rightarrow> error + 'b db"
  ce_auth :: "error + 's auth_stub"
  ce_sync :: "error + 's sync_stub"
  ce_rnd :: "nat \<Rightarrow> error + bytes"
  ce_nano :: "nat \<Rightarrow> int64"
  ce_clk :: "string \<Rightarrow> int64"
  ce_read :: "error option"
  ce_write :: write_fault
  ce_jwt :: jwt_lib
  ce_sess :: sess_env

definition reg_salt :: bytes where
  "reg_salt = bytes_of ''gophkeepston-reg-salt''"

text \<open>\<open>localStore, err = store.NewStore("gophkeepston.db")\<close>\<close>

definition open_store :: "('b, 's) cli_env \<Rightarrow> ('b, 's) cli \<Rightarrow> unit res \<times> ('b, 's) cli" where
  "open_store env s =
     (case NewStore (ce_bolt env) (ce_open env (dbfile s)) of
        (r, d) \<Rightarrow> (wrap_err ''open store'' (map_res (\<lambda>_. ()) r),
                  s\<lparr>localStore := is_ok r, dbfile := (case d of None \<Rightarrow> dbfile s | Some d' \<Rightarrow> d')\<rparr>))"

text \<open>A method called on the nil store panics.\<close>

definition on_store :: "('b db \<Rightarrow> 'r res \<times> 'b db) \<Rightarrow> ('b, 's) cli \<Rightarrow> 'r res \<times> ('b, 's) cli" where
  "on_store f s =
     (if \<not> localStore s then (Panic, s)
      else (case f (dbfile s) of (r, d) \<Rightarrow> (r, s\<lparr>dbfile := d\<rparr>)))"

text \<open>\<open>syncclient.FullSync\<close> with the globals' store and a user and token.\<close>

definition sync_step :: "('b, 's) cli_env \<Rightarrow> string \<Rightarrow> string \<Rightarrow> ('b, 's) cli \<Rightarrow> unit res \<times> ('b, 's) cli" where
  "sync_step env u tok s =
     (case FullSync (ce_bolt env) (ce_sync env) (ce_clk env) u tok (dbfile s, net s) of
        (r, d, w) \<Rightarrow> (r, s\<lparr>dbfile := d, net := w\<rparr>))"

section \<open>Commands\<close>

definition requireSession :: "('b, 's) cli_env \<Rightarrow> bytes \<Rightarrow> ('b, 's) cli \<Rightarrow> unit res \<times> ('b, 's) cli" where
  "requireSession env password s0 =
     (if localStore s0 \<and> masterKey s0 \<noteq> [] then (Ok (), s0)
      else
        try_res (Load (ce_kdf env) (ce_read env) password (cwd s0))
          (\<lambda>_. Errorf ''not logged in (session not found or invalid password)'') s0
        (\<lambda>sess.
        and_then (open_store env (s0\<lparr>userID := sn_UserID sess, masterKey := sn_MasterKey sess\<rparr>)) (\<lambda>_ s1.
        try_res (DeriveKey (ce_kdf env) password session_salt) (Wrapf ''derive session key'') s1
        (\<lambda>sessionKey.
        case EnsureFreshAccess (ce_jwt env) (ce_sess env) (map_sum id cli_Refresh (ce_auth env)) sessionKey
               (sess, cwd s1, net s1) of
          (r, sess', fs, w) \<Rightarrow>
        and_then (wrap_err ''refresh session'' r, s1\<lparr>cwd := fs, net := w\<rparr>) (\<lambda>_ s2.
        and_then (case sync_step env (sn_UserID sess') (sn_AccessToken sess')
                    (s2\<lparr>accessToken := sn_AccessToken sess'\<rparr>) of (q, s3) \<Rightarrow> (drop_err () q, s3))
        (\<lambda>_ s3. (Ok (), s3)))))))"

text \<open>\<open>runSync\<close> prints the error of the synchronisation and goes on.\<close>

definition runSync :: "('b, 's) cli_env \<Rightarrow> ('b, 's) cli \<Rightarrow> unit res \<times> ('b, 's) cli" where
  "runSync env s = (case sync_step env (userID s) (accessToken s) s of (r, s') \<Rightarrow> (drop_err () r, s'))"

definition registerCmd :: "('b, 's) cli_env \<Rightarrow> string \<Rightarrow> bytes \<Rightarrow> ('b, 's) cli \<Rightarrow> string res \<times> ('b, 's) cli" where
  "registerCmd env login password s =
     try_res (res_of (ce_rnd env 0)) (Wrapf ''rand'') s (\<lambda>secret.
     try_res (DeriveKey (ce_kdf env) password reg_salt) (Wrapf ''derive reg key'') s (\<lambda>regKey.
     try_res (Encrypt (ce_rnd env 1) secret regKey) (Wrapf ''encrypt secret'') s (\<lambda>encSecret.
     try_res (res_of (ce_auth env)) id s (\<lambda>client.
     case cli_Register client login encSecret (net s) of (r, w) \<Rightarrow>
     try_res r (Wrapf ''register'') (s\<lparr>net := w\<rparr>) (\<lambda>uid.
     (Ok (''User registered: '' @ uid), s\<lparr>net := w\<rparr>))))))"

definition loginCmd :: "('b, 's) cli_env \<Rightarrow> string \<Rightarrow> bytes \<Rightarrow> ('b, 's) cli \<Rightarrow> string res \<times> ('b, 's) cli" where
  "loginCmd env login password s0 =
     try_res (res_of (ce_auth env)) id s0 (\<lambda>client.
     case cli_Login client login (net s0) of (r, w) \<Rightarrow>
     (let s = s0\<lparr>net := w\<rparr> in
     try_res r (Wrapf ''login'') s (\<lambda>resp.
     try_res (DeriveKey (ce_kdf env) password reg_salt) (Wrapf ''derive reg key'') s (\<lambda>regKey.
     try_res (Decrypt (EncryptedSecret resp) regKey) (Wrapf ''invalid master password'') s (\<lambda>secret.
     try_res (DeriveKey (ce_kdf env) (secret @ password) (Salt resp)) (Wrapf ''derive master key'') s (\<lambda>master.
     and_then (open_store env (s\<lparr>userID := login\<rparr>)) (\<lambda>_ s1.
     try_res (DeriveKey (ce_kdf env) (secret @ password) (Salt resp)) (Wrapf ''derive session key'') s1 (\<lambda>sessionKey.
     case Save (ce_rnd env 0) (ce_write env) sessionKey (userID s1) master (AccessToken resp) (RefreshToken resp) (cwd s1) of
       (q, fs) \<Rightarrow>
     try_res q (Wrapf ''save session'') (s1\<lparr>cwd := fs\<rparr>) (\<lambda>_.
     and_then (case sync_step env (userID s1) (AccessToken resp) (s1\<lparr>cwd := fs\<rparr>) of (q, s2) \<Rightarrow> (drop_err () q, s2))
     (\<lambda>_ s2. (Ok ''Logged in successfully. Session saved.'', s2)))))))))))"

text \<open>What \<open>add\<close> reads from the user, by the type given on the command line.\<close>

datatype add_input =
    AddPassword string string bytes string
  | AddText string string string
  | AddCard string string string string string
  | AddBinary string string
  | AddOther string

fun add_type :: "add_input \<Rightarrow> string" where
  "add_type (AddPassword site login pass meta) = ''password''"
| "add_type (AddText title content meta) = ''text''"
| "add_type (AddCard number expiry cvv holder meta) = ''card''"
| "add_type (AddBinary path meta) = ''binary''"
| "add_type (AddOther typ) = typ"

fun add_entry :: "error option \<Rightarrow> files \<Rightarrow> add_input \<Rightarrow> entry res" where
  "add_entry rf fs (AddPassword site login pass meta) =
     Ok (Password (zero_password\<lparr>pw_Type := TypePassword, pw_Site := site, pw_Login := login,
       pw_Password := str_of pass, pw_Meta := meta\<rparr>))"
| "add_entry rf fs (AddText title content meta) =
     Ok (Text (zero_text\<lparr>tx_Type := TypeText, tx_Title := title, tx_Content := content, tx_Meta := meta\<rparr>))"
| "add_entry rf fs (AddCard number expiry cvv holder meta) =
     Ok (Card (zero_card\<lparr>cd_Type := TypeCard, cd_Number := number, cd_Expiry := expiry, cd_CVV := cvv,
       cd_Holder := holder, cd_Meta := meta\<rparr>))"
| "add_entry rf fs (AddBinary path meta) =
     bind_res (wrap_err ''read file'' (res_of (ReadFile rf path fs))) (\<lambda>data.
       Ok (Binary (zero_binary\<lparr>bn_Type := TypeBinary, bn_FileName := Base path, bn_Data := data, bn_Meta := meta\<rparr>)))"
| "add_entry rf fs (AddOther typ) = Err (Errorf (''unsupported type: '' @ typ))"

definition addCmd :: "('b, 's) cli_env \<Rightarrow> add_input \<Rightarrow> ('b, 's) cli \<Rightarrow> string res \<times> ('b, 's) cli" where
  "addCmd env inp s =
     try_res (add_entry (ce_read env) (cwd s) inp) id s (\<lambda>e.
     try_res (Marshal e) (Wrapf ''marshal'') s (\<lambda>plain.
     try_res (Encrypt (ce_rnd env 0) plain (masterKey s)) (Wrapf ''encrypt'') s (\<lambda>ciphertext.
     (let entryID = add_type inp @ ''-'' @ dec_int (sint (ce_nano env 0)) in
     and_then (case on_store (\<lambda>d. Put (ce_bolt env) d (userID s) entryID ciphertext) s of
                 (r, s1) \<Rightarrow> (wrap_err ''store'' r, s1)) (\<lambda>_ s1.
     and_then (case on_store (\<lambda>d. PutVersion (ce_bolt env) d (userID s) entryID (ce_nano env 1)) s1 of
                 (r, s2) \<Rightarrow> (drop_err () r, s2)) (\<lambda>_ s2.
     and_then (runSync env s2) (\<lambda>_ s3. (Ok entryID, s3))))))))"

definition nl :: string where "nl = [char_of (10 :: nat)]"

fun entry_text :: "entry \<Rightarrow> string" where
  "entry_text (Password v) = ''Site: '' @ pw_Site v @ nl @ ''Login: '' @ pw_Login v @ nl @
     ''Password: '' @ pw_Password v @ nl @ ''Meta: '' @ pw_Meta v @ nl"
| "entry_text (Text v) = ''Title: '' @ tx_Title v @ nl @ ''Content: '' @ tx_Content v @ nl @
     ''Meta: '' @ tx_Meta v @ nl"
| "entry_text (Card v) = ''Number: '' @ cd_Number v @ nl @ ''Expiry: '' @ cd_Expiry v @ nl @
     ''CVV: '' @ cd_CVV v @ nl @ ''Holder: '' @ cd_Holder v @ nl @ ''Meta: '' @ cd_Meta v @ nl"
| "entry_text (Binary v) = ''Binary saved to '' @ bn_FileName v @ ''.extracted'' @ nl @
     ''Meta: '' @ bn_Meta v @ nl"

definition getCmd :: "('b, 's) cli_env \<Rightarrow> string \<Rightarrow> ('b, 's) cli \<Rightarrow> string res \<times> ('b, 's) cli" where
  "getCmd env entryID s =
     and_then (on_store (\<lambda>d. (wrap_err ''get'' (Get (ce_bolt env) d (userID s) entryID), d)) s) (\<lambda>ciphertext s.
     try_res (Decrypt ciphertext (masterKey s)) (Wrapf ''decrypt'') s (\<lambda>plain.
     try_res (Unmarshal plain) (Wrapf ''unmarshal entry'') s (\<lambda>e.
     case e of
       Binary v \<Rightarrow>
         (case WriteFile (ce_write env) (bn_FileName v @ ''.extracted'') (bn_Data v) (cwd s) of
            (r, fs) \<Rightarrow> try_res r (Wrapf ''write file'') (s\<lparr>cwd := fs\<rparr>)
                        (\<lambda>_. (Ok (entry_text e), s\<lparr>cwd := fs\<rparr>)))
     | _ \<Rightarrow> (Ok (entry_text e), s))))"

definition listCmd :: "('b, 's) cli_env \<Rightarrow> ('b, 's) cli \<Rightarrow> string list res \<times> ('b, 's) cli" where
  "listCmd env s = on_store (\<lambda>d. (List (ce_bolt env) d (userID s), d)) s"

definition deleteCmd :: "('b, 's) cli_env \<Rightarrow> string \<Rightarrow> ('b, 's) cli \<Rightarrow> string res \<times> ('b, 's) cli" where
  "deleteCmd env entryID s =
     and_then (case on_store (\<lambda>d. PutVersion (ce_bolt env) d (userID s) entryID (- 1)) s of
                 (r, s1) \<Rightarrow> (drop_err () r, s1)) (\<lambda>_ s1.
     and_then (runSync env s1) (\<lambda>_ s2.
       (Ok (''Marked '' @ entryID @ '' for deletion''), s2)))"

text \<open>
  The root command: one process runs one command, and the four that need the user's key run
  \<open>requireSession\<close> first.
\<close>

datatype command =
    Register string
  | Login string
  | AddEntry add_input
  | GetEntry string
  | ListEntries
  | DeleteEntry string

definition with_session ::
  "('b, 's) cli_env \<Rightarrow> bytes \<Rightarrow> (('b, 's) cli \<Rightarrow> string list res \<times> ('b, 's) cli) \<Rightarrow> ('b, 's) cli \<Rightarrow>
     string list res \<times> ('b, 's) cli" where
  "with_session env password run s = and_then (requireSession env password s) (\<lambda>_ s1. run s1)"

definition one_line :: "string res \<times> 's \<Rightarrow> string list res \<times> 's" where
  "one_line p = (map_res (\<lambda>l. [l]) (fst p), snd p)"

fun execute :: "('b, 's) cli_env \<Rightarrow> bytes \<Rightarrow> command \<Rightarrow> ('b, 's) cli \<Rightarrow> string list res \<times> ('b, 's) cli" where
  "execute env password (Register login) s = one_line (registerCmd env login password s)"
| "execute env password (Login login) s = one_line (loginCmd env login password s)"
| "execute env password (AddEntry inp) s = with_session env password (\<lambda>s. one_line (addCmd env inp s)) s"
| "execute env password (GetEntry i) s = with_session env password (\<lambda>s. one_line (getCmd env i s)) s"
| "execute env password ListEntries s = with_session env password (listCmd env) s"
| "execute env password (DeleteEntry i) s = with_session env password (\<lambda>s. one_line (deleteCmd env i s)) s"

section \<open>The store under the commands\<close>

context bolt
begin

lemma update_returns:
  assumes "returned (f d)"
  shows "returned (fst (db_update B d f))"
  using update [of d f] assms by (cases "f d") auto

lemma NewStore_returns: "returned (fst (NewStore B opened))"
proof (cases opened)
  case (Inr d)
  let ?f = "\<lambda>tx. case tx_create B tx ''entries'' of
         Inl e \<Rightarrow> Err e
       | Inr tx1 \<Rightarrow> (case tx_create B tx1 ''versions'' of Inl e \<Rightarrow> Err e | Inr tx2 \<Rightarrow> Ok tx2)"
  have "returned (?f d)" by (simp split: sum.split)
  then have "returned (fst (db_update B d ?f))" by (intro update_returns)
  then show ?thesis
    using Inr by (auto simp: NewStore_def split: res.split prod.split)
qed (simp add: NewStore_def)

lemma PutVersion_buckets:
  assumes "PutVersion B d u i v = (r, d')"
  shows "buckets d' ''entries'' = buckets d ''entries''"
proof -
  let ?f = "\<lambda>tx. case buckets tx ''versions'' of
         None \<Rightarrow> Panic
       | Some b \<Rightarrow>
           (case bk_put B b (key u i) (int64ToBytes v) of
              Inl e \<Rightarrow> Err e
            | Inr b' \<Rightarrow> Ok (tx\<lparr>buckets := (buckets tx)(''versions'' \<mapsto> b')\<rparr>))"
  show ?thesis
    using update [of d ?f] assms unfolding PutVersion_def
    by (auto split: option.splits sum.splits)
qed

end

lemma FullSync_offline [simp]: "FullSync B (Inl e) clk u tok ds = (Err e, ds)"
  by (simp add: FullSync_def)

lemma runSync_offline: "ce_sync env = Inl e \<Longrightarrow> runSync env s = (Ok (), s)"
  by (simp add: runSync_def sync_step_def)

text \<open>An added entry is under its id, encrypted, whatever becomes of the version.\<close>

lemma addCmd_stores:
  assumes "bolt (ce_bolt env)" and "store_ok (ce_bolt env) (dbfile s)" and "ce_sync env = Inl e0"
    and "addCmd env inp s = (Ok i, s')"
  obtains e plain c where "add_entry (ce_read env) (cwd s) inp = Ok e" "Marshal e = Ok plain"
    "Encrypt (ce_rnd env 0) plain (masterKey s) = Ok c" "localStore s" "store_ok (ce_bolt env) (dbfile s')"
    "is_open (dbfile s') = is_open (dbfile s)" "entry_cell (ce_bolt env) (dbfile s') (key (userID s) i) = Some c"
    "s' = s\<lparr>dbfile := dbfile s'\<rparr>"
proof -
  let ?B = "ce_bolt env" and ?i = "add_type inp @ ''-'' @ dec_int (sint (ce_nano env 0))"
  obtain e plain c where e: "add_entry (ce_read env) (cwd s) inp = Ok e" "Marshal e = Ok plain"
    "Encrypt (ce_rnd env 0) plain (masterKey s) = Ok c"
    using assms(4) by (auto simp: addCmd_def Let_def split: try_res_splits)
  obtain r d1 where put: "Put ?B (dbfile s) (userID s) ?i c = (r, d1)" by fastforce
  obtain q d2 where ver: "PutVersion ?B d1 (userID s) ?i (ce_nano env 1) = (q, d2)" by fastforce
  note p = bolt.Put_step [OF assms(1,2) put]
  have st: "localStore s" and r: "r = Ok ()"
    using assms(4) e put p by (auto simp: addCmd_def Let_def on_store_def split: if_splits)
  note v = bolt.PutVersion_step [OF assms(1) conjunct1 [OF p] ver]
  have "s' = s\<lparr>dbfile := d2\<rparr>" and i: "i = ?i"
    using assms(4) e put ver r st v runSync_offline [OF assms(3)]
    by (auto simp: addCmd_def Let_def on_store_def)
  then show ?thesis using that [OF e st] p v r by (auto simp: i)
qed

lemma add_entry_type: "add_entry rf fs inp = Ok e \<Longrightarrow> type_field e = GetType e"
  by (cases inp) auto

text \<open>
  C32. A command that needs the user's key changes nothing, neither files nor store nor server,
  unless the password opens a saved session; it answers the error.\<close>

theorem locked_out:
  assumes "scrypt (ce_kdf env)" and "\<not> localStore s \<or> masterKey s = []"
    and "\<And>sess. Load (ce_kdf env) (ce_read env) pw (cwd s) \<noteq> Ok sess"
    and "\<And>login. c \<noteq> Register login" and "\<And>login. c \<noteq> Login login"
  shows "execute env pw c s =
    (Err (Errorf ''not logged in (session not found or invalid password)''), s)"
proof -
  have "returned (Load (ce_kdf env) (ce_read env) pw (cwd s))" by (rule Load_returns [OF assms(1)])
  then have "requireSession env pw s =
      (Err (Errorf ''not logged in (session not found or invalid password)''), s)"
    using assms(2,3) by (cases "Load (ce_kdf env) (ce_read env) pw (cwd s)") (auto simp: requireSession_def)
  then show ?thesis using assms(4,5) by (cases c) (auto simp: with_session_def)
qed

section \<open>Logging in\<close>

text \<open>What a login that succeeds did: the key it derived, and the session it saved under it.\<close>

lemma loginCmd_Ok:
  assumes "loginCmd env login pw s = (Ok msg, s')"
  obtains client resp w regKey secret mk nonce c where
    "ce_auth env = Inr client" "cli_Login client login (net s) = (Ok resp, w)"
    "DeriveKey (ce_kdf env) pw reg_salt = Ok regKey" "Decrypt (EncryptedSecret resp) regKey = Ok secret"
    "DeriveKey (ce_kdf env) (secret @ pw) (Salt resp) = Ok mk" "ce_rnd env 0 = Inr nonce"
    "cwd s' = (cwd s)(SessionFile \<mapsto> c)"
    "Encrypt (Inr nonce) (session_json \<lparr>sd_UserID = login, sd_MasterKey = mk,
       sd_AccessToken = AccessToken resp, sd_RefreshToken = RefreshToken resp\<rparr>) mk = Ok c"
proof -
  obtain client resp w where 1: "ce_auth env = Inr client" "cli_Login client login (net s) = (Ok resp, w)"
    using assms by (auto simp: loginCmd_def Let_def split: try_res_splits prod.splits)
  obtain regKey secret mk where 2: "DeriveKey (ce_kdf env) pw reg_salt = Ok regKey"
    "Decrypt (EncryptedSecret resp) regKey = Ok secret" "DeriveKey (ce_kdf env) (secret @ pw) (Salt resp) = Ok mk"
    using assms 1 by (auto simp: loginCmd_def Let_def split: try_res_splits)
  obtain q s1 where 3: "open_store env (s\<lparr>net := w, userID := login\<rparr>) = (q, s1)" by fastforce
  have s1: "cwd s1 = cwd s" "userID s1 = login" using 3 by (auto simp: open_store_def split: prod.splits)
  obtain q2 fs where 4: "Save (ce_rnd env 0) (ce_write env) mk login mk (AccessToken resp) (RefreshToken resp) (cwd s) = (q2, fs)"
    by fastforce
  have "q = Ok ()" using assms 1 2 3 by (cases q) (auto simp: loginCmd_def Let_def)
  moreover have "q2 = Ok ()"
    using assms 1 2 3 4 s1 calculation by (auto simp: loginCmd_def Let_def split: try_res_splits)
  moreover obtain q3 s2 where 5: "sync_step env login (AccessToken resp) (s1\<lparr>cwd := fs\<rparr>) = (q3, s2)" by fastforce
  ultimately have "s' = s2"
    using assms 1 2 3 4 s1 by (cases q3) (auto simp: loginCmd_def Let_def)
  then have "cwd s' = fs" using 5 by (auto simp: sync_step_def split: prod.splits)
  moreover obtain nonce c where "ce_rnd env 0 = Inr nonce" "fs = (cwd s)(SessionFile \<mapsto> c)"
    "Encrypt (Inr nonce) (session_json \<lparr>sd_UserID = login, sd_MasterKey = mk,
       sd_AccessToken = AccessToken resp, sd_RefreshToken = RefreshToken resp\<rparr>) mk = Ok c"
    using 4 \<open>q2 = Ok ()\<close> by (auto elim!: Save_Ok)
  ultimately show ?thesis using that 1 2 by blast
qed

text \<open>What a registration that succeeds did.\<close>

lemma registerCmd_Ok:
  assumes "registerCmd env login pw s = (Ok msg, s')"
  obtains client secret regKey sec uid w where
    "ce_auth env = Inr client" "ce_rnd env 0 = Inr secret" "DeriveKey (ce_kdf env) pw reg_salt = Ok regKey"
    "Encrypt (ce_rnd env 1) secret regKey = Ok sec" "cli_Register client login sec (net s) = (Ok uid, w)"
    "s' = s\<lparr>net := w\<rparr>" "msg = ''User registered: '' @ uid"
  using assms that by (auto simp: registerCmd_def split: try_res_splits prod.splits)

section \<open>Properties\<close>


text \<open>
  \<open>delete\<close> only marks: while the server cannot be reached it changes nothing but the version
  of the entry, so \<open>get\<close> still shows the entry and \<open>list\<close> still lists it.
\<close>

theorem delete_only_marks:
  assumes "bolt_reliable (ce_bolt env)" and "usable (ce_bolt env) (dbfile s)" and "localStore s"
    and "ce_sync env = Inl e0" and "length (userID s) + length i \<le> 32767"
  shows "\<exists>s'. deleteCmd env i s = (Ok (''Marked '' @ i @ '' for deletion''), s') \<and>
    version_cell (ce_bolt env) (dbfile s') = (version_cell (ce_bolt env) (dbfile s))(key (userID s) i \<mapsto> - 1) \<and>
    fst (getCmd env j s') = fst (getCmd env j s) \<and> fst (listCmd env s') = fst (listCmd env s)"
proof -
  let ?B = "ce_bolt env"
  have b: "bolt ?B" using assms(1) by (simp add: bolt_reliable_def)
  have "put_ok (key (userID s) i) []" using assms(5) by (simp add: put_ok_def length_key)
  then obtain d' where d': "PutVersion ?B (dbfile s) (userID s) i (- 1) = (Ok (), d')" "usable ?B d'"
    "version_cell ?B d' = (version_cell ?B (dbfile s))(key (userID s) i \<mapsto> - 1)" "entry_cell ?B d' = entry_cell ?B (dbfile s)"
    by (rule bolt_reliable.PutVersion_usable [OF assms(1,2)])
  have view: "db_view_err ?B d' = None" "db_view_err ?B (dbfile s) = None"
    using bolt_reliable.usable_view [OF assms(1)] d'(2) assms(2) by auto
  have get: "Get ?B d' (userID s) j = Get ?B (dbfile s) (userID s) j"
    using bolt.Get_cases [OF b] d'(2,4) assms(2) view by (simp add: usable_def)
  have "buckets d' ''entries'' = buckets (dbfile s) ''entries''" using bolt.PutVersion_buckets [OF b d'(1)] .
  then have list: "List ?B d' (userID s) = List ?B (dbfile s) (userID s)" using view by (simp add: List_def)
  have run: "deleteCmd env i s = (Ok (''Marked '' @ i @ '' for deletion''), s\<lparr>dbfile := d'\<rparr>)"
    using assms(3) d'(1) by (simp add: deleteCmd_def on_store_def runSync_offline [OF assms(4)])
  have "fst (getCmd env j (s\<lparr>dbfile := d'\<rparr>)) = fst (getCmd env j s)"
  proof (cases "Get ?B (dbfile s) (userID s) j")
    case (Ok x)
    then show ?thesis using get assms(3)
      by (auto simp: getCmd_def on_store_def split: try_res_splits entry.splits prod.splits)
  qed (use get assms(3) in \<open>simp_all add: getCmd_def on_store_def\<close>)
  then show ?thesis using run d'(3) list assms(3) by (simp add: listCmd_def on_store_def)
qed

text \<open>
  The account a registration leaves on the server is unlocked by the password it was made
  with: the stored secret decrypts to the random one, and with the stored salt it gives a
  master key for AES-256.
\<close>

theorem register_unlocks:
  assumes "scrypt (ce_kdf env)" and "ce_auth env = Inr (net_auth_stub J m envs ae peer)"
    and "\<And>nonce. ce_rnd env 1 = Inr nonce \<Longrightarrow> length nonce = NonceSize"
    and "registerCmd env login pw s = (Ok msg, s')"
  shows "\<exists>row regKey secret mk. row \<in> set (users_tab (database (srv (net s')))) \<and> u_login row = login \<and>
    msg = ''User registered: '' @ u_id row \<and>
    DeriveKey (ce_kdf env) pw reg_salt = Ok regKey \<and> ce_rnd env 0 = Inr secret \<and>
    Decrypt (u_secret row) regKey = Ok secret \<and>
    DeriveKey (ce_kdf env) (secret @ pw) (u_salt row) = Ok mk \<and> length mk = 32"
proof -
  obtain secret regKey sec uid w where r: "ce_rnd env 0 = Inr secret" "DeriveKey (ce_kdf env) pw reg_salt = Ok regKey"
    "Encrypt (ce_rnd env 1) secret regKey = Ok sec"
    "cli_Register (net_auth_stub J m envs ae peer) login sec (net s) = (Ok uid, w)"
    "s' = s\<lparr>net := w\<rparr>" "msg = ''User registered: '' @ uid"
    using assms(2,4) by (auto elim!: registerCmd_Ok)
  obtain aenv s1 where "srv_Register aenv login sec s1 = (Ok uid, srv w)"
    using net_register [OF r(4)] by blast
  from Register_row [OF this] obtain salt where row:
    "\<lparr>u_id = uid, u_login = login, u_secret = sec, u_salt = salt\<rparr> \<in> set (users_tab (database (srv w)))" by blast
  obtain nonce where n: "ce_rnd env 1 = Inr nonce" using r(3) by (auto simp: Encrypt_def split: res.splits sum.splits)
  then have dec: "Decrypt sec regKey = Ok secret" using Decrypt_Encrypt r(3) assms(3) by metis
  have "8 \<le> length pw" using r(2) scrypt.DeriveKey_cases [OF assms(1), of pw reg_salt] by (metis not_le res.distinct(1))
  then obtain mk where mk: "DeriveKey (ce_kdf env) (secret @ pw) salt = Ok mk" "length mk = 32"
    using scrypt.DeriveKey_cases [OF assms(1), of "secret @ pw" salt] by auto
  show ?thesis
    by (rule exI [of _ "\<lparr>u_id = uid, u_login = login, u_secret = sec, u_salt = salt\<rparr>"])
      (use r dec mk row in simp)
qed

text \<open>
  C29. Every device gets the same master key: two logins with one name and one password, on any
  two devices, against servers with the same accounts, save sessions with one master key, each
  encrypted under that very key.
\<close>

theorem devices_share_key:
  assumes "ce_auth env = Inr (net_auth_stub J m envs ae peer)" and "ce_auth env' = Inr (net_auth_stub J m envs' ae' peer')"
    and "ce_kdf env' = ce_kdf env" and "users_tab (database (srv (net s'))) = users_tab (database (srv (net s)))"
    and "loginCmd env login pw s = (Ok msg, t)" and "loginCmd env' login pw s' = (Ok msg', t')"
    and "\<And>nonce. ce_rnd env 0 = Inr nonce \<Longrightarrow> length nonce = NonceSize"
    and "\<And>nonce. ce_rnd env' 0 = Inr nonce \<Longrightarrow> length nonce = NonceSize"
  shows "\<exists>mk c c' d d'. cwd t SessionFile = Some c \<and> Decrypt c mk = Ok (session_json d) \<and> sd_MasterKey d = mk \<and>
    cwd t' SessionFile = Some c' \<and> Decrypt c' mk = Ok (session_json d') \<and> sd_MasterKey d' = mk"
proof -
  obtain resp w regKey secret mk nonce c where 1:
    "cli_Login (net_auth_stub J m envs ae peer) login (net s) = (Ok resp, w)"
    "DeriveKey (ce_kdf env) pw reg_salt = Ok regKey" "Decrypt (EncryptedSecret resp) regKey = Ok secret"
    "DeriveKey (ce_kdf env) (secret @ pw) (Salt resp) = Ok mk" "ce_rnd env 0 = Inr nonce"
    "cwd t = (cwd s)(SessionFile \<mapsto> c)"
    "Encrypt (Inr nonce) (session_json \<lparr>sd_UserID = login, sd_MasterKey = mk,
       sd_AccessToken = AccessToken resp, sd_RefreshToken = RefreshToken resp\<rparr>) mk = Ok c"
    using assms(1) by (auto intro: loginCmd_Ok [OF assms(5)])
  obtain resp' w' regKey' secret' mk' nonce' c' where 2:
    "cli_Login (net_auth_stub J m envs' ae' peer') login (net s') = (Ok resp', w')"
    "DeriveKey (ce_kdf env) pw reg_salt = Ok regKey'" "Decrypt (EncryptedSecret resp') regKey' = Ok secret'"
    "DeriveKey (ce_kdf env) (secret' @ pw) (Salt resp') = Ok mk'" "ce_rnd env' 0 = Inr nonce'"
    "cwd t' = (cwd s')(SessionFile \<mapsto> c')"
    "Encrypt (Inr nonce') (session_json \<lparr>sd_UserID = login, sd_MasterKey = mk',
       sd_AccessToken = AccessToken resp', sd_RefreshToken = RefreshToken resp'\<rparr>) mk' = Ok c'"
    using assms(2,3) by (auto intro: loginCmd_Ok [OF assms(6)])
  obtain e1 a1 where 3: "srv_Login J m e1 login a1 = (Ok resp, srv w)" "database a1 = database (srv (net s))"
    using net_login [OF 1(1)] by blast
  obtain e2 a2 where 4: "srv_Login J m e2 login a2 = (Ok resp', srv w')" "database a2 = database (srv (net s'))"
    using net_login [OF 2(1)] by blast
  have "account_of a2 login = account_of a1 login" using 3(2) 4(2) assms(4) by (simp add: account_of_def)
  then have "EncryptedSecret resp' = EncryptedSecret resp \<and> Salt resp' = Salt resp"
    using Login_row [OF 3(1)] Login_row [OF 4(1)] by auto
  then have mk: "mk' = mk" using 1 2 by auto
  show ?thesis
    using Decrypt_Encrypt [OF 1(7) assms(7) [OF 1(5)]] Decrypt_Encrypt [OF 2(7) assms(8) [OF 2(5)]] 1(6) 2(6) mk
    by (intro exI [of _ mk] exI [of _ c] exI [of _ c'] exI conjI) auto
qed



section \<open>Witnesses\<close>

definition ref_cli_env :: "(error + world auth_stub) \<Rightarrow> (alist, world) cli_env" where
  "ref_cli_env auth = \<lparr>ce_kdf = ref_kdf, ce_bolt = ref_bolt, ce_open = (\<lambda>d. Inr d), ce_auth = auth,
     ce_sync = Inl (Lib ''unreachable''), ce_rnd = (\<lambda>_. Inr (replicate 12 0)), ce_nano = (\<lambda>_. 7),
     ce_clk = (\<lambda>_. 7), ce_read = None, ce_write = Written, ce_jwt = ref_jwt, ce_sess = ref_sess_env None\<rparr>"

definition ref_cli :: "world \<Rightarrow> (alist, world) cli" where
  "ref_cli w = \<lparr>localStore = True, userID = ''l'', masterKey = ref_key, accessToken = '''', cwd = Map.empty,
     dbfile = ref_local [], net = w\<rparr>"

definition ref_auth :: "world auth_stub" where
  "ref_auth = net_auth_stub ref_jwt ref_manager (\<lambda>_. ref_rpc) (\<lambda>_. ref_env 0) ''p''"

text \<open>No server can be dialled.\<close>

definition offline :: "error + world auth_stub" where
  "offline = Inl (Lib ''unreachable'')"

lemma ref_cli_env_sel [simp]:
  "ce_kdf (ref_cli_env a) = ref_kdf" "ce_bolt (ref_cli_env a) = ref_bolt" "ce_open (ref_cli_env a) = (\<lambda>d. Inr d)"
  "ce_auth (ref_cli_env a) = a" "ce_sync (ref_cli_env a) = Inl (Lib ''unreachable'')"
  "ce_rnd (ref_cli_env a) = (\<lambda>_. Inr (replicate 12 0))" "ce_nano (ref_cli_env a) = (\<lambda>_. 7)"
  "ce_read (ref_cli_env a) = None" "ce_write (ref_cli_env a) = Written" "ce_jwt (ref_cli_env a) = ref_jwt"
  "ce_sess (ref_cli_env a) = ref_sess_env None"
  by (simp_all add: ref_cli_env_def)

lemma ref_cli_sel [simp]:
  "localStore (ref_cli w)" "userID (ref_cli w) = ''l''" "masterKey (ref_cli w) = ref_key"
  "cwd (ref_cli w) = Map.empty" "dbfile (ref_cli w) = ref_local []" "net (ref_cli w) = w"
  by (simp_all add: ref_cli_def)

definition ref_note :: entry where
  "ref_note = Text (zero_text\<lparr>tx_Type := TypeText, tx_Title := ''t'', tx_Content := ''c''\<rparr>)"

lemma ref_note_utf8: "entry_utf8 ref_note"
proof -
  have "utf8_valid ''t''" "utf8_valid ''c''" "utf8_valid ''text''" by (rule utf8_lit, simp add: cc_def)+
  then show ?thesis by (simp add: ref_note_def zero_text_def type_defs)
qed

lemma encrypts:
  assumes "length p \<le> 10000" and "key_ok k"
  obtains c where "Encrypt (Inr (replicate 12 0)) p k = Ok c" "length c = length p + 28"
proof -
  have "length p \<le> max_plain" using assms(1) by (simp add: max_plain_def)
  then show ?thesis
    using Encrypt_Ok [OF assms(2), of "replicate 12 0" p] that by (auto simp: NonceSize_def tag_size_def)
qed

lemma dec_7: "dec_int 7 = ''7''"
  by code_simp

text \<open>An entry added offline to an empty store.\<close>

lemma ref_adds:
  obtains c d where
    "addCmd (ref_cli_env offline) (AddText ''t'' ''c'' '''') (ref_cli w) = (Ok ''text-7'', (ref_cli w)\<lparr>dbfile := d\<rparr>)"
    "usable ref_bolt d" "own_cells ref_bolt ''l'' d = ([''text-7'' \<mapsto> c], [''text-7'' \<mapsto> 7])"
    "c \<noteq> []" "put_ok (key ''l'' ''text-7'') c"
proof -
  let ?env = "ref_cli_env offline" and ?i = "''text-7''"
  have e: "add_entry None (cwd (ref_cli w)) (AddText ''t'' ''c'' '''') = Ok ref_note"
    by (simp add: ref_note_def zero_text_def)
  obtain plain where plain: "Marshal ref_note = Ok plain" by (simp add: Marshal_def)
  have plain_bound: "length plain \<le> 10000"
    using Marshal_size [OF plain] by (simp add: ref_note_def zero_text_def member_size_def type_defs)
  obtain c where c: "Encrypt (Inr (replicate 12 0)) plain ref_key = Ok c" "length c = length plain + 28"
    by (rule encrypts [OF plain_bound ref_key_ok])
  have fits: "put_ok (key ''l'' ?i) c" using c(2) plain_bound by (simp add: put_ok_def length_key)
  obtain d1 where d1: "Put ref_bolt (ref_local []) ''l'' ?i c = (Ok (), d1)" "usable ref_bolt d1"
    "entry_cell ref_bolt d1 = (entry_cell ref_bolt (ref_local []))(key ''l'' ?i \<mapsto> c)"
    "version_cell ref_bolt d1 = version_cell ref_bolt (ref_local [])"
    by (rule bolt_reliable.Put_usable [OF ref_bolt_axioms(2) ref_local_usable fits])
  obtain d2 where d2: "PutVersion ref_bolt d1 ''l'' ?i 7 = (Ok (), d2)" "usable ref_bolt d2"
    "version_cell ref_bolt d2 = (version_cell ref_bolt d1)(key ''l'' ?i \<mapsto> 7)" "entry_cell ref_bolt d2 = entry_cell ref_bolt d1"
    by (rule bolt_reliable.PutVersion_usable [OF ref_bolt_axioms(2) d1(2) fits])
  have "addCmd ?env (AddText ''t'' ''c'' '''') (ref_cli w) = (Ok ?i, (ref_cli w)\<lparr>dbfile := d2\<rparr>)"
    using e plain c d1(1) d2(1) runSync_offline [of ?env]
    by (simp add: addCmd_def Let_def on_store_def dec_7)
  moreover have "own_cells ref_bolt ''l'' d2 = ([?i \<mapsto> c], [?i \<mapsto> 7])"
    using d1(3,4) d2(3,4) by (auto simp: own_cells_def ref_local_cells fun_eq_iff)
  moreover have "c \<noteq> []" using c(2) by auto
  ultimately show ?thesis using that d2(2) fits by blast
qed


theorem locked_out_witness:
  "execute (ref_cli_env offline) ref_password ListEntries ((ref_cli (ref_world []))\<lparr>localStore := False\<rparr>) =
    (Err (Errorf ''not logged in (session not found or invalid password)''), (ref_cli (ref_world []))\<lparr>localStore := False\<rparr>)"
proof (rule locked_out)
  show "Load (ce_kdf (ref_cli_env offline)) (ce_read (ref_cli_env offline)) ref_password
      (cwd ((ref_cli (ref_world []))\<lparr>localStore := False\<rparr>)) \<noteq> Ok sess" for sess
    by (simp add: Load_def ref_derive ReadFile_def)
qed (simp_all add: ref_scrypt.scrypt_axioms)

theorem delete_only_marks_witness:
  "\<exists>s'. deleteCmd (ref_cli_env offline) ''i'' (ref_cli (ref_world [])) = (Ok ''Marked i for deletion'', s') \<and>
     version_cell ref_bolt (dbfile s') (key ''l'' ''i'') = Some (- 1)"
  using delete_only_marks [of "ref_cli_env offline" "ref_cli (ref_world [])" "Lib ''unreachable''" "''i''" "''i''"]
  by (auto simp: ref_bolt_axioms ref_local_usable)

lemma ref_reg_key:
  obtains k where "DeriveKey ref_kdf ref_password reg_salt = Ok k" "key_ok k"
  using ref_scrypt.DeriveKey_cases [of ref_password reg_salt] by (auto simp: key_ok_def ref_password_def)

theorem register_unlocks_witness:
  "\<exists>msg s'. registerCmd (ref_cli_env (Inr ref_auth)) ''m'' ref_password (ref_cli (ref_world [])) = (Ok msg, s') \<and>
     (\<exists>row. row \<in> set (users_tab (database (srv (net s')))) \<and> u_login row = ''m'')"
proof -
  let ?env = "ref_cli_env (Inr ref_auth)" and ?s = "ref_cli (ref_world [])"
  obtain k where k: "DeriveKey ref_kdf ref_password reg_salt = Ok k" "key_ok k" by (rule ref_reg_key)
  obtain c where c: "Encrypt (Inr (replicate 12 0)) (replicate 12 0) k = Ok c" "length c = 40"
    using encrypts [of "replicate 12 0", OF _ k(2)] by auto
  have "c \<noteq> []" using c(2) by auto
  then have "\<exists>w. cli_Register ref_auth ''m'' c (ref_world []) = (Ok ''n'', w)"
    using varchar_l
    by (simp add: cli_Register_def ref_auth_def net_auth_stub_def net_call_def Let_def ref_rpc_def serve_Register_def
        UnaryAuthInterceptor_def Allow_def ref_world_def ref_server_def srv_Register_def sql_insert_user_def empty_pg_def)
  then obtain s' where run: "registerCmd ?env ''m'' ref_password ?s = (Ok (''User registered: '' @ ''n''), s')"
    using k c by (auto simp: registerCmd_def)
  have auth: "ce_auth ?env = Inr (net_auth_stub ref_jwt ref_manager (\<lambda>_. ref_rpc) (\<lambda>_. ref_env 0) ''p'')"
    by (simp add: ref_auth_def)
  have "\<exists>row. row \<in> set (users_tab (database (srv (net s')))) \<and> u_login row = ''m''"
    using register_unlocks [OF _ auth _ run] by (auto simp: ref_scrypt.scrypt_axioms NonceSize_def)
  then show ?thesis using run by blast
qed

text \<open>A server with one account, whose secret was encrypted with the password, and a login to it.\<close>

definition account_world :: "bytes \<Rightarrow> world" where
  "account_world sec = \<lparr>srv = ref_server\<lparr>database := empty_pg\<lparr>users_tab :=
     [\<lparr>u_id = ''u'', u_login = ''l'', u_secret = sec, u_salt = [2]\<rparr>]\<rparr>\<rparr>, calls = 0\<rparr>"

lemma dec_nat_small: "n < 10 \<Longrightarrow> dec_nat n = [char_of (48 + n)]"
  by (subst dec_nat.simps) simp

lemma dec_nat_big: "10 \<le> n \<Longrightarrow> dec_nat n = dec_nat (n div 10) @ [char_of (48 + n mod 10)]"
  by (subst dec_nat.simps) simp

lemma dec_lengths: "length (dec_int 900) = 3" "length (dec_int 259200) = 6" "length (dec_int 0) = 1"
  by (simp_all add: dec_int_def dec_nat_small dec_nat_big)

lemma ref_loginCmd:
  obtains sec t where
    "loginCmd (ref_cli_env (Inr ref_auth)) ''l'' ref_password (ref_cli (account_world sec)) =
       (Ok ''Logged in successfully. Session saved.'', t)"
proof -
  let ?env = "ref_cli_env (Inr ref_auth)" and ?tok = "ref_access_token" and ?ref = "ref_refresh_token"
  obtain k where k: "DeriveKey ref_kdf ref_password reg_salt = Ok k" "key_ok k" by (rule ref_reg_key)
  obtain sec where sec: "Encrypt (Inr (replicate 12 0)) (replicate 12 0) k = Ok sec"
    using encrypts [of "replicate 12 0", OF _ k(2)] by auto
  then have dec: "Decrypt sec k = Ok (replicate 12 0)" by (rule Decrypt_Encrypt) (simp add: NonceSize_def)
  obtain mk where mk: "DeriveKey ref_kdf (replicate 12 0 @ ref_password) [2] = Ok mk" "length mk = 32"
    using ref_scrypt.DeriveKey_cases [of "replicate 12 0 @ ref_password" "[2]"] by auto
  obtain w where w: "cli_Login ref_auth ''l'' (account_world sec) =
      (Ok \<lparr>EncryptedSecret = sec, AccessToken = ?tok, RefreshToken = ?ref, Salt = [2]\<rparr>, w)"
    using that
    by (simp add: cli_Login_def ref_auth_def net_auth_stub_def net_call_def Let_def ref_rpc_def serve_Login_def
        UnaryAuthInterceptor_def Allow_def account_world_def ref_server_def srv_Login_def sql_find_login_def
        sql_insert_token_def user_exists_def ref_tokens empty_pg_def)
  let ?d = "\<lparr>sd_UserID = ''l'', sd_MasterKey = mk, sd_AccessToken = ?tok, sd_RefreshToken = ?ref\<rparr>"
  have "length ?tok \<le> 100" "length ?ref \<le> 100"
    by (simp_all add: ref_access_token_def ref_refresh_token_def frame_def dec_lengths)
  then have "length (session_json ?d) \<le> 10000" using session_json_size [of ?d] mk(2) by simp
  then obtain c where c: "Encrypt (Inr (replicate 12 0)) (session_json ?d) mk = Ok c"
    using encrypts [of "session_json ?d" mk] mk(2) by (auto simp: key_ok_def)
  have open_ok: "\<exists>d. NewStore ref_bolt (Inr (ref_local [])) = (Ok d, Some d)"
    by (simp add: NewStore_def ref_bolt_def ref_local_def with_bucket_def)
  have "\<exists>t. loginCmd ?env ''l'' ref_password (ref_cli (account_world sec)) =
       (Ok ''Logged in successfully. Session saved.'', t)"
    using w k(1) dec mk(1) c open_ok by (auto simp: loginCmd_def Let_def open_store_def Save_def sync_step_def)
  then show ?thesis using that by blast
qed

theorem devices_share_key_witness:
  "\<exists>sec mk c d t msg. loginCmd (ref_cli_env (Inr ref_auth)) ''l'' ref_password (ref_cli (account_world sec)) = (Ok msg, t) \<and>
     cwd t SessionFile = Some c \<and> Decrypt c mk = Ok (session_json d) \<and> sd_MasterKey d = mk"
proof -
  obtain sec t where run: "loginCmd (ref_cli_env (Inr ref_auth)) ''l'' ref_password (ref_cli (account_world sec)) =
       (Ok ''Logged in successfully. Session saved.'', t)" by (rule ref_loginCmd)
  have auth: "ce_auth (ref_cli_env (Inr ref_auth)) = Inr (net_auth_stub ref_jwt ref_manager (\<lambda>_. ref_rpc) (\<lambda>_. ref_env 0) ''p'')"
    by (simp add: ref_auth_def)
  have n: "length nonce = NonceSize" if "ce_rnd (ref_cli_env (Inr ref_auth)) 0 = Inr nonce" for nonce
    using that by (auto simp: NonceSize_def)
  obtain mk c c' d d' where "cwd t SessionFile = Some c" "Decrypt c mk = Ok (session_json d)" "sd_MasterKey d = mk"
    "cwd t SessionFile = Some c'" "Decrypt c' mk = Ok (session_json d')" "sd_MasterKey d' = mk"
    using devices_share_key [OF auth auth refl refl run run] n by blast
  with run show ?thesis by blast
qed



end
