(* ===== verification/Presenter.thy ===== *)
theory Presenter
  imports Entry
begin

text \<open>
  What an entry looks like on the screen, \<open>internal/presenter/presenter.go\<close>.  The code of a
  one-time password comes from \<open>pquerna/otp\<close>, a parameter; the two readings of the clock are
  arguments.
\<close>

record Action =
  ac_Key :: string
  ac_Label :: string

record EntryView =
  ev_ID :: string
  ev_Type :: string
  ev_Title :: string
  ev_Lines :: "string list"
  ev_Actions :: "Action list"

text \<open>
  \<open>rn_GenerateCode\<close> is \<open>totp.GenerateCode\<close> on a secret and the first reading of the clock in
  nanoseconds, \<open>rn_Second\<close> the seconds of the minute at the second reading.
\<close>

record render_env =
  rn_GenerateCode :: "string \<Rightarrow> int \<Rightarrow> error + string"
  rn_now :: int
  rn_Second :: int

definition meta_line :: "string \<Rightarrow> string list" where
  "meta_line meta = (if meta \<noteq> '''' then [''Meta: '' @ meta] else [])"

definition otp_line :: "render_env \<Rightarrow> PasswordEntry \<Rightarrow> string list" where
  "otp_line rn v =
     (if pw_IsOTP v \<and> pw_OTPSecret v \<noteq> '''' then
        (case rn_GenerateCode rn (pw_OTPSecret v) (rn_now rn) of
           Inl e \<Rightarrow> []
         | Inr code \<Rightarrow> [''OTP: '' @ code @ '' (valid '' @ dec_int (30 - rn_Second rn mod 30) @ ''s)''])
      else [])"

fun view_title :: "entry \<Rightarrow> string" where
  "view_title (Password v) = pw_Site v"
| "view_title (Text v) = tx_Title v"
| "view_title (Card v) = cd_Holder v"
| "view_title (Binary v) = bn_FileName v"

fun view_lines :: "render_env \<Rightarrow> entry \<Rightarrow> string list" where
  "view_lines rn (Password v) =
     [''Site: '' @ pw_Site v, ''Login: '' @ pw_Login v, ''Password: '' @ pw_Password v]
     @ meta_line (pw_Meta v) @ otp_line rn v"
| "view_lines rn (Text v) = [''Title: '' @ tx_Title v, ''Content: '' @ tx_Content v] @ meta_line (tx_Meta v)"
| "view_lines rn (Card v) =
     [''Number: '' @ cd_Number v, ''Expiry: '' @ cd_Expiry v, ''CVV: '' @ cd_CVV v, ''Holder: '' @ cd_Holder v]
     @ meta_line (cd_Meta v)"
| "view_lines rn (Binary v) =
     [''File: '' @ bn_FileName v, ''Size: '' @ dec_int (int (length (bn_Data v))) @ '' bytes'']
     @ meta_line (bn_Meta v)"

fun view_actions :: "entry \<Rightarrow> Action list" where
  "view_actions (Password v) = [\<lparr>ac_Key = ''c'', ac_Label = ''Copy password''\<rparr>]"
| "view_actions (Text v) = [\<lparr>ac_Key = ''c'', ac_Label = ''Copy content''\<rparr>]"
| "view_actions (Card v) = [\<lparr>ac_Key = ''c'', ac_Label = ''Copy number''\<rparr>]"
| "view_actions (Binary v) = [\<lparr>ac_Key = ''s'', ac_Label = ''Save to file''\<rparr>]"

text \<open>The error of \<open>Render\<close> is always nil; the master key is not used.\<close>

definition Render :: "render_env \<Rightarrow> entry \<Rightarrow> bytes \<Rightarrow> EntryView res" where
  "Render rn e masterKey =
     Ok \<lparr>ev_ID = GetID e, ev_Type = GetType e, ev_Title = view_title e,
         ev_Lines = view_lines rn e, ev_Actions = view_actions e\<rparr>"

section \<open>Properties\<close>

text \<open>
  A one-time code is shown exactly for password entries that ask for one, have a secret and
  give a code, and the time it is said to be valid for is between one second and thirty.
\<close>

theorem otp_shown:
  "otp_line rn v \<noteq> [] \<longleftrightarrow>
     (\<exists>code n. pw_IsOTP v \<and> pw_OTPSecret v \<noteq> '''' \<and>
        rn_GenerateCode rn (pw_OTPSecret v) (rn_now rn) = Inr code \<and> 1 \<le> n \<and> n \<le> 30 \<and>
        otp_line rn v = [''OTP: '' @ code @ '' (valid '' @ dec_int n @ ''s)''])"
proof -
  obtain n where n: "1 \<le> n" "n \<le> 30" "30 - rn_Second rn mod 30 = n"
    by (rule that [of "30 - rn_Second rn mod 30"]) auto
  show ?thesis unfolding otp_line_def n(3) using n(1,2) by (auto split: sum.splits)
qed

text \<open>A view has at most five lines.\<close>

lemma view_lines_length: "length (view_lines rn e) \<le> 5"
  by (cases e) (auto simp: meta_line_def otp_line_def split: sum.split)

end
