(* ===== verification/TuiModel.thy ===== *)
theory TuiModel
  imports Cli Presenter
begin

text \<open>
  The data of the terminal user interface, \<open>internal/tui/components.go\<close>: the messages and
  commands of the Elm-style loop, the model, the forms, and the step-by-step authentication.
  The widgets of \<open>bubbles\<close>, the forms of \<open>huh\<close> and the styles of \<open>lipgloss\<close> are a record of
  functions over abstract types.
\<close>

section \<open>Keys, screens, forms\<close>

text \<open>
  A key as the program looks at it: its type, of which two are told apart, and the text of its
  \<open>String()\<close>.
\<close>

datatype key_type = KeyEscape | KeyCtrlC | KeyOther nat

record KeyMsg =
  key_Type :: key_type
  key_text :: string

datatype screen = screenAuth | screenList | screenView | screenAdd | screenChooseType

datatype authStep = stepChooseAction | stepEnterLogin | stepEnterPassword | stepAuthenticating

record item =
  it_id :: string
  it_entryType :: string
  it_title :: string
  it_desc :: string

text \<open>
  What a form is made of.  A validator answers the error it shows; none is the same as one that
  accepts everything.
\<close>

datatype form_field =
    Input string string "string \<Rightarrow> error option"
  | Confirm string string

definition no_check :: "string \<Rightarrow> error option" where
  "no_check s = None"

text \<open>
  The loop over the runes of the text is one over its bytes: a byte above 127 is part of a rune
  above \<open>'9'\<close>.
\<close>

definition all_digits :: "string \<Rightarrow> bool" where
  "all_digits s = list_all (\<lambda>c. \<not> (of_char c < (48 :: nat) \<or> of_char c > (57 :: nat))) s"

definition check_number :: "string \<Rightarrow> error option" where
  "check_number s =
     (if length s \<noteq> 16 then Some (Errorf ''must be 16 digits'')
      else if \<not> all_digits s then Some (Errorf ''only digits allowed'')
      else None)"

definition check_expiry :: "string \<Rightarrow> error option" where
  "check_expiry s =
     (if length s \<noteq> 5 \<or> s ! 2 \<noteq> CHR ''/'' then Some (Errorf ''format MM/YY'') else None)"

definition check_cvv :: "string \<Rightarrow> error option" where
  "check_cvv s =
     (if length s \<noteq> 3 then Some (Errorf ''must be 3 digits'')
      else if \<not> all_digits s then Some (Errorf ''only digits'')
      else None)"

definition newTextForm :: "form_field list" where
  "newTextForm =
     [Input ''title'' ''Title'' no_check,
      Input ''content'' ''Content'' no_check,
      Input ''meta'' ''Meta (optional)'' no_check]"

definition newAddForm :: "form_field list" where
  "newAddForm =
     [Input ''site'' ''Site'' no_check,
      Input ''login'' ''Login'' no_check,
      Input ''password'' ''Password'' no_check,
      Input ''meta'' ''Meta'' no_check,
      Confirm ''is_otp'' ''Is it OTP?'',
      Input ''otp_secret'' ''OTP Secret (if OTP)'' no_check]"

definition newCardForm :: "form_field list" where
  "newCardForm =
     [Input ''number'' ''Card number (16 digits)'' check_number,
      Input ''expiry'' ''Expiry (MM/YY)'' check_expiry,
      Input ''cvv'' ''CVV (3 digits)'' check_cvv,
      Input ''holder'' ''Holder name'' no_check,
      Input ''meta'' ''Meta (optional)'' no_check]"

definition newBinaryForm :: "form_field list" where
  "newBinaryForm =
     [Input ''path'' ''File path'' no_check,
      Input ''meta'' ''Meta (optional)'' no_check]"

section \<open>Models, commands, messages\<close>

record 'i authModel =
  am_step :: authStep
  am_action :: string
  am_login :: string
  am_password :: string
  am_err :: "error option"
  am_server :: string
  am_loginInput :: 'i
  am_passwordInput :: 'i

text \<open>
  The commands: the closures the program makes, by what they capture, the library's own, and
  \<open>tea.Quit\<close> and \<open>tea.Batch\<close>.  All but \<open>HandleAuth\<close>, whose receiver is a copy, capture the
  pointer to the model and so read the model as it is when they run.
\<close>

datatype ('i, 'c) cmd =
    Quit
  | LibCmd 'c
  | Batch "('i, 'c) cmd list"
  | LoadEntries
  | ViewEntry string
  | SaveEntry
  | SyncAfterSave
  | SaveAndSync
  | HandleAuth "'i authModel"

text \<open>
  The messages.  A command given back as a message is a value of type \<open>tea.Cmd\<close>, \<open>CmdMsg\<close>.
\<close>

datatype ('i, 'c, 'x) msg =
    WindowSizeMsg int int
  | TickMsg 'x
  | AuthSuccessMsg Session bytes bool
  | ErrMsg error
  | EntriesLoadedMsg "item list"
  | BytesMsg bytes
  | SyncCompletedMsg
  | Key KeyMsg
  | CmdMsg "('i, 'c) cmd"
  | LibMsg 'x

text \<open>
  The libraries: text inputs, the list, the spinner and the forms, with the commands their
  updates give back, and the styles.  \<open>fm_Update\<close> answers no form when the result is not a
  \<open>*huh.Form\<close>.
\<close>

record ('i, 'l, 'f, 'p, 'c, 'x) tea_lib =
  ti_New :: 'i
  ti_Placeholder :: "string \<Rightarrow> 'i \<Rightarrow> 'i"
  ti_EchoPassword :: "'i \<Rightarrow> 'i"
  ti_Focus :: "'i \<Rightarrow> 'i"
  ti_Blink :: 'c
  ti_Update :: "('i, 'c, 'x) msg \<Rightarrow> 'i \<Rightarrow> 'i \<times> 'c option"
  ti_Value :: "'i \<Rightarrow> string"
  ti_View :: "'i \<Rightarrow> string"
  li_zero :: 'l
  li_New :: "item list \<Rightarrow> int \<Rightarrow> int \<Rightarrow> 'l"
  li_HasItems :: "'l \<Rightarrow> bool"
  li_SetSize :: "int \<Rightarrow> int \<Rightarrow> 'l \<Rightarrow> 'l"
  li_Selected :: "'l \<Rightarrow> item option"
  li_Update :: "('i, 'c, 'x) msg \<Rightarrow> 'l \<Rightarrow> 'l \<times> 'c option"
  li_View :: "'l \<Rightarrow> string"
  sp_New :: 'p
  sp_Update :: "'x \<Rightarrow> 'p \<Rightarrow> 'p \<times> 'c option"
  fm_New :: "form_field list \<Rightarrow> 'f"
  fm_Init :: "'f \<Rightarrow> 'c option"
  fm_Update :: "('i, 'c, 'x) msg \<Rightarrow> 'f \<Rightarrow> 'f option \<times> 'c option"
  fm_Completed :: "'f \<Rightarrow> bool"
  fm_GetString :: "'f \<Rightarrow> string \<Rightarrow> string"
  fm_GetBool :: "'f \<Rightarrow> string \<Rightarrow> bool"
  fm_View :: "'f \<Rightarrow> string"
  st_error :: "string \<Rightarrow> string"
  st_info :: "string \<Rightarrow> string"
  st_header :: "string \<Rightarrow> string"
  st_dungeon :: "int \<Rightarrow> int \<Rightarrow> string \<Rightarrow> string"
  st_Join :: "string list \<Rightarrow> string"
  st_castle :: string

text \<open>A nil \<open>viewingData\<close>, like a nil \<open>masterKey\<close>, is the empty list.\<close>

record ('i, 'l, 'f, 'p) model =
  screen :: screen
  authScreen :: "'i authModel"
  list_of :: 'l
  spinner :: 'p
  err :: "error option"
  store :: bool
  session :: "Session option"
  m_masterKey :: bytes
  serverAddr :: string
  width :: int
  height :: int
  viewingEntry :: item
  viewingData :: bytes
  addForm :: "'f option"
  addingType :: string
  adding :: bool

definition zero_item :: item where
  "zero_item = \<lparr>it_id = [], it_entryType = [], it_title = [], it_desc = []\<rparr>"

definition newAuthModel :: "('i, 'l, 'f, 'p, 'c, 'x) tea_lib \<Rightarrow> string \<Rightarrow> 'i authModel" where
  "newAuthModel L server =
     (let li = ti_Focus L (ti_Placeholder L ''Enter login'' (ti_New L));
          pi = ti_EchoPassword L (ti_Placeholder L ''Master password'' (ti_New L))
      in \<lparr>am_step = stepChooseAction, am_action = ''login'', am_login = [], am_password = [],
          am_err = None, am_server = server, am_loginInput = li, am_passwordInput = pi\<rparr>)"

definition NewModel :: "('i, 'l, 'f, 'p, 'c, 'x) tea_lib \<Rightarrow> string \<Rightarrow> ('i, 'l, 'f, 'p) model" where
  "NewModel L addr =
     \<lparr>screen = screenAuth, authScreen = newAuthModel L addr, list_of = li_zero L, spinner = sp_New L,
      err = None, store = False, session = None, m_masterKey = [], serverAddr = addr, width = 0,
      height = 0, viewingEntry = zero_item, viewingData = [], addForm = None, addingType = [],
      adding = False\<rparr>"

section \<open>The authentication steps\<close>

text \<open>
  \<open>strings.TrimSpace(s) == ""\<close>: every character of the UTF-8 text is white space of Unicode, of
  one byte (tab to carriage return, blank), two (next line, no-break space) or three.
\<close>

definition space3 :: "nat \<Rightarrow> nat \<Rightarrow> nat \<Rightarrow> bool" where
  "space3 b c d \<longleftrightarrow>
     b = 225 \<and> c = 154 \<and> d = 128 \<or>
     b = 226 \<and> c = 128 \<and> (128 \<le> d \<and> d \<le> 138 \<or> d = 168 \<or> d = 169 \<or> d = 175) \<or>
     b = 226 \<and> c = 129 \<and> d = 159 \<or>
     b = 227 \<and> c = 128 \<and> d = 128"

fun spaces :: "nat list \<Rightarrow> bool" where
  "spaces [] = True"
| "spaces (b # r) =
     (if 9 \<le> b \<and> b \<le> 13 \<or> b = 32 then spaces r
      else (case r of
              [] \<Rightarrow> False
            | c # r' \<Rightarrow>
                if b = 194 \<and> (c = 133 \<or> c = 160) then spaces r'
                else (case r' of [] \<Rightarrow> False | d # r'' \<Rightarrow> space3 b c d \<and> spaces r'')))"

definition blank :: "string \<Rightarrow> bool" where
  "blank s = spaces (map of_char s)"

definition updateChooseAction ::
  "('i, 'l, 'f, 'p, 'c, 'x) tea_lib \<Rightarrow> ('i, 'c, 'x) msg \<Rightarrow> 'i authModel \<Rightarrow> 'i authModel \<times> ('i, 'c) cmd option" where
  "updateChooseAction L msg m =
     (case msg of
        Key k \<Rightarrow>
          if key_text k = ''up'' \<or> key_text k = ''down'' then
            (m\<lparr>am_action := (if am_action m = ''login'' then ''register'' else ''login'')\<rparr>, None)
          else if key_text k = ''enter'' then
            (m\<lparr>am_step := stepEnterLogin, am_loginInput := ti_Focus L (am_loginInput m)\<rparr>, None)
          else (m, None)
      | _ \<Rightarrow> (m, None))"

text \<open>\<open>key, ok := msg.(tea.KeyMsg); ok && key.String() == "enter"\<close>\<close>

definition is_enter :: "('i, 'c, 'x) msg \<Rightarrow> bool" where
  "is_enter msg = (case msg of Key k \<Rightarrow> key_text k = ''enter'' | _ \<Rightarrow> False)"

definition updateEnterLogin ::
  "('i, 'l, 'f, 'p, 'c, 'x) tea_lib \<Rightarrow> ('i, 'c, 'x) msg \<Rightarrow> 'i authModel \<Rightarrow> 'i authModel \<times> ('i, 'c) cmd option" where
  "updateEnterLogin L msg m0 =
     (case ti_Update L msg (am_loginInput m0) of (li, c) \<Rightarrow>
      let m = m0\<lparr>am_loginInput := li\<rparr>; cmd = map_option LibCmd c in
      if is_enter msg then
        (let m1 = m\<lparr>am_login := ti_Value L li\<rparr> in
         if blank (am_login m1) then
           (m1\<lparr>am_err := Some (Errorf ''login cannot be empty'')\<rparr>, None)
         else
           (m1\<lparr>am_step := stepEnterPassword, am_passwordInput := ti_Focus L (am_passwordInput m1),
               am_err := None\<rparr>, cmd))
      else (m, cmd))"

definition updateEnterPassword ::
  "('i, 'l, 'f, 'p, 'c, 'x) tea_lib \<Rightarrow> ('i, 'c, 'x) msg \<Rightarrow> 'i authModel \<Rightarrow> 'i authModel \<times> ('i, 'c) cmd option" where
  "updateEnterPassword L msg m0 =
     (case ti_Update L msg (am_passwordInput m0) of (pi, c) \<Rightarrow>
      let m = m0\<lparr>am_passwordInput := pi\<rparr>; cmd = map_option LibCmd c in
      if is_enter msg then
        (let m1 = m\<lparr>am_password := ti_Value L pi\<rparr> in
         if length (am_password m1) = 0 then
           (m1\<lparr>am_err := Some (Errorf ''password cannot be empty'')\<rparr>, None)
         else
           (let m2 = m1\<lparr>am_step := stepAuthenticating, am_err := None\<rparr> in (m2, Some (HandleAuth m2))))
      else (m, cmd))"

definition auth_step ::
  "('i, 'l, 'f, 'p, 'c, 'x) tea_lib \<Rightarrow> ('i, 'c, 'x) msg \<Rightarrow> 'i authModel \<Rightarrow> 'i authModel \<times> ('i, 'c) cmd option" where
  "auth_step L msg m =
     (case am_step m of
        stepChooseAction \<Rightarrow> updateChooseAction L msg m
      | stepEnterLogin \<Rightarrow> updateEnterLogin L msg m
      | stepEnterPassword \<Rightarrow> updateEnterPassword L msg m
      | stepAuthenticating \<Rightarrow> (m, None))"

definition auth_Update ::
  "('i, 'l, 'f, 'p, 'c, 'x) tea_lib \<Rightarrow> ('i, 'c, 'x) msg \<Rightarrow> 'i authModel \<Rightarrow> 'i authModel \<times> ('i, 'c) cmd option" where
  "auth_Update L msg m =
     (case msg of
        Key k \<Rightarrow>
          (case key_Type k of
             KeyEscape \<Rightarrow>
               if am_step m = stepChooseAction then (m, Some Quit)
               else (m\<lparr>am_step := stepChooseAction, am_err := None\<rparr>, None)
           | KeyCtrlC \<Rightarrow> (m, Some Quit)
           | KeyOther n \<Rightarrow> auth_step L msg m)
      | _ \<Rightarrow> auth_step L msg m)"

text \<open>The bytes of the arrows up and down, with a slash between them.\<close>

definition arrows :: string where
  "arrows = map char_of [226, 134, 145, 47, 226, 134, 147 :: nat]"

definition auth_error :: "('i, 'l, 'f, 'p, 'c, 'x) tea_lib \<Rightarrow> 'i authModel \<Rightarrow> string \<Rightarrow> string" where
  "auth_error L m s =
     (case am_err m of
        None \<Rightarrow> s
      | Some e \<Rightarrow> st_error L (''Error: '' @ error_text e) @ nl @ nl @ s)"

definition auth_View :: "('i, 'l, 'f, 'p, 'c, 'x) tea_lib \<Rightarrow> 'i authModel \<Rightarrow> string" where
  "auth_View L m =
     (case am_step m of
        stepChooseAction \<Rightarrow>
          auth_error L m (''Choose action:'' @ nl @ nl @
            (if am_action m = ''login'' then ''> Login'' @ nl @ ''  Register'' @ nl
             else ''  Login'' @ nl @ ''> Register'' @ nl) @
            nl @ arrows @ '': switch  enter: confirm  esc: quit'')
      | stepEnterLogin \<Rightarrow>
          auth_error L m (''Enter login:'' @ nl @ nl @ ti_View L (am_loginInput m) @
            nl @ nl @ ''enter: next  esc: back'')
      | stepEnterPassword \<Rightarrow>
          auth_error L m (''Enter master password:'' @ nl @ nl @ ti_View L (am_passwordInput m) @
            nl @ nl @ ''enter: login  esc: back'')
      | stepAuthenticating \<Rightarrow> ''Authenticating...'')"

section \<open>Lemmas\<close>

text \<open>What a card form lets through is what its titles ask for, but for the expiry.\<close>

lemma all_digits_iff: "all_digits s \<longleftrightarrow> list_all is_digit s"
  by (auto simp: all_digits_def list_all_iff is_digit_def cc_def not_less)

lemma check_number_None: "check_number s = None \<longleftrightarrow> length s = 16 \<and> all_digits s"
  by (simp add: check_number_def)

lemma check_cvv_None: "check_cvv s = None \<longleftrightarrow> length s = 3 \<and> all_digits s"
  by (simp add: check_cvv_def)

text \<open>
  A command of the authentication screen captures a login that is not blank and a password that
  is not empty.
\<close>

lemma auth_Update_cmd:
  assumes "auth_Update L msg m = (m', Some (HandleAuth a))"
    and "am_step m = stepEnterPassword \<Longrightarrow> \<not> blank (am_login m)"
  shows "am_step m = stepEnterPassword \<and> a = m' \<and> am_step m' = stepAuthenticating \<and>
    am_login a = am_login m \<and> am_password a \<noteq> '''' \<and> am_action a = am_action m \<and> am_server a = am_server m"
  using assms(1)
  by (auto simp: auth_Update_def auth_step_def updateChooseAction_def updateEnterLogin_def
      updateEnterPassword_def Let_def split: msg.splits key_type.splits authStep.splits if_splits prod.splits)

end
