(* ===== verification/TuiCommands.thy ===== *)
theory TuiCommands
  imports TuiModel
begin

text \<open>
  The commands of the terminal user interface, \<open>internal/tui/components.go\<close>: the closures that
  the loop runs in goroutines of their own, each ending in one message.  A command reads the
  model as it is when it runs, and works on the files, the store and the server.
\<close>

section \<open>The world outside the model\<close>

record ('b, 's) outside =
  o_files :: files
  o_db :: "'b db"
  o_net :: 's

text \<open>The commands answer an error as a message.\<close>

fun caught :: "('i, 'c, 'x) msg res \<times> 's \<Rightarrow> ('i, 'c, 'x) msg res \<times> 's" where
  "caught (Err e, s) = (Ok (ErrMsg e), s)"
| "caught (r, s) = (r, s)"

text \<open>\<open>m.store.F(m.session.UserID, ...)\<close>: nil pointers panic.\<close>

definition with_store ::
  "('i, 'l, 'f, 'p) model \<Rightarrow> (string \<Rightarrow> 'b db \<Rightarrow> 'r res \<times> 'b db) \<Rightarrow> ('b, 's) outside \<Rightarrow> 'r res \<times> ('b, 's) outside" where
  "with_store m f w =
     (case session m of
        None \<Rightarrow> (Panic, w)
      | Some sess \<Rightarrow>
          if \<not> store m then (Panic, w)
          else (case f (sn_UserID sess) (o_db w) of (r, d) \<Rightarrow> (r, w\<lparr>o_db := d\<rparr>)))"

section \<open>Loading the list\<close>

text \<open>\<open>if err != nil { continue }\<close>\<close>

fun skip_err :: "'a res \<Rightarrow> ('a \<Rightarrow> 'b option res) \<Rightarrow> 'b option res" where
  "skip_err (Ok x) k = k x"
| "skip_err (Err e) k = Ok None"
| "skip_err Panic k = Panic"
| "skip_err Hang k = Hang"

definition preview :: "string \<Rightarrow> string" where
  "preview s = (if length s > 50 then take 50 s @ ''...'' else s)"

definition item_of :: "string \<Rightarrow> string \<Rightarrow> bytes \<Rightarrow> item option res" where
  "item_of i typ plain =
     (if typ = ''password'' then
        skip_err (unmarshal_struct password_fields zero_password plain) (\<lambda>e.
          Ok (Some \<lparr>it_id = i, it_entryType = ''password'',
            it_title = (if pw_IsOTP e then pw_Site e @ '' (OTP)'' else pw_Site e), it_desc = pw_Login e\<rparr>))
      else if typ = ''text'' then
        skip_err (unmarshal_struct text_fields zero_text plain) (\<lambda>e.
          Ok (Some \<lparr>it_id = i, it_entryType = ''text'', it_title = tx_Title e, it_desc = preview (tx_Content e)\<rparr>))
      else if typ = ''card'' then
        skip_err (unmarshal_struct card_fields zero_card plain) (\<lambda>e.
          Ok (Some \<lparr>it_id = i, it_entryType = ''card'', it_title = cd_Holder e,
            it_desc = cd_Number e @ '' '' @ cd_Expiry e\<rparr>))
      else if typ = ''binary'' then
        skip_err (unmarshal_struct binary_fields zero_binary plain) (\<lambda>e.
          Ok (Some \<lparr>it_id = i, it_entryType = ''binary'', it_title = bn_FileName e,
            it_desc = dec_int (int (length (bn_Data e))) @ '' bytes''\<rparr>))
      else Ok None)"

definition load_item :: "'b bolt_ops \<Rightarrow> 'b db \<Rightarrow> bytes \<Rightarrow> string \<Rightarrow> string \<Rightarrow> item option res" where
  "load_item B d mk u i =
     skip_err (Get B d u i) (\<lambda>ciphertext.
     skip_err (Decrypt ciphertext mk) (\<lambda>plain.
     skip_err (probe_type plain) (\<lambda>typ.
     bind_res (drop_err 0 (GetVersion B d u i)) (\<lambda>ver.
     if ver = - 1 then Ok None else item_of i typ plain))))"

fun load_loop :: "(string \<Rightarrow> item option res) \<Rightarrow> string list \<Rightarrow> item list res" where
  "load_loop f [] = Ok []"
| "load_loop f (i # ids) =
     bind_res (f i) (\<lambda>it.
     bind_res (load_loop f ids) (\<lambda>items.
     Ok (case it of None \<Rightarrow> items | Some x \<Rightarrow> x # items)))"

definition loadEntriesCmd ::
  "('b, 's) cli_env \<Rightarrow> ('i, 'l, 'f, 'p) model \<Rightarrow> ('b, 's) outside \<Rightarrow> ('i, 'c, 'x) msg res \<times> ('b, 's) outside" where
  "loadEntriesCmd env m w =
     caught (with_store m (\<lambda>u d.
       (bind_res (List (ce_bolt env) d u) (\<lambda>ids.
        bind_res (load_loop (load_item (ce_bolt env) d (m_masterKey m) u) ids) (\<lambda>items.
        Ok (EntriesLoadedMsg items))), d)) w)"

definition viewEntryCmd ::
  "('b, 's) cli_env \<Rightarrow> string \<Rightarrow> ('i, 'l, 'f, 'p) model \<Rightarrow> ('b, 's) outside \<Rightarrow>
     ('i, 'c, 'x) msg res \<times> ('b, 's) outside" where
  "viewEntryCmd env i m w =
     caught (with_store m (\<lambda>u d.
       (bind_res (Get (ce_bolt env) d u i) (\<lambda>ciphertext.
        bind_res (Decrypt ciphertext (m_masterKey m)) (\<lambda>plain.
        Ok (BytesMsg plain))), d)) w)"

section \<open>Saving\<close>

text \<open>
  The rest of each case: encrypt, put under a fresh id, and put the version, whose error is
  dropped.  \<open>g\<close> is what the case wraps an error of \<open>Encrypt\<close> in.
\<close>

definition seal ::
  "('b, 's) cli_env \<Rightarrow> ('i, 'l, 'f, 'p) model \<Rightarrow> (error \<Rightarrow> error) \<Rightarrow> string \<Rightarrow> bytes \<Rightarrow> ('b, 's) outside \<Rightarrow>
     unit res \<times> ('b, 's) outside" where
  "seal env m g name plain w =
     try_res (Encrypt (ce_rnd env 0) plain (m_masterKey m)) g w (\<lambda>ciphertext.
     (let entryID = name @ ''-'' @ dec_int (sint (ce_nano env 0)) in
      with_store m (\<lambda>u d.
        and_then (Put (ce_bolt env) d u entryID ciphertext) (\<lambda>_ d1.
        case PutVersion (ce_bolt env) d1 u entryID (ce_nano env 1) of (r, d2) \<Rightarrow> (drop_err () r, d2))) w))"

definition marshal_err :: "string \<Rightarrow> error \<Rightarrow> error" where
  "marshal_err typ = Wrapf (''marshal '' @ typ @ '' entry'')"

definition save_fields ::
  "('i, 'l, 'f, 'p, 'c, 'x) tea_lib \<Rightarrow> ('b, 's) cli_env \<Rightarrow> ('i, 'l, 'f, 'p) model \<Rightarrow> 'f \<Rightarrow> ('b, 's) outside \<Rightarrow>
     unit res \<times> ('b, 's) outside" where
  "save_fields L env m form w =
     (let get = fm_GetString L form; typ = addingType m in
      if typ = ''password'' then
        (if get ''site'' = '''' \<or> get ''login'' = '''' \<or> get ''password'' = '''' then
           (Err (Errorf ''site, login and password are required''), w)
         else
           try_res (Marshal (Password (zero_password\<lparr>pw_Type := TypePassword, pw_Site := get ''site'',
               pw_Login := get ''login'', pw_Password := get ''password'', pw_Meta := get ''meta'',
               pw_IsOTP := fm_GetBool L form ''is_otp'', pw_OTPSecret := get ''otp_secret''\<rparr>)))
             (marshal_err typ) w
           (\<lambda>plain. seal env m id (get ''site'') plain w))
      else if typ = ''text'' then
        (if get ''title'' = '''' \<or> get ''content'' = '''' then
           (Err (Errorf ''title and content are required''), w)
         else
           and_then (drop_err [] (Marshal (Text (zero_text\<lparr>tx_Type := TypeText, tx_Title := get ''title'',
               tx_Content := get ''content'', tx_Meta := get ''meta''\<rparr>))), w)
           (\<lambda>plain w. seal env m (marshal_err typ) ''text'' plain w))
      else if typ = ''card'' then
        (if get ''number'' = '''' \<or> get ''expiry'' = '''' \<or> get ''cvv'' = '''' then
           (Err (Errorf ''number, expiry and cvv are required''), w)
         else
           and_then (drop_err [] (Marshal (Card (zero_card\<lparr>cd_Type := TypeCard, cd_Number := get ''number'',
               cd_Expiry := get ''expiry'', cd_CVV := get ''cvv'', cd_Holder := get ''holder'',
               cd_Meta := get ''meta''\<rparr>))), w)
           (\<lambda>plain w. seal env m (marshal_err typ) ''card'' plain w))
      else if typ = ''binary'' then
        (if get ''path'' = '''' then (Err (Errorf ''file path required''), w)
         else
           try_res (res_of (ReadFile (ce_read env) (get ''path'') (o_files w))) id w (\<lambda>data.
           and_then (drop_err [] (Marshal (Binary (zero_binary\<lparr>bn_Type := TypeBinary,
               bn_FileName := Base (get ''path''), bn_Data := data, bn_Meta := get ''meta''\<rparr>))), w)
           (\<lambda>plain w. seal env m id ''binary'' plain w)))
      else (Ok (), w))"

text \<open>The command answers another command, \<open>tea.Batch\<close> of the synchronisation, as its message.\<close>

definition saveEntryCmd ::
  "('i, 'l, 'f, 'p, 'c, 'x) tea_lib \<Rightarrow> ('b, 's) cli_env \<Rightarrow> ('i, 'l, 'f, 'p) model \<Rightarrow> ('b, 's) outside \<Rightarrow>
     ('i, 'c, 'x) msg res \<times> ('b, 's) outside" where
  "saveEntryCmd L env m w =
     (case addForm m of
        None \<Rightarrow> (Ok (ErrMsg (Errorf ''form is nil'')), w)
      | Some form \<Rightarrow>
          caught (and_then (save_fields L env m form w) (\<lambda>_ w. (Ok (CmdMsg (Batch [SyncAfterSave])), w))))"

section \<open>Synchronising\<close>

text \<open>A nil store panics in \<open>FullSync\<close> once it has dialled.\<close>

definition saveAndSyncCmd ::
  "('b, 's) cli_env \<Rightarrow> ('i, 'l, 'f, 'p) model \<Rightarrow> ('b, 's) outside \<Rightarrow> ('i, 'c, 'x) msg res \<times> ('b, 's) outside" where
  "saveAndSyncCmd env m w =
     (case session m of
        None \<Rightarrow> (Panic, w)
      | Some sess \<Rightarrow>
          if \<not> store m \<and> is_ok (res_of (ce_sync env)) then (Panic, w)
          else
            (case FullSync (ce_bolt env) (ce_sync env) (ce_clk env) (sn_UserID sess) (sn_AccessToken sess)
                    (o_db w, o_net w) of
               (r, d, n) \<Rightarrow> (map_res (\<lambda>_. SyncCompletedMsg) (drop_err () r), w\<lparr>o_db := d, o_net := n\<rparr>)))"

section \<open>Authenticating\<close>

definition auth_register ::
  "('b, 's) cli_env \<Rightarrow> 's auth_stub \<Rightarrow> 'i authModel \<Rightarrow> ('b, 's) outside \<Rightarrow> unit res \<times> ('b, 's) outside" where
  "auth_register env client a w =
     try_res (res_of (ce_rnd env 0)) id w (\<lambda>secret.
     try_res (DeriveKey (ce_kdf env) (bytes_of (am_password a)) reg_salt) (Wrapf ''derive reg key'') w (\<lambda>regKey.
     try_res (Encrypt (ce_rnd env 1) secret regKey) id w (\<lambda>encSecret.
     case cli_Register client (am_login a) encSecret (o_net w) of (r, n) \<Rightarrow>
     try_res r id (w\<lparr>o_net := n\<rparr>) (\<lambda>_. (Ok (), w\<lparr>o_net := n\<rparr>)))))"

text \<open>\<open>nonce\<close> is the random nonce of the session file, after those a registration has read.\<close>

definition auth_login ::
  "('b, 's) cli_env \<Rightarrow> (error + bytes) \<Rightarrow> 's auth_stub \<Rightarrow> 'i authModel \<Rightarrow> ('b, 's) outside \<Rightarrow>
     ('i, 'c, 'x) msg res \<times> ('b, 's) outside" where
  "auth_login env nonce client a w0 =
     (let password = bytes_of (am_password a) in
     case cli_Login client (am_login a) (o_net w0) of (r, n) \<Rightarrow>
     (let w = w0\<lparr>o_net := n\<rparr> in
     try_res r (Wrapf ''login failed'') w (\<lambda>resp.
     try_res (DeriveKey (ce_kdf env) password reg_salt) (Wrapf ''derive reg key'') w (\<lambda>regKey.
     try_res (Decrypt (EncryptedSecret resp) regKey) (\<lambda>_. Errorf ''invalid master password'') w (\<lambda>secret.
     try_res (DeriveKey (ce_kdf env) (secret @ password) (Salt resp)) (Wrapf ''derive master key'') w (\<lambda>master.
     case NewStore (ce_bolt env) (ce_open env (o_db w)) of (st, d) \<Rightarrow>
     (let w1 = w\<lparr>o_db := (case d of None \<Rightarrow> o_db w | Some d' \<Rightarrow> d')\<rparr> in
     try_res st id w1 (\<lambda>_.
     try_res (DeriveKey (ce_kdf env) (secret @ password) (Salt resp)) (Wrapf ''derive session key'') w1 (\<lambda>sessionKey.
     case Save nonce (ce_write env) sessionKey (am_login a) master (AccessToken resp) (RefreshToken resp) (o_files w1) of
       (q, fs) \<Rightarrow>
     try_res q id (w1\<lparr>o_files := fs\<rparr>) (\<lambda>_.
     case FullSync (ce_bolt env) (ce_sync env) (ce_clk env) (am_login a) (AccessToken resp) (o_db w1, o_net w1) of
       (y, d2, n2) \<Rightarrow>
     and_then (drop_err () y, w1\<lparr>o_files := fs, o_db := d2, o_net := n2\<rparr>) (\<lambda>_ w2.
       (Ok (AuthSuccessMsg \<lparr>sn_UserID = am_login a, sn_MasterKey = master, sn_AccessToken = AccessToken resp,
              sn_RefreshToken = RefreshToken resp\<rparr> master True), w2))))))))))))"

definition handleAuth ::
  "('b, 's) cli_env \<Rightarrow> 'i authModel \<Rightarrow> ('b, 's) outside \<Rightarrow> ('i, 'c, 'x) msg res \<times> ('b, 's) outside" where
  "handleAuth env a w =
     caught (try_res (res_of (ce_auth env)) id w (\<lambda>client.
       if am_action a = ''register'' then
         and_then (auth_register env client a w) (\<lambda>_ w1. auth_login env (ce_rnd env 2) client a w1)
       else auth_login env (ce_rnd env 0) client a w))"

end
