(* ===== verification/Tui.thy ===== *)
theory Tui
  imports TuiCommands
begin

text \<open>
  The terminal user interface, \<open>internal/tui/components.go\<close>: \<open>Init\<close>, \<open>Update\<close> and \<open>View\<close> of the
  model, and the loop of \<open>bubbletea\<close> around them as a step relation over messages that wait and
  commands that are under way, in any order.  \<open>tea.Quit\<close> ends the loop; the relation lets a run go
  on after it, which only adds runs.
\<close>

section \<open>Update\<close>

definition Init :: "('i, 'l, 'f, 'p, 'c, 'x) tea_lib \<Rightarrow> ('i, 'l, 'f, 'p) model \<Rightarrow> ('i, 'c) cmd option" where
  "Init L m = Some (LibCmd (ti_Blink L))"

text \<open>A case of the switch on messages either returns or falls through to the switch on screens.\<close>

datatype 'k flow = Return 'k | Fall

definition choose_form ::
  "('i, 'l, 'f, 'p, 'c, 'x) tea_lib \<Rightarrow> string \<Rightarrow> form_field list \<Rightarrow> ('i, 'l, 'f, 'p) model \<Rightarrow>
     ('i, 'c) cmd option flow \<times> ('i, 'l, 'f, 'p) model" where
  "choose_form L typ ffs m =
     (if screen m = screenChooseType then
        (let f = fm_New L ffs in
         (Return (map_option LibCmd (fm_Init L f)),
          m\<lparr>addingType := typ, screen := screenAdd, adding := True, addForm := Some f\<rparr>))
      else (Fall, m))"

definition press_text ::
  "('i, 'l, 'f, 'p, 'c, 'x) tea_lib \<Rightarrow> ('b, 's) cli_env \<Rightarrow> string \<Rightarrow>
     ('i, 'l, 'f, 'p) model \<times> ('b, 's) outside \<Rightarrow>
     ('i, 'c) cmd option flow res \<times> ('i, 'l, 'f, 'p) model \<times> ('b, 's) outside" where
  "press_text L env k mw = (case mw of (m, w) \<Rightarrow>
     if k = ''a'' then
       (if screen m = screenList then (Ok (Return None), m\<lparr>screen := screenChooseType\<rparr>, w)
        else (Ok Fall, m, w))
     else if k = ''d'' then
       (if screen m = screenList then
          (case li_Selected L (list_of m) of
             None \<Rightarrow> (Ok Fall, m, w)
           | Some i \<Rightarrow>
               (case with_store m (\<lambda>u d. PutVersion (ce_bolt env) d u (it_id i) (- 1)) w of
                  (r, w1) \<Rightarrow> (map_res (\<lambda>_. Return (Some SaveAndSync)) (drop_err () r), m, w1)))
        else (Ok Fall, m, w))
     else if k = ''enter'' then
       (if screen m = screenList then
          (case li_Selected L (list_of m) of
             None \<Rightarrow> (Ok Fall, m, w)
           | Some i \<Rightarrow>
               (Ok (Return (Some (ViewEntry (it_id i)))), m\<lparr>screen := screenView, viewingEntry := i\<rparr>, w))
        else (Ok Fall, m, w))
     else if k = ''p'' then (case choose_form L ''password'' newAddForm m of (fl, m1) \<Rightarrow> (Ok fl, m1, w))
     else if k = ''t'' then (case choose_form L ''text'' newTextForm m of (fl, m1) \<Rightarrow> (Ok fl, m1, w))
     else if k = ''c'' then (case choose_form L ''card'' newCardForm m of (fl, m1) \<Rightarrow> (Ok fl, m1, w))
     else if k = ''b'' then (case choose_form L ''binary'' newBinaryForm m of (fl, m1) \<Rightarrow> (Ok fl, m1, w))
     else if k = ''s'' then
       (if screen m = screenView \<and> it_entryType (viewingEntry m) = ''binary'' then
          (case unmarshal_struct binary_fields zero_binary (viewingData m) of
             Ok e \<Rightarrow>
               (Ok Fall, m\<lparr>err := Some (Errorf (''file saved to '' @ bn_FileName e))\<rparr>,
                w\<lparr>o_files := snd (WriteFile (ce_write env) (bn_FileName e) (bn_Data e) (o_files w))\<rparr>)
           | Err _ \<Rightarrow> (Ok Fall, m, w)
           | Panic \<Rightarrow> (Panic, m, w)
           | Hang \<Rightarrow> (Hang, m, w))
        else (Ok Fall, m, w))
     else if k = ''esc'' then
       (if screen m = screenChooseType then (Ok (Return None), m\<lparr>screen := screenList\<rparr>, w)
        else (Ok Fall, m, w))
     else (Ok Fall, m, w))"

definition press ::
  "('i, 'l, 'f, 'p, 'c, 'x) tea_lib \<Rightarrow> ('b, 's) cli_env \<Rightarrow> KeyMsg \<Rightarrow>
     ('i, 'l, 'f, 'p) model \<times> ('b, 's) outside \<Rightarrow>
     ('i, 'c) cmd option flow res \<times> ('i, 'l, 'f, 'p) model \<times> ('b, 's) outside" where
  "press L env k mw = (case mw of (m, w) \<Rightarrow>
     case key_Type k of
       KeyEscape \<Rightarrow>
         if screen m = screenView then (Ok (Return None), m\<lparr>screen := screenList\<rparr>, w)
         else if screen m = screenList then (Ok (Return (Some Quit)), m, w)
         else (Ok Fall, m, w)
     | KeyCtrlC \<Rightarrow> (Ok (Return (Some Quit)), m, w)
     | KeyOther _ \<Rightarrow> press_text L env (key_text k) mw)"

text \<open>The switch on screens at the end of \<open>Update\<close>.\<close>

definition delegate ::
  "('i, 'l, 'f, 'p, 'c, 'x) tea_lib \<Rightarrow> ('i, 'c, 'x) msg \<Rightarrow> ('i, 'l, 'f, 'p) model \<Rightarrow>
     ('i, 'c) cmd option \<times> ('i, 'l, 'f, 'p) model" where
  "delegate L msg m =
     (case screen m of
        screenAuth \<Rightarrow> (case auth_Update L msg (authScreen m) of (a, c) \<Rightarrow> (c, m\<lparr>authScreen := a\<rparr>))
      | screenList \<Rightarrow>
          (case li_Update L msg (list_of m) of (l, c) \<Rightarrow> (map_option LibCmd c, m\<lparr>list_of := l\<rparr>))
      | screenAdd \<Rightarrow>
          (case addForm m of
             None \<Rightarrow> (None, m)
           | Some form \<Rightarrow>
               if \<not> adding m then (None, m)
               else
                 (case fm_Update L msg form of
                    (None, c) \<Rightarrow> (None, m)
                  | (Some f, c) \<Rightarrow>
                      (let m1 = m\<lparr>addForm := Some f\<rparr> in
                       if fm_Completed L f then (Some SaveEntry, m1\<lparr>adding := False\<rparr>)
                       else (map_option LibCmd c, m1))))
      | _ \<Rightarrow> (None, m))"

definition Update ::
  "('i, 'l, 'f, 'p, 'c, 'x) tea_lib \<Rightarrow> ('b, 's) cli_env \<Rightarrow> ('i, 'c, 'x) msg \<Rightarrow>
     ('i, 'l, 'f, 'p) model \<times> ('b, 's) outside \<Rightarrow>
     ('i, 'c) cmd option res \<times> ('i, 'l, 'f, 'p) model \<times> ('b, 's) outside" where
  "Update L env msg mw = (case mw of (m, w) \<Rightarrow>
     case msg of
       WindowSizeMsg wd ht \<Rightarrow>
         (let m1 = m\<lparr>width := wd, height := ht\<rparr> in
          (Ok None, (if li_HasItems L (list_of m1)
                     then m1\<lparr>list_of := li_SetSize L (wd - 8) (ht - 14) (list_of m1)\<rparr> else m1), w))
     | TickMsg x \<Rightarrow>
         (case sp_Update L x (spinner m) of (sp, c) \<Rightarrow> (Ok (map_option LibCmd c), m\<lparr>spinner := sp\<rparr>, w))
     | AuthSuccessMsg sess mk st \<Rightarrow>
         (Ok (Some LoadEntries),
          m\<lparr>session := Some sess, m_masterKey := mk, store := st, screen := screenList\<rparr>, w)
     | ErrMsg e \<Rightarrow> (Ok None, m\<lparr>err := Some e\<rparr>, w)
     | EntriesLoadedMsg items \<Rightarrow> (Ok None, m\<lparr>list_of := li_New L items (width m - 8) (height m - 14)\<rparr>, w)
     | BytesMsg b \<Rightarrow> (Ok None, m\<lparr>viewingData := b\<rparr>, w)
     | SyncCompletedMsg \<Rightarrow> (Ok (Some LoadEntries), m\<lparr>screen := screenList\<rparr>, w)
     | Key k \<Rightarrow>
         and_then (press L env k (m, w)) (\<lambda>fl mw1.
           (case fl of
              Return c \<Rightarrow> (Ok c, mw1)
            | Fall \<Rightarrow> (case mw1 of (m1, w1) \<Rightarrow> (case delegate L msg m1 of (c, m2) \<Rightarrow> (Ok c, m2, w1)))))
     | _ \<Rightarrow> (case delegate L msg m of (c, m1) \<Rightarrow> (Ok c, m1, w)))"

section \<open>View\<close>

fun Join :: "string \<Rightarrow> string list \<Rightarrow> string" where
  "Join sep [] = ''''"
| "Join sep [l] = l"
| "Join sep (l # ls) = l @ sep @ Join sep ls"

text \<open>A blank, the bytes of a bullet, a blank.\<close>

definition bullet :: string where
  "bullet = map char_of [32, 226, 128, 162, 32 :: nat]"

definition mapToActions :: "Action list \<Rightarrow> string list" where
  "mapToActions actions = map (\<lambda>a. ac_Key a @ '': '' @ ac_Label a) actions"

definition viewEntryView ::
  "('i, 'l, 'f, 'p, 'c, 'x) tea_lib \<Rightarrow> render_env \<Rightarrow> ('i, 'l, 'f, 'p) model \<Rightarrow> string res" where
  "viewEntryView L rn m =
     (if viewingData m = [] then Ok ''No data''
      else
        (case Unmarshal (viewingData m) of
           Err e \<Rightarrow> Ok (''Error parsing entry: '' @ error_text e)
         | Ok e \<Rightarrow>
             (case Render rn e (m_masterKey m) of
                Err e' \<Rightarrow> Ok (''Render error: '' @ error_text e')
              | Ok view \<Rightarrow>
                  Ok (Join nl (ev_Lines view) @ nl @ st_info L (nl @ Join bullet (mapToActions (ev_Actions view))))
              | Panic \<Rightarrow> Panic
              | Hang \<Rightarrow> Hang)
         | Panic \<Rightarrow> Panic
         | Hang \<Rightarrow> Hang))"

definition helpView :: "('i, 'l, 'f, 'p, 'c, 'x) tea_lib \<Rightarrow> string" where
  "helpView L = st_info L (nl @ arrows @ '': navigate'' @ bullet @ ''enter: view'' @ bullet @ ''a: add'' @
     bullet @ ''d: delete'' @ bullet @ ''esc: quit'')"

definition page ::
  "('i, 'l, 'f, 'p, 'c, 'x) tea_lib \<Rightarrow> ('i, 'l, 'f, 'p) model \<Rightarrow> string list \<Rightarrow> string" where
  "page L m parts = st_dungeon L (width m - 4) (height m - 4) (st_Join L parts)"

definition View ::
  "('i, 'l, 'f, 'p, 'c, 'x) tea_lib \<Rightarrow> render_env \<Rightarrow> ('i, 'l, 'f, 'p) model \<Rightarrow> string res" where
  "View L rn m =
     (case err m of
        Some e \<Rightarrow> Ok (st_error L (''Error: '' @ error_text e) @ nl @ ''Press esc to go back.'')
      | None \<Rightarrow>
          (case screen m of
             screenAuth \<Rightarrow> Ok (st_castle L @ nl @ auth_View L (authScreen m))
           | screenList \<Rightarrow> Ok (page L m [st_header L '' Vault '', li_View L (list_of m), helpView L])
           | screenView \<Rightarrow>
               bind_res (viewEntryView L rn m) (\<lambda>body.
                 Ok (page L m [st_header L '' Scroll '', body, st_info L ''esc: back'']))
           | screenAdd \<Rightarrow>
               (case addForm m of
                  Some form \<Rightarrow> Ok (page L m [st_header L '' Add Entry '', fm_View L form])
                | None \<Rightarrow> Ok ''Loading form...'')
           | screenChooseType \<Rightarrow>
               Ok (page L m [st_header L '' Choose Type '',
                 Join nl [''p: password'', ''t: text'', ''c: card'', ''b: binary'', ''esc: back'']])))"

section \<open>The loop\<close>

text \<open>
  The state of a running program: the model, the world, the commands that have been given to the
  loop and have not ended, and the messages that wait to be delivered.
\<close>

record ('i, 'l, 'f, 'p, 'c, 'x, 'b, 's) tui =
  t_model :: "('i, 'l, 'f, 'p) model"
  t_out :: "('b, 's) outside"
  t_cmds :: "('i, 'c) cmd list"
  t_msgs :: "('i, 'c, 'x) msg list"

text \<open>What the program's own commands do; the loop runs the library's.\<close>

fun run_cmd ::
  "('i, 'l, 'f, 'p, 'c, 'x) tea_lib \<Rightarrow> ('b, 's) cli_env \<Rightarrow> ('i, 'c) cmd \<Rightarrow>
     ('i, 'l, 'f, 'p) model \<Rightarrow> ('b, 's) outside \<Rightarrow> (('i, 'c, 'x) msg res \<times> ('b, 's) outside) option" where
  "run_cmd L env LoadEntries m w = Some (loadEntriesCmd env m w)"
| "run_cmd L env (ViewEntry i) m w = Some (viewEntryCmd env i m w)"
| "run_cmd L env SaveEntry m w = Some (saveEntryCmd L env m w)"
| "run_cmd L env SyncAfterSave m w = Some (saveAndSyncCmd env m w)"
| "run_cmd L env SaveAndSync m w = Some (saveAndSyncCmd env m w)"
| "run_cmd L env (HandleAuth a) m w = Some (handleAuth env a w)"
| "run_cmd L env Quit m w = None"
| "run_cmd L env (LibCmd c) m w = None"
| "run_cmd L env (Batch cs) m w = None"

text \<open>The messages of the terminal and of the library's commands.\<close>

fun from_terminal :: "('i, 'c, 'x) msg \<Rightarrow> bool" where
  "from_terminal (Key k) = True"
| "from_terminal (WindowSizeMsg wd ht) = True"
| "from_terminal _ = False"

fun from_library :: "('i, 'c, 'x) msg \<Rightarrow> bool" where
  "from_library (TickMsg x) = True"
| "from_library (LibMsg x) = True"
| "from_library _ = False"

text \<open>
  One step: input arrives; a command of the program runs, in surroundings that \<open>E\<close> allows, and
  its message is queued; a command of the library ends with a message or not; a batch is
  started; or a message is delivered to \<open>Update\<close>.  A message that is itself a command is
  delivered like any other: the loop only starts what \<open>Update\<close> gives back.
\<close>

inductive tui_step ::
  "('i, 'l, 'f, 'p, 'c, 'x) tea_lib \<Rightarrow> (('b, 's) cli_env \<Rightarrow> bool) \<Rightarrow>
     ('i, 'l, 'f, 'p, 'c, 'x, 'b, 's) tui \<Rightarrow> ('i, 'l, 'f, 'p, 'c, 'x, 'b, 's) tui \<Rightarrow> bool"
  for L :: "('i, 'l, 'f, 'p, 'c, 'x) tea_lib" and E :: "('b, 's) cli_env \<Rightarrow> bool"
where
  Arrives: "from_terminal msg \<Longrightarrow> tui_step L E t (t\<lparr>t_msgs := msg # t_msgs t\<rparr>)"
| Runs: "c \<in> set (t_cmds t) \<Longrightarrow> E env \<Longrightarrow> run_cmd L env c (t_model t) (t_out t) = Some (Ok msg, w) \<Longrightarrow>
    tui_step L E t (t\<lparr>t_cmds := remove1 c (t_cmds t), t_msgs := msg # t_msgs t, t_out := w\<rparr>)"
| Library: "LibCmd c \<in> set (t_cmds t) \<Longrightarrow> from_library msg \<Longrightarrow>
    tui_step L E t (t\<lparr>t_cmds := remove1 (LibCmd c) (t_cmds t), t_msgs := msg # t_msgs t\<rparr>)"
| Silent: "LibCmd c \<in> set (t_cmds t) \<Longrightarrow>
    tui_step L E t (t\<lparr>t_cmds := remove1 (LibCmd c) (t_cmds t)\<rparr>)"
| Starts: "Batch cs \<in> set (t_cmds t) \<Longrightarrow>
    tui_step L E t (t\<lparr>t_cmds := cs @ remove1 (Batch cs) (t_cmds t)\<rparr>)"
| Delivers: "msg \<in> set (t_msgs t) \<Longrightarrow> E env \<Longrightarrow>
    Update L env msg (t_model t, t_out t) = (Ok c, m, w) \<Longrightarrow>
    tui_step L E t (t\<lparr>t_model := m, t_out := w, t_cmds := (case c of None \<Rightarrow> t_cmds t | Some c \<Rightarrow> c # t_cmds t),
      t_msgs := remove1 msg (t_msgs t)\<rparr>)"

inductive_cases tui_stepE: "tui_step L E t t'"

text \<open>\<open>tea.NewProgram(tui.NewModel(serverAddr)).Run()\<close>\<close>

definition start ::
  "('i, 'l, 'f, 'p, 'c, 'x) tea_lib \<Rightarrow> string \<Rightarrow> ('b, 's) outside \<Rightarrow>
     ('i, 'l, 'f, 'p, 'c, 'x, 'b, 's) tui" where
  "start L addr w =
     \<lparr>t_model = NewModel L addr, t_out = w,
      t_cmds = (case Init L (NewModel L addr) of None \<Rightarrow> [] | Some c \<Rightarrow> [c]), t_msgs = []\<rparr>"

text \<open>\<open>cmd/tui/main.go\<close>: the address is the first argument after the program's name, if there is one.\<close>

definition tui_main ::
  "('i, 'l, 'f, 'p, 'c, 'x) tea_lib \<Rightarrow> string list \<Rightarrow> ('b, 's) outside \<Rightarrow>
     ('i, 'l, 'f, 'p, 'c, 'x, 'b, 's) tui" where
  "tui_main L args w = start L (if length args > 1 then args ! 1 else ''localhost:50051'') w"

end
