(* ===== verification/TuiProps.thy ===== *)
theory TuiProps
  imports Tui
begin

text \<open>
  What holds of the terminal user interface: invariants of the loop by rule induction over its
  steps, where the interface can get stuck, and what its commands do to the store.
\<close>

section \<open>What an update keeps\<close>

text \<open>
  A key or a message of a library leaves the session, the data of the entry and the server
  alone, does not clear an error, and does not cross between the authentication and the rest.
\<close>

definition keeps ::
  "('i, 'l, 'f, 'p) model \<times> ('b, 's) outside \<Rightarrow> ('i, 'l, 'f, 'p) model \<times> ('b, 's) outside \<Rightarrow> bool" where
  "keeps mw mw' \<longleftrightarrow>
     session (fst mw') = session (fst mw) \<and> store (fst mw') = store (fst mw) \<and>
     m_masterKey (fst mw') = m_masterKey (fst mw) \<and> viewingData (fst mw') = viewingData (fst mw) \<and>
     (err (fst mw) \<noteq> None \<longrightarrow> err (fst mw') \<noteq> None) \<and> o_net (snd mw') = o_net (snd mw) \<and>
     (screen (fst mw') = screenAuth \<longleftrightarrow> screen (fst mw) = screenAuth)"

lemma keeps_refl [simp]: "keeps mw mw"
  by (simp add: keeps_def)

lemma keeps_trans: "keeps a b \<Longrightarrow> keeps b c \<Longrightarrow> keeps a c"
  by (simp add: keeps_def)

lemma delegate_keeps: "delegate L msg m = (c, m') \<Longrightarrow> keeps (m, w) (m', w)"
  by (auto simp: keeps_def delegate_def Let_def split: screen.splits option.splits prod.splits if_splits)

lemma delegate_screen: "delegate L msg m = (c, m') \<Longrightarrow> screen m' = screen m"
  by (auto simp: delegate_def Let_def split: screen.splits option.splits prod.splits if_splits)

lemma with_store_keeps: "with_store m f w = (r, w') \<Longrightarrow> keeps (m, w) (m, w')"
  by (auto simp: keeps_def with_store_def split: option.splits if_splits prod.splits)

lemma choose_form_keeps: "choose_form L typ ffs m = (fl, m') \<Longrightarrow> keeps (m, w) (m', w)"
  by (auto simp: keeps_def choose_form_def Let_def split: if_splits)

lemma press_text_keeps:
  assumes "press_text L env k (m, w) = (r, m', w')"
  shows "keeps (m, w) (m', w')"
proof -
  have frm: "keeps (m, w) (m', w')"
    if "(case choose_form L ty ffs m of (fl, m1) \<Rightarrow> (Ok fl, m1, w)) = (r, m', w')" for ty ffs
    using that choose_form_keeps [of L ty ffs m] by (auto split: prod.splits)
  consider "k \<in> {''p'', ''t'', ''c'', ''b''}" | "k = ''d''" | "k \<notin> {''p'', ''t'', ''c'', ''b'', ''d''}" by blast
  then show ?thesis
  proof cases
    case 1
    then show ?thesis using assms frm by (auto simp: press_text_def)
  next
    case 2
    then show ?thesis using assms by (auto simp: press_text_def split: if_splits option.splits prod.splits dest: with_store_keeps)
  next
    case 3
    then show ?thesis
      using assms by (auto simp: press_text_def keeps_def split: if_splits option.splits res.splits)
  qed
qed

lemma press_keeps: "press L env k (m, w) = (r, m', w') \<Longrightarrow> keeps (m, w) (m', w')"
  by (auto simp: press_def split: key_type.splits if_splits dest: press_text_keeps) (auto simp: keeps_def)

text \<open>The messages whose cases of \<open>Update\<close> are not those of a key or a library.\<close>

fun special :: "('i, 'c, 'x) msg \<Rightarrow> bool" where
  "special (AuthSuccessMsg sess mk st) = True"
| "special (ErrMsg e) = True"
| "special (EntriesLoadedMsg items) = True"
| "special (BytesMsg b) = True"
| "special SyncCompletedMsg = True"
| "special _ = False"

lemma Update_keeps:
  assumes "Update L env msg (m, w) = (r, m', w')" and "\<not> special msg"
  shows "keeps (m, w) (m', w')"
proof (cases msg)
  case (Key k)
  obtain q m1 w1 where p: "press L env k (m, w) = (q, m1, w1)" by (cases "press L env k (m, w)") auto
  then have k: "keeps (m, w) (m1, w1)" by (rule press_keeps)
  obtain c m2 where d: "delegate L (Key k) m1 = (c, m2)" by fastforce
  then have "keeps (m1, w1) (m2, w1)" by (rule delegate_keeps)
  then show ?thesis
    using assms(1) k p d by (cases q) (auto simp: Update_def Key split: flow.splits intro: keeps_trans)
next
  case (WindowSizeMsg x y)
  then show ?thesis using assms(1) by (auto simp: Update_def keeps_def Let_def split: if_splits)
next
  case (TickMsg x)
  then show ?thesis using assms(1) by (auto simp: Update_def keeps_def split: prod.splits)
qed (use assms in \<open>auto simp: Update_def split: prod.splits intro: delegate_keeps\<close>)

lemma Update_special [simp]:
  "Update L env (AuthSuccessMsg sess mk st) (m, w) =
     (Ok (Some LoadEntries), m\<lparr>session := Some sess, m_masterKey := mk, store := st, screen := screenList\<rparr>, w)"
  "Update L env (ErrMsg e) (m, w) = (Ok None, m\<lparr>err := Some e\<rparr>, w)"
  "Update L env (EntriesLoadedMsg items) (m, w) =
     (Ok None, m\<lparr>list_of := li_New L items (width m - 8) (height m - 14)\<rparr>, w)"
  "Update L env (BytesMsg b) (m, w) = (Ok None, m\<lparr>viewingData := b\<rparr>, w)"
  "Update L env SyncCompletedMsg (m, w) = (Ok (Some LoadEntries), m\<lparr>screen := screenList\<rparr>, w)"
  by (simp_all add: Update_def)

lemma Update_err:
  assumes "Update L env msg (m, w) = (r, m', w')" and "err m \<noteq> None"
  shows "err m' \<noteq> None"
proof (cases "special msg")
  case True
  then show ?thesis using assms by (cases msg) auto
next
  case False
  then show ?thesis using Update_keeps [OF assms(1)] assms(2) by (simp add: keeps_def)
qed

section \<open>Errors stay\<close>

text \<open>
  Once an error is on the screen it never leaves it: in every state the loop reaches from
  there the model has an error, and all that is shown is that error with the advice to press
  escape.\<close>

theorem error_sticks:
  assumes "(tui_step L E)\<^sup>*\<^sup>* t t'" and "err (t_model t) \<noteq> None"
  shows "\<exists>e. err (t_model t') = Some e \<and>
    View L rn (t_model t') = Ok (st_error L (''Error: '' @ error_text e) @ nl @ ''Press esc to go back.'')"
proof -
  from assms have "err (t_model t') \<noteq> None"
  proof (induction rule: rtranclp_induct)
    case (step u v)
    have "err (t_model u) \<noteq> None" using step.IH step.prems .
    with step.hyps(2) show ?case by (elim tui_stepE) (auto dest: Update_err)
  qed
  then show ?thesis by (auto simp: View_def)
qed

section \<open>The session behind the screens\<close>

text \<open>The store is open, the session is there, and its key is the one in use.\<close>

definition ready :: "('i, 'l, 'f, 'p) model \<Rightarrow> bool" where
  "ready m \<longleftrightarrow> store m \<and> (\<exists>sess. session m = Some sess \<and> sn_MasterKey sess = m_masterKey m)"

text \<open>The commands that use them.\<close>

fun needs :: "('i, 'c) cmd \<Rightarrow> bool" where
  "needs LoadEntries = True"
| "needs (ViewEntry i) = True"
| "needs SaveEntry = True"
| "needs SyncAfterSave = True"
| "needs SaveAndSync = True"
| "needs (Batch cs) = list_ex needs cs"
| "needs _ = False"

fun msg_ok :: "('i, 'l, 'f, 'p) model \<Rightarrow> ('i, 'c, 'x) msg \<Rightarrow> bool" where
  "msg_ok m (AuthSuccessMsg sess mk st) \<longleftrightarrow> st \<and> sn_MasterKey sess = mk"
| "msg_ok m SyncCompletedMsg \<longleftrightarrow> ready m"
| "msg_ok m _ \<longleftrightarrow> True"

definition sound :: "('i, 'l, 'f, 'p, 'c, 'x, 'b, 's) tui \<Rightarrow> bool" where
  "sound t \<longleftrightarrow> (screen (t_model t) \<noteq> screenAuth \<longrightarrow> ready (t_model t)) \<and>
     (\<forall>c \<in> set (t_cmds t). needs c \<longrightarrow> ready (t_model t)) \<and> (\<forall>msg \<in> set (t_msgs t). msg_ok (t_model t) msg)"

lemma msg_ok_mono: "msg_ok m msg \<Longrightarrow> (ready m \<Longrightarrow> ready m') \<Longrightarrow> msg_ok m' msg"
  by (cases msg) auto

lemma caught_Ok:
  "caught p = (Ok msg, w') \<longleftrightarrow> p = (Ok msg, w') \<or> (\<exists>e. p = (Err e, w') \<and> msg = ErrMsg e)"
  by (cases p; cases "fst p") auto

lemma and_then_Err:
  "and_then p k = (Err e, s') \<longleftrightarrow> p = (Err e, s') \<or> (\<exists>x s. p = (Ok x, s) \<and> k x s = (Err e, s'))"
  by (cases p; cases "fst p") auto

lemma caught_snd: "caught p = (r, w) \<Longrightarrow> w = snd p"
  by (cases p; cases "fst p") auto

lemma with_store_cases:
  "with_store m f w = (Ok x, w') \<Longrightarrow>
     \<exists>sess. session m = Some sess \<and> store m \<and> f (sn_UserID sess) (o_db w) = (Ok x, o_db w') \<and> w' = w\<lparr>o_db := o_db w'\<rparr>"
  by (auto simp: with_store_def split: option.splits if_splits prod.splits)

lemma auth_login_msg:
  "auth_login env nonce client a w = (Ok msg, w') \<Longrightarrow> \<exists>sess. msg = AuthSuccessMsg sess (sn_MasterKey sess) True"
  by (auto simp: auth_login_def Let_def try_res_Ok and_then_Ok split_beta)

text \<open>The message a command ends with.\<close>

lemma load_msg: "loadEntriesCmd env m w = (Ok msg, w') \<Longrightarrow> (\<exists>items. msg = EntriesLoadedMsg items) \<or> (\<exists>e. msg = ErrMsg e)"
  by (auto simp: loadEntriesCmd_def caught_Ok dest!: with_store_cases)

lemma view_msg: "viewEntryCmd env i m w = (Ok msg, w') \<Longrightarrow> (\<exists>b. msg = BytesMsg b) \<or> (\<exists>e. msg = ErrMsg e)"
  by (auto simp: viewEntryCmd_def caught_Ok dest!: with_store_cases)

lemma save_msg:
  "saveEntryCmd L env m w = (Ok msg, w') \<Longrightarrow> msg = CmdMsg (Batch [SyncAfterSave]) \<or> (\<exists>e. msg = ErrMsg e)"
  by (auto simp: saveEntryCmd_def caught_Ok and_then_Ok split: option.splits)

lemma sync_msg: "saveAndSyncCmd env m w = (Ok msg, w') \<Longrightarrow> msg = SyncCompletedMsg"
  by (auto simp: saveAndSyncCmd_def split: option.splits if_splits prod.splits)

lemma handleAuth_msg:
  "handleAuth env a w = (Ok msg, w') \<Longrightarrow>
     (\<exists>sess. msg = AuthSuccessMsg sess (sn_MasterKey sess) True) \<or> (\<exists>e. msg = ErrMsg e)"
  by (auto simp: handleAuth_def caught_Ok try_res_Ok and_then_Ok split: if_splits dest!: auth_login_msg)

lemma run_cmd_msg:
  assumes "run_cmd L env c m w = Some (Ok msg, w')" and "needs c \<Longrightarrow> ready m"
  shows "msg_ok m msg"
  using assms
  by (cases c) (auto dest!: load_msg view_msg save_msg sync_msg handleAuth_msg)

text \<open>The commands \<open>Update\<close> gives back need a session only when there is one.\<close>

lemma press_text_cmd:
  assumes "press_text L env k (m, w) = (Ok (Return (Some c)), m', w')" and "needs c"
  shows "screen m = screenList"
  using assms
  by (auto simp: press_text_def choose_form_def Let_def split: if_splits option.splits prod.splits res.splits)

lemma press_cmd:
  assumes "press L env k (m, w) = (Ok (Return (Some c)), m', w')" and "needs c"
  shows "screen m = screenList"
  using assms by (auto simp: press_def split: key_type.splits if_splits intro: press_text_cmd)

lemma delegate_cmd:
  assumes "delegate L msg m = (Some c, m')" and "needs c"
  shows "screen m = screenAdd"
  using assms
  by (auto simp: delegate_def auth_Update_def auth_step_def updateChooseAction_def updateEnterLogin_def
      updateEnterPassword_def Let_def
      split: screen.splits option.splits if_splits prod.splits msg.splits key_type.splits authStep.splits)

lemma Update_cmd:
  assumes "Update L env msg (m, w) = (Ok (Some c), m', w')" and "needs c" and "\<not> special msg"
  shows "screen m \<noteq> screenAuth"
proof (cases msg)
  case (Key k)
  obtain q m1 w1 where p: "press L env k (m, w) = (q, m1, w1)" by (cases "press L env k (m, w)") auto
  have s: "screen m1 = screenAuth \<longleftrightarrow> screen m = screenAuth" using press_keeps [OF p] by (simp add: keeps_def)
  obtain fl where q: "q = Ok fl" using assms(1) p by (cases q) (auto simp: Update_def Key)
  show ?thesis
  proof (cases fl)
    case (Return d)
    then have "d = Some c" using assms(1) p q by (auto simp: Update_def Key)
    then show ?thesis using press_cmd [of L env k m w c m1 w1] p q Return assms(2) by simp
  next
    case Fall
    then have "delegate L (Key k) m1 = (Some c, m')" using assms(1) p q by (auto simp: Update_def Key split: prod.splits)
    then have "screen m1 = screenAdd" using delegate_cmd assms(2) by blast
    then show ?thesis using s by auto
  qed
qed (use assms in \<open>auto simp: Update_def Let_def split: prod.splits dest!: delegate_cmd\<close>)

lemma in_remove1: "x \<in> set (remove1 y xs) \<Longrightarrow> x \<in> set xs"
  using set_remove1_subset by fastforce

lemma sound_step:
  assumes "tui_step L E t t'" and "sound t"
  shows "sound t'"
  using assms
proof (cases rule: tui_step.cases)
  case (Arrives msg)
  then have "msg_ok (t_model t) msg" by (cases msg) auto
  then show ?thesis using assms(2) Arrives(1) by (simp add: sound_def)
next
  case (Runs c env msg w)
  then have "msg_ok (t_model t) msg" using run_cmd_msg [of L env c] assms(2) by (auto simp: sound_def)
  then show ?thesis using assms(2) Runs(1) by (auto simp: sound_def dest: in_remove1)
next
  case (Library c msg)
  then have "msg_ok (t_model t) msg" by (cases msg) auto
  then show ?thesis using assms(2) Library(1) by (auto simp: sound_def dest: in_remove1)
next
  case (Silent c)
  then show ?thesis using assms(2) by (auto simp: sound_def dest: in_remove1)
next
  case (Starts cs)
  then have "\<forall>x \<in> set cs. needs x \<longrightarrow> ready (t_model t)"
    using assms(2) by (fastforce simp: sound_def list_ex_iff)
  then show ?thesis using assms(2) Starts(1) by (auto simp: sound_def dest: in_remove1)
next
  case (Delivers msg env c m w)
  have ok: "msg_ok (t_model t) msg" using Delivers(2) assms(2) by (auto simp: sound_def)
  have mono: "ready (t_model t) \<Longrightarrow> ready m"
    using ok Delivers(4) Update_keeps [OF Delivers(4)] by (cases msg) (auto simp: ready_def keeps_def)
  have scr: "screen m \<noteq> screenAuth \<longrightarrow> ready m"
    using ok Delivers(4) Update_keeps [OF Delivers(4)] assms(2) mono
    by (cases msg) (auto simp: ready_def keeps_def sound_def)
  have cmd: "ready m" if "c = Some d" "needs d" for d
    using ok Delivers(4) Update_cmd [of L env msg "t_model t" "t_out t" d m w] that scr assms(2) mono
    by (cases "special msg"; cases msg) (auto simp: ready_def sound_def)
  show ?thesis
    using assms(2) Delivers(1) scr cmd mono msg_ok_mono [OF _ mono]
    by (auto simp: sound_def split: option.splits dest: in_remove1)
qed

lemma sound_start: "sound (start L addr w)"
  by (simp add: sound_def start_def NewModel_def Init_def)

lemma sound_reachable: "(tui_step L E)\<^sup>*\<^sup>* t t' \<Longrightarrow> sound t \<Longrightarrow> sound t'"
  by (induction rule: rtranclp_induct) (auto intro: sound_step)

text \<open>
  C33. In every state the program reaches, whatever the order in which commands end and messages
  arrive: past the authentication screen, and whenever a command that uses them is under way, the
  store is open, a session is there, and the master key in use is that session's.  So no command
  and no key follows a nil store or session.\<close>

theorem session_behind_screens:
  assumes "(tui_step L E)\<^sup>*\<^sup>* (start L addr w) t"
    and "screen (t_model t) \<noteq> screenAuth \<or> (\<exists>c \<in> set (t_cmds t). needs c)"
  shows "store (t_model t) \<and> (\<exists>sess. session (t_model t) = Some sess \<and>
    sn_MasterKey sess = m_masterKey (t_model t))"
  using sound_reachable [OF assms(1) sound_start] assms(2) by (auto simp: sound_def ready_def)

section \<open>After saving\<close>

text \<open>The commands and messages that can lead away from a form that was completed.\<close>

fun leaves :: "('i, 'c) cmd \<Rightarrow> bool" where
  "leaves SyncAfterSave = True"
| "leaves SaveAndSync = True"
| "leaves (HandleAuth a) = True"
| "leaves (Batch cs) = True"
| "leaves _ = False"

fun moves :: "('i, 'c, 'x) msg \<Rightarrow> bool" where
  "moves (AuthSuccessMsg sess mk st) = True"
| "moves SyncCompletedMsg = True"
| "moves _ = False"

definition stuck :: "'s \<Rightarrow> ('i, 'l, 'f, 'p, 'c, 'x, 'b, 's) tui \<Rightarrow> bool" where
  "stuck n t \<longleftrightarrow> screen (t_model t) = screenAdd \<and> \<not> adding (t_model t) \<and> o_net (t_out t) = n \<and>
     (\<forall>c \<in> set (t_cmds t). \<not> leaves c) \<and> (\<forall>msg \<in> set (t_msgs t). \<not> moves msg)"

lemma Update_stuck:
  assumes "Update L env msg (m, w) = (Ok c, m', w')" and "screen m = screenAdd" "\<not> adding m" "\<not> moves msg"
  shows "screen m' = screenAdd \<and> \<not> adding m' \<and> o_net w' = o_net w \<and> (\<forall>d. c = Some d \<longrightarrow> \<not> leaves d)"
proof -
  have d: "delegate L msg m = (None, m)" using assms(2,3) by (auto simp: delegate_def split: option.splits)
  show ?thesis
  proof (cases msg)
    case (Key k)
    have "press L env k (m, w) \<in> {(Ok Fall, m, w), (Ok (Return (Some Quit)), m, w)}"
      using assms(2) by (auto simp: press_def press_text_def choose_form_def split: key_type.splits)
    then show ?thesis using assms d by (auto simp: Update_def Key)
  next
    case (WindowSizeMsg x y)
    then show ?thesis using assms by (auto simp: Update_def Let_def split: if_splits)
  next
    case (TickMsg x)
    then show ?thesis using assms by (auto simp: Update_def split: prod.splits)
  qed (use assms d in \<open>auto simp: Update_def\<close>)
qed

lemma seal_keeps: "seal env m g name plain w = (r, w') \<Longrightarrow> o_files w' = o_files w \<and> o_net w' = o_net w"
  by (auto simp: seal_def Let_def with_store_def split: try_res_splits option.splits if_splits prod.splits)

lemma save_fields_keeps:
  "save_fields L env m form w = (r, w') \<Longrightarrow> o_files w' = o_files w \<and> o_net w' = o_net w"
  by (auto simp: save_fields_def Marshal_def Let_def split: if_splits try_res_splits dest: seal_keeps)

lemma read_only:
  "loadEntriesCmd env m w = (r, w') \<Longrightarrow> w' = w"
  "viewEntryCmd env i m w = (r', w') \<Longrightarrow> w' = w"
  by (auto simp: loadEntriesCmd_def viewEntryCmd_def with_store_def dest!: caught_snd split: option.splits if_splits)

lemma run_cmd_stuck:
  assumes "run_cmd L env c m w = Some (Ok msg, w')" and "\<not> leaves c"
  shows "\<not> moves msg \<and> o_net w' = o_net w"
proof (cases c)
  case SaveEntry
  have "o_net w' = o_net w"
    using assms(1) SaveEntry
    by (auto simp: saveEntryCmd_def caught_Ok and_then_Ok and_then_Err dest: save_fields_keeps split: option.splits)
  then show ?thesis using assms(1) SaveEntry by (auto dest!: save_msg)
next
  case LoadEntries
  then show ?thesis using assms(1) by (auto dest: load_msg read_only)
next
  case (ViewEntry i)
  then show ?thesis using assms(1) by (auto dest: view_msg read_only)
qed (use assms in auto)

lemma stuck_step:
  assumes "tui_step L E t t'" and "stuck n t"
  shows "stuck n t'"
  using assms
proof (cases rule: tui_step.cases)
  case (Arrives msg)
  then have "\<not> moves msg" by (cases msg) auto
  then show ?thesis using assms(2) Arrives(1) by (simp add: stuck_def)
next
  case (Runs c env msg w)
  then have "\<not> moves msg \<and> o_net w = n" using run_cmd_stuck [of L env c] assms(2) by (fastforce simp: stuck_def)
  then show ?thesis using assms(2) Runs(1) by (auto simp: stuck_def dest: in_remove1)
next
  case (Library c msg)
  then have "\<not> moves msg" by (cases msg) auto
  then show ?thesis using assms(2) Library(1) by (auto simp: stuck_def dest: in_remove1)
next
  case (Silent c)
  then show ?thesis using assms(2) by (auto simp: stuck_def dest: in_remove1)
next
  case (Starts cs)
  then show ?thesis using assms(2) by (auto simp: stuck_def)
next
  case (Delivers msg env c m w)
  then have "screen m = screenAdd \<and> \<not> adding m \<and> o_net w = n \<and> (\<forall>d. c = Some d \<longrightarrow> \<not> leaves d)"
    using Update_stuck [OF Delivers(4)] assms(2) by (auto simp: stuck_def)
  then show ?thesis using assms(2) Delivers(1) by (auto simp: stuck_def split: option.splits dest: in_remove1)
qed

lemma Update_saves:
  assumes "Update L env msg (m, w) = (Ok (Some SaveEntry), m', w')"
  shows "screen m' = screenAdd \<and> \<not> adding m' \<and> o_net w' = o_net w"
proof -
  have fin: "screen m2 = screenAdd \<and> \<not> adding m2" if "delegate L msg' m1 = (Some SaveEntry, m2)" for msg' m1 m2
    using that by (auto simp: delegate_def auth_Update_def auth_step_def updateChooseAction_def updateEnterLogin_def
      updateEnterPassword_def Let_def
      split: screen.splits option.splits if_splits prod.splits msg.splits key_type.splits authStep.splits)
  show ?thesis
  proof (cases msg)
    case (Key k)
    obtain q m1 w1 where p: "press L env k (m, w) = (q, m1, w1)" by (cases "press L env k (m, w)") auto
    have "q \<noteq> Ok (Return (Some SaveEntry))"
      using p by (auto simp: press_def press_text_def choose_form_def Let_def
          split: key_type.splits if_splits option.splits prod.splits res.splits)
    then have "delegate L (Key k) m1 = (Some SaveEntry, m') \<and> w' = w1"
      using assms p by (cases q) (auto simp: Update_def Key split: flow.splits prod.splits)
    then show ?thesis using fin press_keeps [OF p] by (auto simp: keeps_def)
  qed (use assms fin in \<open>auto simp: Update_def Let_def split: prod.splits\<close>)
qed

text \<open>
  C37. When a form is completed and nothing else that could move the program is under way, the
  program never leaves the form's screen again, and nothing is ever sent: the command that
  saves the entry ends in a command, which the loop delivers as a message and does not start.\<close>

theorem saved_form_stuck:
  assumes "Update L env msg (m, w) = (Ok (Some SaveEntry), m', w')"
    and "\<forall>c \<in> set cmds. \<not> leaves c" and "\<forall>msg \<in> set msgs. \<not> moves msg"
    and "(tui_step L E)\<^sup>*\<^sup>* \<lparr>t_model = m', t_out = w', t_cmds = SaveEntry # cmds, t_msgs = msgs\<rparr> t"
  shows "screen (t_model t) = screenAdd \<and> o_net (t_out t) = o_net w"
proof -
  have "stuck (o_net w) \<lparr>t_model = m', t_out = w', t_cmds = SaveEntry # cmds, t_msgs = msgs\<rparr>"
    using Update_saves [OF assms(1)] assms(2,3) by (auto simp: stuck_def)
  with assms(4) have "stuck (o_net w) t" by (induction rule: rtranclp_induct) (auto intro: stuck_step)
  then show ?thesis by (simp add: stuck_def)
qed

section \<open>Keys that do nothing\<close>

text \<open>Escape does not leave the choice of a type, although the screen offers it.\<close>

lemma choose_type_escape:
  "screen m = screenChooseType \<Longrightarrow> key_Type k = KeyEscape \<Longrightarrow> Update L env (Key k) (m, w) = (Ok None, m, w)"
  by (simp add: Update_def press_def delegate_def)

text \<open>The key of the action the view offers for passwords, texts and cards does nothing.\<close>

lemma copy_does_nothing:
  "screen m = screenView \<Longrightarrow> key_Type k = KeyOther n \<Longrightarrow> key_text k = ''c'' \<Longrightarrow>
     Update L env (Key k) (m, w) = (Ok None, m, w)"
  by (simp add: Update_def press_def press_text_def choose_form_def delegate_def)

text \<open>An entry that is opened is at first drawn with the data of the one that was opened before.\<close>

lemma stale_view:
  "screen m = screenList \<Longrightarrow> key_Type k = KeyOther n \<Longrightarrow> key_text k = ''enter'' \<Longrightarrow>
     li_Selected L (list_of m) = Some i \<Longrightarrow>
     \<exists>m'. Update L env (Key k) (m, w) = (Ok (Some (ViewEntry (it_id i))), m', w) \<and>
       screen m' = screenView \<and> viewingEntry m' = i \<and> viewEntryView L rn m' = viewEntryView L rn m"
  by (simp add: Update_def press_def press_text_def viewEntryView_def Render_def cong: res.case_cong)

section \<open>A small instance\<close>

text \<open>
  Widgets for the witnesses: a text input that appends what is typed, a list that selects
  its first item, and a form whose fields all hold an \<open>x\<close> and which \<open>enter\<close> completes.
\<close>

definition ref_lib :: "(string, item list, (string \<Rightarrow> string) \<times> bool, unit, unit, unit) tea_lib" where
  "ref_lib = \<lparr>ti_New = '''', ti_Placeholder = (\<lambda>_ s. s), ti_EchoPassword = id, ti_Focus = id, ti_Blink = (),
     ti_Update = (\<lambda>msg s. (case msg of Key k \<Rightarrow> if key_text k = ''enter'' then s else s @ key_text k | _ \<Rightarrow> s, None)),
     ti_Value = id, ti_View = id, li_zero = [], li_New = (\<lambda>items _ _. items), li_HasItems = (\<lambda>l. l \<noteq> []),
     li_SetSize = (\<lambda>_ _ l. l), li_Selected = (\<lambda>l. case l of [] \<Rightarrow> None | x # _ \<Rightarrow> Some x),
     li_Update = (\<lambda>_ l. (l, None)), li_View = (\<lambda>_. ''''), sp_New = (), sp_Update = (\<lambda>_ p. (p, None)),
     fm_New = (\<lambda>_. (\<lambda>_. ''x'', False)), fm_Init = (\<lambda>_. None),
     fm_Update = (\<lambda>msg f. (Some (fst f, is_enter msg \<or> snd f), None)), fm_Completed = snd, fm_GetString = fst,
     fm_GetBool = (\<lambda>_ _. False), fm_View = (\<lambda>_. ''''), st_error = id, st_info = id, st_header = id,
     st_dungeon = (\<lambda>_ _. id), st_Join = concat, st_castle = ''''\<rparr>"

definition ref_out :: "world \<Rightarrow> (alist, world) outside" where
  "ref_out n = \<lparr>o_files = Map.empty, o_db = ref_local [], o_net = n\<rparr>"

definition ref_rn :: render_env where
  "ref_rn = \<lparr>rn_GenerateCode = (\<lambda>_ _. Inr ''123456''), rn_now = 0, rn_Second = 0\<rparr>"

definition typed :: "string \<Rightarrow> (string, unit, unit) msg" where
  "typed k = Key \<lparr>key_Type = KeyOther 0, key_text = k\<rparr>"

definition escape :: "(string, unit, unit) msg" where
  "escape = Key \<lparr>key_Type = KeyEscape, key_text = ''esc''\<rparr>"

text \<open>A key that is pressed and delivered at once.\<close>

lemma pressed:
  assumes "from_terminal msg" and "E env" and "Update L env msg (t_model t, t_out t) = (Ok c, m, w)"
  shows "(tui_step L E)\<^sup>*\<^sup>* t
    (t\<lparr>t_model := m, t_out := w, t_cmds := (case c of None \<Rightarrow> t_cmds t | Some c \<Rightarrow> c # t_cmds t)\<rparr>)"
proof -
  have 1: "tui_step L E t (t\<lparr>t_msgs := msg # t_msgs t\<rparr>)" by (rule Arrives [OF assms(1)])
  have 2: "tui_step L E (t\<lparr>t_msgs := msg # t_msgs t\<rparr>)
      ((t\<lparr>t_msgs := msg # t_msgs t\<rparr>)\<lparr>t_model := m, t_out := w,
        t_cmds := (case c of None \<Rightarrow> t_cmds (t\<lparr>t_msgs := msg # t_msgs t\<rparr>) | Some c \<Rightarrow> c # t_cmds (t\<lparr>t_msgs := msg # t_msgs t\<rparr>)),
        t_msgs := remove1 msg (t_msgs (t\<lparr>t_msgs := msg # t_msgs t\<rparr>))\<rparr>)"
    by (rule Delivers [where env = env]) (use assms(2,3) in simp_all)
  show ?thesis
    using rtranclp.rtrancl_into_rtrancl [of "tui_step L E", OF r_into_rtranclp [of "tui_step L E", OF 1] 2]
    by (simp cong: option.case_cong)
qed

text \<open>An error on the authentication screen, after escape.\<close>

definition ref_failed :: "(string, item list, (string \<Rightarrow> string) \<times> bool, unit, unit, unit, alist, world) tui" where
  "ref_failed = (start ref_lib ''s'' (ref_out (ref_world [])))
     \<lparr>t_model := (NewModel ref_lib ''s'')\<lparr>err := Some (Errorf ''login failed'')\<rparr>\<rparr>"

theorem error_sticks_witness:
  "\<exists>t. (tui_step ref_lib (\<lambda>_. True))\<^sup>*\<^sup>* ref_failed t \<and> Quit \<in> set (t_cmds t) \<and>
     View ref_lib ref_rn (t_model t) = Ok (''Error: login failed'' @ nl @ ''Press esc to go back.'')"
proof -
  let ?m = "t_model ref_failed" and ?w = "t_out ref_failed"
  have "Update ref_lib (ref_cli_env offline) escape (?m, ?w) = (Ok (Some Quit), ?m, ?w)"
    by (simp add: Update_def escape_def press_def delegate_def auth_Update_def ref_failed_def start_def NewModel_def
        newAuthModel_def Let_def)
  from pressed [OF _ _ this, of "\<lambda>_. True"]
  have s: "(tui_step ref_lib (\<lambda>_. True))\<^sup>*\<^sup>* ref_failed (ref_failed\<lparr>t_cmds := Quit # t_cmds ref_failed\<rparr>)"
    by (simp add: escape_def)
  have "err (t_model ref_failed) \<noteq> None" by (simp add: ref_failed_def)
  from error_sticks [OF s this, of ref_rn] s show ?thesis
    by (auto simp: ref_failed_def ref_lib_def)
qed

text \<open>A text entry whose form is completed by \<open>enter\<close>.\<close>

definition ref_adding :: "(string, item list, (string \<Rightarrow> string) \<times> bool, unit) model" where
  "ref_adding = (NewModel ref_lib ''s'')\<lparr>screen := screenAdd, store := True,
     session := Some \<lparr>sn_UserID = ''l'', sn_MasterKey = ref_key, sn_AccessToken = '''', sn_RefreshToken = ''''\<rparr>,
     m_masterKey := ref_key, adding := True, addingType := ''text'', addForm := Some (\<lambda>_. ''x'', False)\<rparr>"

lemma ref_completes:
  "Update ref_lib env (typed ''enter'') (ref_adding, w) =
     (Ok (Some SaveEntry), ref_adding\<lparr>addForm := Some (\<lambda>_. ''x'', True), adding := False\<rparr>, w)"
  by (simp add: Update_def typed_def press_def press_text_def delegate_def ref_adding_def NewModel_def Let_def
      ref_lib_def is_enter_def)

theorem saved_form_stuck_witness:
  "\<exists>t. (tui_step ref_lib (\<lambda>_. True))\<^sup>*\<^sup>*
       \<lparr>t_model = ref_adding\<lparr>addForm := Some (\<lambda>_. ''x'', True), adding := False\<rparr>,
        t_out = ref_out (ref_world []), t_cmds = [SaveEntry], t_msgs = []\<rparr> t \<and>
     escape \<in> set (t_msgs t) \<and> screen (t_model t) = screenAdd \<and> o_net (t_out t) = ref_world []"
proof -
  let ?m = "ref_adding\<lparr>addForm := Some (\<lambda>_. ''x'', True), adding := False\<rparr>"
  let ?t = "\<lparr>t_model = ?m, t_out = ref_out (ref_world []), t_cmds = [SaveEntry], t_msgs = []\<rparr>"
  have "tui_step ref_lib (\<lambda>_. True) ?t (?t\<lparr>t_msgs := escape # t_msgs ?t\<rparr>)"
    by (rule Arrives) (simp add: escape_def)
  then have s: "(tui_step ref_lib (\<lambda>_. True))\<^sup>*\<^sup>* ?t (?t\<lparr>t_msgs := [escape]\<rparr>)" by auto
  have "screen (t_model (?t\<lparr>t_msgs := [escape]\<rparr>)) = screenAdd \<and>
      o_net (t_out (?t\<lparr>t_msgs := [escape]\<rparr>)) = o_net (ref_out (ref_world []))"
    by (rule saved_form_stuck [OF ref_completes [of "ref_cli_env offline" "ref_out (ref_world [])"] _ _ s]) simp_all
  then show ?thesis using s by (intro exI [of _ "?t\<lparr>t_msgs := [escape]\<rparr>"]) (simp add: ref_out_def)
qed

end
