(* ===== verification/TuiStore.thy ===== *)
theory TuiStore
  imports TuiProps
begin

text \<open>
  What the commands of the terminal user interface do to the store: what the list shows, that an
  entry typed into a form is the one that is shown, and that a login from the interface is the
  login of the command line.
\<close>

section \<open>The list\<close>

text \<open>The line of the list for an entry.\<close>

fun entry_item :: "string \<Rightarrow> entry \<Rightarrow> item" where
  "entry_item i (Password v) = \<lparr>it_id = i, it_entryType = TypePassword,
     it_title = pw_Site v @ (if pw_IsOTP v then '' (OTP)'' else ''''), it_desc = pw_Login v\<rparr>"
| "entry_item i (Text v) = \<lparr>it_id = i, it_entryType = TypeText, it_title = tx_Title v,
     it_desc = preview (tx_Content v)\<rparr>"
| "entry_item i (Card v) = \<lparr>it_id = i, it_entryType = TypeCard, it_title = cd_Holder v,
     it_desc = cd_Number v @ '' '' @ cd_Expiry v\<rparr>"
| "entry_item i (Binary v) = \<lparr>it_id = i, it_entryType = TypeBinary, it_title = bn_FileName v,
     it_desc = dec_int (int (length (bn_Data v))) @ '' bytes''\<rparr>"

lemma entry_item_id [simp]: "it_id (entry_item i e) = i"
  by (cases e) auto

text \<open>The list decodes an entry exactly when the codec does, whatever the bytes are.\<close>

lemma skip_err_Some: "skip_err r k = Ok (Some x) \<longleftrightarrow> (\<exists>y. r = Ok y \<and> k y = Ok (Some x))"
  by (cases r) auto

lemma item_of_Unmarshal:
  assumes "probe_type plain = Ok ty"
  shows "item_of i ty plain = Ok (Some x) \<longleftrightarrow> (\<exists>e. Unmarshal plain = Ok e \<and> x = entry_item i e)"
proof -
  consider "ty = ''password''" | "ty = ''text''" | "ty = ''card''" | "ty = ''binary''"
    | "ty \<notin> {''password'', ''text'', ''card'', ''binary''}" by blast
  then show ?thesis
    by cases (auto simp: assms item_of_def Unmarshal_def skip_err_Some type_defs)
qed

lemma probed_item:
  "(\<exists>ty. probe_type plain = Ok ty \<and> item_of i ty plain = Ok (Some x)) \<longleftrightarrow>
     (\<exists>e. Unmarshal plain = Ok e \<and> x = entry_item i e)"
proof -
  have "Unmarshal plain = Ok e \<Longrightarrow> \<exists>ty. probe_type plain = Ok ty" for e
    by (auto simp: Unmarshal_def split: res.splits)
  then show ?thesis using item_of_Unmarshal by blast
qed

lemma load_loop_Ok:
  assumes "load_loop f ids = Ok items" and "\<And>i x. f i = Ok (Some x) \<Longrightarrow> it_id x = i"
    and "sorted_wrt R ids"
  shows "set items = {x. \<exists>i \<in> set ids. f i = Ok (Some x)} \<and> sorted_wrt (\<lambda>x y. R (it_id x) (it_id y)) items"
  using assms
proof (induction ids arbitrary: items)
  case (Cons i ids)
  obtain o' rest where o': "f i = Ok o'" "load_loop f ids = Ok rest"
    "items = (case o' of None \<Rightarrow> rest | Some x \<Rightarrow> x # rest)" using Cons.prems(1) by auto
  have IH: "set rest = {x. \<exists>i \<in> set ids. f i = Ok (Some x)}" "sorted_wrt (\<lambda>x y. R (it_id x) (it_id y)) rest"
    using Cons.IH [OF o'(2) Cons.prems(2)] Cons.prems(3) by auto
  show ?case
  proof (cases o')
    case None
    then show ?thesis using o' IH by auto
  next
    case (Some x)
    then have x: "it_id x = i" "items = x # rest" using o' Cons.prems(2) by auto
    have "\<forall>y \<in> set rest. R i (it_id y)" using IH(1) Cons.prems(2,3) by fastforce
    then show ?thesis using o'(1) Some x IH by auto
  qed
qed simp

lemma load_loop_total: "(\<And>i. \<exists>r. f i = Ok r) \<Longrightarrow> \<exists>items. load_loop f ids = Ok items"
proof (induction ids)
  case (Cons i ids)
  then obtain r items where "f i = Ok r" "load_loop f ids = Ok items" by blast
  then show ?case by simp
qed simp

lemma skip_err_total: "returned r \<Longrightarrow> (\<And>x. r = Ok x \<Longrightarrow> \<exists>y. k x = Ok y) \<Longrightarrow> \<exists>y. skip_err r k = Ok y"
  by (cases r) auto

lemma item_of_total: "\<exists>r. item_of i ty plain = Ok r"
  by (simp add: item_of_def skip_err_total)

lemma load_item_total:
  assumes "bolt B" and "store_ok B d" and "db_view_err B d = None"
  shows "\<exists>r. load_item B d mk u i = Ok r"
proof -
  have "returned (Get B d u i)" "returned (GetVersion B d u i)"
    unfolding bolt.Get_cases [OF assms(1,2)] bolt.GetVersion_cases [OF assms(1,2)] assms(3)
    by (simp_all split: option.split)
  moreover from this obtain ver where "drop_err 0 (GetVersion B d u i) = Ok ver"
    using drop_err_Ok [of "GetVersion B d u i" 0] by blast
  moreover have "returned (Decrypt c mk)" "returned (probe_type plain)" for c plain
    using Decrypt_returns by (simp_all add: returned_iff probe_type_def [of plain] unmarshal_struct_returns [unfolded returned_iff])
  ultimately show ?thesis
    unfolding load_item_def by (intro skip_err_total) (simp_all add: item_of_total)
qed

text \<open>
  C34. Loading never fails on an open store, and the list shows exactly the entries of the user
  whose stored bytes the master key opens to something the codec reads, and that are not marked
  as deleted, each with its own id, type and title, once, in the order of their keys.\<close>

theorem list_shows:
  assumes "bolt (ce_bolt env)" and "store_ok (ce_bolt env) (o_db w)" and "db_view_err (ce_bolt env) (o_db w) = None"
    and "session m = Some sess" and "store m"
  shows "\<exists>items. loadEntriesCmd env m w = (Ok (EntriesLoadedMsg items), w) \<and> set items = {entry_item i e | i e. \<exists>c plain.
      entry_cell (ce_bolt env) (o_db w) (key (sn_UserID sess) i) = Some c \<and> Decrypt c (m_masterKey m) = Ok plain \<and>
      Unmarshal plain = Ok e \<and> version_cell (ce_bolt env) (o_db w) (key (sn_UserID sess) i) \<noteq> Some (- 1)} \<and>
    sorted_wrt (\<lambda>x y. key (sn_UserID sess) (it_id x) < key (sn_UserID sess) (it_id y)) items"
proof -
  let ?B = "ce_bolt env" and ?d = "o_db w" and ?u = "sn_UserID sess" and ?f = "load_item (ce_bolt env) (o_db w) (m_masterKey m) (sn_UserID sess)"
  note view = assms(3)
  obtain ids where ids: "List ?B ?d ?u = Ok ids"
    and set_ids: "set ids = ids_of (entry_cell ?B ?d) ?u" "sorted_wrt (\<lambda>i j. key ?u i < key ?u j) ids"
    by (rule bolt.List_reliable [OF assms(1,2) view])
  have "\<exists>r. ?f i = Ok r" for i by (rule load_item_total [OF assms(1,2) view])
  then obtain items where items: "load_loop ?f ids = Ok items" using load_loop_total by blast
  have run: "loadEntriesCmd env m w = (Ok (EntriesLoadedMsg items), w)"
    using assms(4,5) ids items by (simp add: loadEntriesCmd_def with_store_def)
  have get: "Get ?B ?d ?u i = Ok c \<longleftrightarrow> entry_cell ?B ?d (key ?u i) = Some c" for i c
    using bolt.Get_cases [OF assms(1,2)] view by (auto split: option.splits)
  have ver: "drop_err 0 (GetVersion ?B ?d ?u i) =
      Ok (case version_cell ?B ?d (key ?u i) of None \<Rightarrow> 0 | Some v \<Rightarrow> v)" for i
    using bolt.GetVersion_cases [OF assms(1,2)] view by (auto split: option.splits)
  have item: "?f i = Ok (Some x) \<longleftrightarrow> (\<exists>c plain e. entry_cell ?B ?d (key ?u i) = Some c \<and>
      Decrypt c (m_masterKey m) = Ok plain \<and> Unmarshal plain = Ok e \<and>
      version_cell ?B ?d (key ?u i) \<noteq> Some (- 1) \<and> x = entry_item i e)" for i x
  proof -
    have "?f i = Ok (Some x) \<longleftrightarrow> (\<exists>c plain. entry_cell ?B ?d (key ?u i) = Some c \<and>
        Decrypt c (m_masterKey m) = Ok plain \<and> version_cell ?B ?d (key ?u i) \<noteq> Some (- 1) \<and>
        (\<exists>ty. probe_type plain = Ok ty \<and> item_of i ty plain = Ok (Some x)))"
      by (cases "version_cell ?B ?d (key ?u i)") (auto simp: load_item_def skip_err_Some get ver)
    then show ?thesis unfolding probed_item by blast
  qed
  have id: "?f i = Ok (Some x) \<Longrightarrow> it_id x = i" for i x unfolding item by (elim exE conjE) simp
  have "set items = {x. \<exists>i \<in> set ids. ?f i = Ok (Some x)} \<and>
      sorted_wrt (\<lambda>x y. key ?u (it_id x) < key ?u (it_id y)) items"
    by (rule load_loop_Ok [OF items id set_ids(2)])
  moreover have "{x. \<exists>i \<in> set ids. ?f i = Ok (Some x)} = {entry_item i e | i e. \<exists>c plain.
      entry_cell ?B ?d (key ?u i) = Some c \<and> Decrypt c (m_masterKey m) = Ok plain \<and>
      Unmarshal plain = Ok e \<and> version_cell ?B ?d (key ?u i) \<noteq> Some (- 1)}" (is "?L = ?R")
  proof (intro set_eqI iffI)
    fix x assume "x \<in> ?L"
    then obtain i where "?f i = Ok (Some x)" by blast
    then show "x \<in> ?R" unfolding item by blast
  next
    fix x assume "x \<in> ?R"
    then obtain i where "entry_cell ?B ?d (key ?u i) \<noteq> None" "?f i = Ok (Some x)" unfolding item by blast
    then show "x \<in> ?L" unfolding set_ids(1) ids_of_def by blast
  qed
  ultimately show ?thesis using run by auto
qed

section \<open>Saving and viewing\<close>

text \<open>What was typed into a completed form, as an entry.\<close>

definition form_entry ::
  "('i, 'l, 'f, 'p, 'c, 'x) tea_lib \<Rightarrow> string \<Rightarrow> 'f \<Rightarrow> files \<Rightarrow> entry option" where
  "form_entry L ty form fs =
     (let get = fm_GetString L form in
      if ty = ''password'' then
        Some (Password (zero_password\<lparr>pw_Type := TypePassword, pw_Site := get ''site'',
          pw_Login := get ''login'', pw_Password := get ''password'', pw_Meta := get ''meta'',
          pw_IsOTP := fm_GetBool L form ''is_otp'', pw_OTPSecret := get ''otp_secret''\<rparr>))
      else if ty = ''text'' then
        Some (Text (zero_text\<lparr>tx_Type := TypeText, tx_Title := get ''title'',
          tx_Content := get ''content'', tx_Meta := get ''meta''\<rparr>))
      else if ty = ''card'' then
        Some (Card (zero_card\<lparr>cd_Type := TypeCard, cd_Number := get ''number'', cd_Expiry := get ''expiry'',
          cd_CVV := get ''cvv'', cd_Holder := get ''holder'', cd_Meta := get ''meta''\<rparr>))
      else if ty = ''binary'' then
        map_option (\<lambda>data. Binary (zero_binary\<lparr>bn_Type := TypeBinary, bn_FileName := Base (get ''path''),
          bn_Data := data, bn_Meta := get ''meta''\<rparr>)) (fs (get ''path''))
      else None)"

lemma form_entry_type: "form_entry L ty form fs = Some e \<Longrightarrow> type_field e = GetType e"
  by (auto simp: form_entry_def Let_def split: if_splits)

lemma save_fields_seal:
  assumes "save_fields L env m form w = (Ok (), w')" and "form_entry L (addingType m) form (o_files w) = Some e"
  shows "\<exists>g name. seal env m g name (marshal_json (JObj (entry_members e))) w = (Ok (), w')"
  using assms
  by (auto simp: save_fields_def form_entry_def Let_def Marshal_def try_res_Ok simp del: entry_members.simps
      split: if_splits)

text \<open>A sealed entry can be read back under its new id.\<close>

lemma seal_stores:
  assumes "bolt (ce_bolt env)" and "store_ok (ce_bolt env) (o_db w)" and "seal env m g name plain w = (Ok (), w')"
  obtains c sess i where "Encrypt (ce_rnd env 0) plain (m_masterKey m) = Ok c" "session m = Some sess" "store m"
    "store_ok (ce_bolt env) (o_db w')" "is_open (o_db w') = is_open (o_db w)"
    "entry_cell (ce_bolt env) (o_db w') (key (sn_UserID sess) i) = Some c"
proof -
  let ?B = "ce_bolt env" and ?i = "name @ ''-'' @ dec_int (sint (ce_nano env 0))"
  obtain c where c: "Encrypt (ce_rnd env 0) plain (m_masterKey m) = Ok c"
    using assms(3) by (auto simp: seal_def try_res_Ok)
  obtain sess where s: "session m = Some sess" "store m"
    and run: "and_then (Put ?B (o_db w) (sn_UserID sess) ?i c) (\<lambda>_ d1.
        case PutVersion ?B d1 (sn_UserID sess) ?i (ce_nano env 1) of (r, d2) \<Rightarrow> (drop_err () r, d2)) = (Ok (), o_db w')"
    using assms(3) c by (auto simp: seal_def Let_def dest!: with_store_cases)
  obtain d1 where put: "Put ?B (o_db w) (sn_UserID sess) ?i c = (Ok (), d1)"
    and rest: "(case PutVersion ?B d1 (sn_UserID sess) ?i (ce_nano env 1) of (r, d2) \<Rightarrow> (drop_err () r, d2)) = (Ok (), o_db w')"
    using run by (auto simp: and_then_Ok)
  obtain q where ver: "PutVersion ?B d1 (sn_UserID sess) ?i (ce_nano env 1) = (q, o_db w')"
    using rest by (auto split: prod.splits)
  note p = bolt.Put_step [OF assms(1,2) put]
  note v = bolt.PutVersion_step [OF assms(1) conjunct1 [OF p] ver]
  show ?thesis
    by (rule that [OF c s, of ?i]) (use p v in auto)
qed

text \<open>
  C35. What is typed into a form is what is shown: when the command that saves a form ends
  without an error, opening the entry under its new id delivers bytes from which the view draws
  exactly the lines of the entry that was typed in, file contents included.\<close>

theorem saved_entry_opens:
  assumes "bolt_reliable (ce_bolt env)" and "usable (ce_bolt env) (o_db w)"
    and "\<And>nonce. ce_rnd env 0 = Inr nonce \<Longrightarrow> length nonce = NonceSize"
    and "addForm m = Some form" and "form_entry L (addingType m) form (o_files w) = Some e" and "entry_utf8 e"
    and "saveEntryCmd L env m w = (Ok (CmdMsg c), w')"
  shows "\<exists>i plain. viewEntryCmd env i m w' = (Ok (BytesMsg plain), w') \<and>
    viewEntryView L rn (m\<lparr>viewingData := plain\<rparr>) =
      Ok (Join nl (view_lines rn e) @ nl @ st_info L (nl @ Join bullet (mapToActions (view_actions e))))"
proof -
  let ?B = "ce_bolt env" and ?plain = "marshal_json (JObj (entry_members e))"
  have b: "bolt ?B" using assms(1) by (simp add: bolt_reliable_def)
  have ok: "store_ok ?B (o_db w)" using assms(2) by (simp add: usable_def)
  have "save_fields L env m form w = (Ok (), w')"
    using assms(4,7) by (auto simp: saveEntryCmd_def caught_Ok and_then_Ok)
  from save_fields_seal [OF this assms(5)] obtain g name where "seal env m g name ?plain w = (Ok (), w')" by blast
  from seal_stores [OF b ok this] obtain c sess i where
    c: "Encrypt (ce_rnd env 0) ?plain (m_masterKey m) = Ok c" "session m = Some sess" "store m"
    "store_ok ?B (o_db w')" "is_open (o_db w') = is_open (o_db w)"
    "entry_cell ?B (o_db w') (key (sn_UserID sess) i) = Some c" by blast
  have "db_view_err ?B (o_db w') = None"
    using bolt_reliable.view_total [OF assms(1)] c(5) assms(2) by (simp add: usable_def)
  then have get: "Get ?B (o_db w') (sn_UserID sess) i = Ok c" using bolt.Get_cases [OF b c(4)] c(6) by simp
  obtain nonce where "ce_rnd env 0 = Inr nonce" using c(1) by (auto simp: Encrypt_def split: res.splits sum.splits)
  then have dec: "Decrypt c (m_masterKey m) = Ok ?plain"
    using Decrypt_Encrypt [of nonce ?plain "m_masterKey m" c] c(1) assms(3) by simp
  have un: "Unmarshal ?plain = Ok e" by (rule Unmarshal_members [OF assms(6) form_entry_type [OF assms(5)]])
  have ne: "?plain \<noteq> []"
    by (simp add: marshal_json_def bytes_of_Cons)
  have "viewEntryCmd env i m w' = (Ok (BytesMsg ?plain), w')"
    using c(2,3) get dec by (simp add: viewEntryCmd_def with_store_def)
  moreover have "viewEntryView L rn (m\<lparr>viewingData := ?plain\<rparr>) =
      Ok (Join nl (view_lines rn e) @ nl @ st_info L (nl @ Join bullet (mapToActions (view_actions e))))"
    using un ne by (simp add: viewEntryView_def Render_def)
  ultimately show ?thesis by blast
qed

section \<open>Logging in\<close>

text \<open>The world of the command line as the interface sees it.\<close>

definition out_of :: "('b, 's) cli \<Rightarrow> ('b, 's) outside" where
  "out_of s = \<lparr>o_files = cwd s, o_db = dbfile s, o_net = net s\<rparr>"

lemma out_of_update [simp]:
  "out_of (s\<lparr>net := n\<rparr>) = (out_of s)\<lparr>o_net := n\<rparr>" "out_of (s\<lparr>cwd := fs\<rparr>) = (out_of s)\<lparr>o_files := fs\<rparr>"
  "out_of (s\<lparr>dbfile := d\<rparr>) = (out_of s)\<lparr>o_db := d\<rparr>" "out_of (s\<lparr>userID := u\<rparr>) = out_of s"
  "out_of (s\<lparr>localStore := b\<rparr>) = out_of s"
  "o_net (out_of s) = net s" "o_files (out_of s) = cwd s" "o_db (out_of s) = dbfile s"
  by (simp_all add: out_of_def)

text \<open>The two logins end alike.\<close>

definition ends_like ::
  "string \<Rightarrow> ('i, 'c, 'x) msg res \<times> ('b, 's) outside \<Rightarrow> string res \<times> ('b, 's) cli \<Rightarrow> bool" where
  "ends_like login p q \<longleftrightarrow> snd p = out_of (snd q) \<and>
     (case fst q of
        Ok _ \<Rightarrow> \<exists>sess. fst p = Ok (AuthSuccessMsg sess (sn_MasterKey sess) True) \<and> sn_UserID sess = login
      | Err _ \<Rightarrow> \<exists>e. fst p = Err e
      | Panic \<Rightarrow> fst p = Panic
      | Hang \<Rightarrow> fst p = Hang)"

lemma ends_like_try:
  "w = out_of s \<Longrightarrow> (\<And>x. r = Ok x \<Longrightarrow> ends_like u (k x) (k' x)) \<Longrightarrow>
     ends_like u (try_res r g w k) (try_res r h s k')"
  by (cases r) (auto simp: ends_like_def)

lemma auth_login_like:
  assumes "ce_auth env = Inr client"
  shows "ends_like (am_login a) (auth_login env (ce_rnd env 0) client a (out_of s) :: ('i, 'c, 'x) msg res \<times> _)
    (loginCmd env (am_login a) (bytes_of (am_password a)) s)"
proof -
  obtain r n where n: "cli_Login client (am_login a) (net s) = (r, n)" by fastforce
  obtain st d where st: "NewStore (ce_bolt env) (ce_open env (dbfile s)) = (st, d)" by fastforce
  obtain db where db: "(case d of None \<Rightarrow> dbfile s | Some d' \<Rightarrow> d') = db" by blast
  have finish: "ends_like (am_login a)
      (case Save (ce_rnd env 0) (ce_write env) k (am_login a) k (AccessToken x) (RefreshToken x) (cwd s) of (q, fs) \<Rightarrow>
         try_res q id ((out_of s)\<lparr>o_net := n, o_db := db, o_files := fs\<rparr>) (\<lambda>_.
         case FullSync (ce_bolt env) (ce_sync env) (ce_clk env) (am_login a) (AccessToken x) (db, n) of
           (y, d2, n2) \<Rightarrow>
         and_then (drop_err () y, (out_of s)\<lparr>o_files := fs, o_db := d2, o_net := n2\<rparr>) (\<lambda>_ w2.
           (Ok (AuthSuccessMsg \<lparr>sn_UserID = am_login a, sn_MasterKey = k, sn_AccessToken = AccessToken x,
              sn_RefreshToken = RefreshToken x\<rparr> k True :: ('i, 'c, 'x) msg), w2))))
      (case Save (ce_rnd env 0) (ce_write env) k (userID s1) k (AccessToken x) (RefreshToken x) (cwd s1) of (q, fs) \<Rightarrow>
         try_res q (Wrapf ''save session'') (s1\<lparr>cwd := fs\<rparr>) (\<lambda>_.
         and_then (case sync_step env (userID s1) (AccessToken x) (s1\<lparr>cwd := fs\<rparr>) of (q, s2) \<Rightarrow> (drop_err () q, s2))
         (\<lambda>_ s2. (Ok ''Logged in successfully. Session saved.'', s2))))"
    if s1: "s1 = s\<lparr>net := n, userID := am_login a, localStore := b, dbfile := db\<rparr>" for k x s1 b
  proof -
    obtain q fs where q: "Save (ce_rnd env 0) (ce_write env) k (am_login a) k (AccessToken x) (RefreshToken x) (cwd s) = (q, fs)"
      by fastforce
    obtain y d2 n2 where y: "FullSync (ce_bolt env) (ce_sync env) (ce_clk env) (am_login a) (AccessToken x) (db, n) = (y, d2, n2)"
      by (metis prod_cases3)
    show ?thesis
      by (cases q; cases y) (simp_all add: s1 q y sync_step_def ends_like_def out_of_def)
  qed
  show ?thesis
    unfolding auth_login_def loginCmd_def Let_def assms res_of.simps try_res.simps
    apply (simp only: out_of_update n prod.case)
    apply (rule ends_like_try, simp)+
    subgoal for x regKey secret k
      using finish [of _ "is_ok st" k x]
      by (cases st) (simp_all add: open_store_def st db ends_like_def out_of_def cong: option.case_cong)
    done
qed

text \<open>
  C36. Logging in from the interface is logging in from the command line: it leaves the same
  files, the same store and the same server, saves the same session file, and delivers a
  session exactly when the command succeeds.\<close>

theorem same_login:
  fixes a :: "'i authModel"
  assumes "am_action a \<noteq> ''register''"
  shows "\<exists>r :: ('i, 'c, 'x) msg res. handleAuth env a (out_of s) =
      (r, out_of (snd (loginCmd env (am_login a) (bytes_of (am_password a)) s))) \<and>
    (case fst (loginCmd env (am_login a) (bytes_of (am_password a)) s) of
       Ok _ \<Rightarrow> \<exists>sess. r = Ok (AuthSuccessMsg sess (sn_MasterKey sess) True) \<and> sn_UserID sess = am_login a
     | Err _ \<Rightarrow> \<exists>e. r = Ok (ErrMsg e)
     | Panic \<Rightarrow> r = Panic
     | Hang \<Rightarrow> r = Hang)"
proof (cases "ce_auth env")
  case (Inl e)
  then show ?thesis by (simp add: handleAuth_def loginCmd_def)
next
  case (Inr client)
  obtain p :: "('i, 'c, 'x) msg res" and w where p: "auth_login env (ce_rnd env 0) client a (out_of s) = (p, w)" by fastforce
  have h: "handleAuth env a (out_of s) = caught (p, w)" using assms p by (simp add: handleAuth_def Inr)
  have "ends_like (am_login a) (p, w) (loginCmd env (am_login a) (bytes_of (am_password a)) s)"
    unfolding p [symmetric] by (rule auth_login_like [OF Inr])
  then show ?thesis
    unfolding h ends_like_def
    by (cases "fst (loginCmd env (am_login a) (bytes_of (am_password a)) s)") auto
qed

section \<open>Witnesses\<close>

text \<open>An entry of three fields \<open>x\<close>, saved in an empty store.\<close>

definition ref_x :: entry where
  "ref_x = Text (zero_text\<lparr>tx_Type := TypeText, tx_Title := ''x'', tx_Content := ''x'', tx_Meta := ''x''\<rparr>)"

lemma ref_x_utf8: "entry_utf8 ref_x"
proof -
  have "utf8_valid ''x''" "utf8_valid ''text''" by (rule utf8_lit, simp add: cc_def)+
  then show ?thesis by (simp add: ref_x_def zero_text_def type_defs)
qed

lemma ref_x_read: "Unmarshal (marshal_json (JObj (entry_members ref_x))) = Ok ref_x"
  by (rule Unmarshal_members [OF ref_x_utf8]) (simp add: ref_x_def zero_text_def)

lemma ref_x_sealed:
  obtains c d1 d2 where "Encrypt (Inr (replicate 12 0)) (marshal_json (JObj (entry_members ref_x))) ref_key = Ok c"
    "Put ref_bolt (ref_local []) ''l'' ''text-7'' c = (Ok (), d1)" "PutVersion ref_bolt d1 ''l'' ''text-7'' 7 = (Ok (), d2)"
    "usable ref_bolt d2" "entry_cell ref_bolt d2 (key ''l'' ''text-7'') = Some c"
    "version_cell ref_bolt d2 (key ''l'' ''text-7'') = Some 7"
proof -
  let ?plain = "marshal_json (JObj (entry_members ref_x))"
  have "Marshal ref_x = Ok ?plain" by (simp add: Marshal_def)
  then have plain_bound: "length ?plain \<le> 10000"
    using Marshal_size [of ref_x ?plain] by (simp add: ref_x_def zero_text_def member_size_def type_defs)
  obtain c where c: "Encrypt (Inr (replicate 12 0)) ?plain ref_key = Ok c" "length c = length ?plain + 28"
    by (rule encrypts [OF plain_bound ref_key_ok])
  have fits: "put_ok (key ''l'' ''text-7'') c" using c(2) plain_bound by (simp add: put_ok_def length_key)
  obtain d1 where d1: "Put ref_bolt (ref_local []) ''l'' ''text-7'' c = (Ok (), d1)" "usable ref_bolt d1"
    "entry_cell ref_bolt d1 = (entry_cell ref_bolt (ref_local []))(key ''l'' ''text-7'' \<mapsto> c)"
    by (rule bolt_reliable.Put_usable [OF ref_bolt_axioms(2) ref_local_usable fits])
  obtain d2 where d2: "PutVersion ref_bolt d1 ''l'' ''text-7'' 7 = (Ok (), d2)" "usable ref_bolt d2"
    "version_cell ref_bolt d2 = (version_cell ref_bolt d1)(key ''l'' ''text-7'' \<mapsto> 7)"
    "entry_cell ref_bolt d2 = entry_cell ref_bolt d1"
    by (rule bolt_reliable.PutVersion_usable [OF ref_bolt_axioms(2) d1(2) fits])
  show ?thesis by (rule that [OF c(1) d1(1) d2(1,2)]) (simp_all add: d1 d2)
qed

definition ref_saved :: "(string, item list, (string \<Rightarrow> string) \<times> bool, unit) model" where
  "ref_saved = ref_adding\<lparr>addForm := Some (\<lambda>_. ''x'', True), adding := False\<rparr>"

lemma ref_saved_sel [simp]:
  "store ref_saved" "m_masterKey ref_saved = ref_key" "addingType ref_saved = ''text''"
  "session ref_saved = Some \<lparr>sn_UserID = ''l'', sn_MasterKey = ref_key, sn_AccessToken = '''', sn_RefreshToken = ''''\<rparr>"
  "addForm ref_saved = Some (\<lambda>_. ''x'', True)"
  by (simp_all add: ref_saved_def ref_adding_def)

theorem list_shows_witness:
  "\<exists>d items. loadEntriesCmd (ref_cli_env offline) ref_saved ((ref_out (ref_world []))\<lparr>o_db := d\<rparr>) =
       (Ok (EntriesLoadedMsg items :: (string, unit, unit) msg), (ref_out (ref_world []))\<lparr>o_db := d\<rparr>) \<and>
     entry_item ''text-7'' ref_x \<in> set items"
proof -
  obtain c d1 d2 where d: "Encrypt (Inr (replicate 12 0)) (marshal_json (JObj (entry_members ref_x))) ref_key = Ok c"
    "usable ref_bolt d2" "entry_cell ref_bolt d2 (key ''l'' ''text-7'') = Some c"
    "version_cell ref_bolt d2 (key ''l'' ''text-7'') = Some 7"
    by (rule ref_x_sealed) blast
  let ?w = "(ref_out (ref_world []))\<lparr>o_db := d2\<rparr>" and ?env = "ref_cli_env offline"
  have dec: "Decrypt c ref_key = Ok (marshal_json (JObj (entry_members ref_x)))"
    by (rule Decrypt_Encrypt [OF d(1)]) (simp add: NonceSize_def)
  have ok: "store_ok ref_bolt d2" "db_view_err ref_bolt d2 = None"
    using d(2) bolt_reliable.view_total [OF ref_bolt_axioms(2)] by (auto simp: usable_def)
  obtain items where i: "loadEntriesCmd ?env ref_saved ?w = (Ok (EntriesLoadedMsg items :: (string, unit, unit) msg), ?w)"
    "set items = {entry_item i e | i e. \<exists>c plain. entry_cell ref_bolt d2 (key ''l'' i) = Some c \<and>
       Decrypt c ref_key = Ok plain \<and> Unmarshal plain = Ok e \<and> version_cell ref_bolt d2 (key ''l'' i) \<noteq> Some (- 1)}"
    using list_shows [of ?env ?w ref_saved] ok by (auto simp: ref_bolt_axioms)
  have "(7 :: int64) \<noteq> - 1" by simp
  then have "entry_item ''text-7'' ref_x \<in> set items" unfolding i(2) using d(3,4) dec ref_x_read by fastforce
  then show ?thesis using i(1) by blast
qed

theorem saved_entry_opens_witness:
  "\<exists>w' i plain. saveEntryCmd ref_lib (ref_cli_env offline) ref_saved (ref_out (ref_world [])) =
       (Ok (CmdMsg (Batch [SyncAfterSave])) :: (string, unit, unit) msg res, w') \<and>
     viewEntryCmd (ref_cli_env offline) i ref_saved w' = (Ok (BytesMsg plain) :: (string, unit, unit) msg res, w') \<and>
     viewEntryView ref_lib ref_rn (ref_saved\<lparr>viewingData := plain\<rparr>) =
       Ok (''Title: x'' @ nl @ ''Content: x'' @ nl @ ''Meta: x'' @ nl @ nl @ ''c: Copy content'')"
proof -
  let ?w = "ref_out (ref_world [])" and ?env = "ref_cli_env offline"
  obtain c d1 d2 where d: "Encrypt (Inr (replicate 12 0)) (marshal_json (JObj (entry_members ref_x))) ref_key = Ok c"
    "Put ref_bolt (ref_local []) ''l'' ''text-7'' c = (Ok (), d1)" "PutVersion ref_bolt d1 ''l'' ''text-7'' 7 = (Ok (), d2)"
    by (rule ref_x_sealed) blast
  have run: "saveEntryCmd ref_lib ?env ref_saved ?w =
      (Ok (CmdMsg (Batch [SyncAfterSave])) :: (string, unit, unit) msg res, ?w\<lparr>o_db := d2\<rparr>)"
    using d by (simp add: saveEntryCmd_def save_fields_def seal_def with_store_def Marshal_def ref_lib_def ref_x_def
        ref_out_def dec_7 Let_def)
  have fe: "form_entry ref_lib (addingType ref_saved) (\<lambda>_. ''x'', True) (o_files ?w) = Some ref_x"
    by (simp add: form_entry_def ref_lib_def ref_x_def Let_def)
  obtain i plain where "viewEntryCmd ?env i ref_saved (?w\<lparr>o_db := d2\<rparr>) = (Ok (BytesMsg plain) :: (string, unit, unit) msg res, ?w\<lparr>o_db := d2\<rparr>)"
    "viewEntryView ref_lib ref_rn (ref_saved\<lparr>viewingData := plain\<rparr>) =
      Ok (Join nl (view_lines ref_rn ref_x) @ nl @ st_info ref_lib (nl @ Join bullet (mapToActions (view_actions ref_x))))"
    using saved_entry_opens [OF _ _ _ _ fe ref_x_utf8 run, of ref_rn]
    by (auto simp: ref_bolt_axioms ref_local_usable ref_out_def NonceSize_def)
  then show ?thesis using run
    by (auto simp: ref_x_def zero_text_def meta_line_def ref_lib_def mapToActions_def)
qed

text \<open>The login of the reference account, from the interface.\<close>

definition ref_auth_model :: "string authModel" where
  "ref_auth_model = (newAuthModel ref_lib ''s'')
     \<lparr>am_step := stepAuthenticating, am_login := ''l'', am_password := ''password'', am_loginInput := ''l'',
      am_passwordInput := ''password''\<rparr>"

lemma ref_auth_model_sel [simp]:
  "am_login ref_auth_model = ''l''" "bytes_of (am_password ref_auth_model) = ref_password"
  "am_action ref_auth_model = ''login''"
  by (simp_all add: ref_auth_model_def newAuthModel_def Let_def ref_password_def)

theorem same_login_witness:
  "\<exists>sec sess w. handleAuth (ref_cli_env (Inr ref_auth)) ref_auth_model (out_of (ref_cli (account_world sec))) =
     (Ok (AuthSuccessMsg sess (sn_MasterKey sess) True) :: (string, unit, unit) msg res, w) \<and> sn_UserID sess = ''l''"
proof -
  obtain sec t where run: "loginCmd (ref_cli_env (Inr ref_auth)) ''l'' ref_password (ref_cli (account_world sec)) =
       (Ok ''Logged in successfully. Session saved.'', t)" by (rule ref_loginCmd)
  have "am_action ref_auth_model \<noteq> ''register''" by simp
  from same_login [OF this, of "ref_cli_env (Inr ref_auth)" "ref_cli (account_world sec)"] run
  obtain sess :: Session where "handleAuth (ref_cli_env (Inr ref_auth)) ref_auth_model (out_of (ref_cli (account_world sec))) =
     (Ok (AuthSuccessMsg sess (sn_MasterKey sess) True) :: (string, unit, unit) msg res, out_of t)" "sn_UserID sess = ''l''"
    by auto
  then show ?thesis by blast
qed

text \<open>A whole login, key by key, from the start of the program.\<close>

lemma press_text_auth: "screen m = screenAuth \<Longrightarrow> press_text L env k (m, w) = (Ok Fall, m, w)"
  by (simp add: press_text_def choose_form_def)

lemma typed_auth:
  assumes "screen (t_model t) = screenAuth" and "auth_step ref_lib (typed k) (authScreen (t_model t)) = (a, c)"
  shows "(tui_step ref_lib (\<lambda>env. env = ref_cli_env (Inr ref_auth)))\<^sup>*\<^sup>* t
    (t\<lparr>t_model := (t_model t)\<lparr>authScreen := a\<rparr>, t_cmds := (case c of None \<Rightarrow> t_cmds t | Some c \<Rightarrow> c # t_cmds t)\<rparr>)"
proof -
  have "Update ref_lib (ref_cli_env (Inr ref_auth)) (typed k) (t_model t, t_out t) =
      (Ok c, (t_model t)\<lparr>authScreen := a\<rparr>, t_out t)"
    using assms by (simp add: Update_def typed_def press_def press_text_auth delegate_def auth_Update_def)
  then show ?thesis
    using pressed [of "typed k" "\<lambda>env. env = ref_cli_env (Inr ref_auth)" "ref_cli_env (Inr ref_auth)" ref_lib t c]
    by (simp add: typed_def)
qed

lemma ref_login_reached:
  fixes w :: "(alist, world) outside"
  defines "t \<equiv> start ref_lib ''s'' w"
  shows "(tui_step ref_lib (\<lambda>env. env = ref_cli_env (Inr ref_auth)))\<^sup>*\<^sup>* t
    (t\<lparr>t_model := (t_model t)\<lparr>authScreen := ref_auth_model\<rparr>, t_cmds := HandleAuth ref_auth_model # t_cmds t\<rparr>)"
proof -
  let ?R = "tui_step ref_lib (\<lambda>env. env = ref_cli_env (Inr ref_auth))"
  let ?at = "\<lambda>a. t\<lparr>t_model := (t_model t)\<lparr>authScreen := a\<rparr>\<rparr>"
  let ?a0 = "newAuthModel ref_lib ''s''"
  let ?a1 = "?a0\<lparr>am_step := stepEnterLogin\<rparr>" let ?a2 = "?a1\<lparr>am_loginInput := ''l''\<rparr>"
  let ?a3 = "?a2\<lparr>am_step := stepEnterPassword, am_login := ''l''\<rparr>"
  let ?a4 = "?a3\<lparr>am_passwordInput := ''password''\<rparr>"
  have t: "t = ?at ?a0" "screen (t_model t) = screenAuth" by (simp_all add: t_def start_def NewModel_def)
  have go: "?R\<^sup>*\<^sup>* (?at a) (?at b)" if "auth_step ref_lib (typed k) a = (b, None)" for a b k
    using typed_auth [of "?at a" k b None] that t(2) by simp
  have s1: "?R\<^sup>*\<^sup>* (?at ?a0) (?at ?a1)"
    by (rule go [of "''enter''"]) (simp_all add: auth_step_def updateChooseAction_def typed_def newAuthModel_def ref_lib_def)
  have s2: "?R\<^sup>*\<^sup>* (?at ?a1) (?at ?a2)"
    by (rule go [of "''l''"])
      (simp_all add: auth_step_def updateEnterLogin_def is_enter_def typed_def newAuthModel_def ref_lib_def)
  have s3: "?R\<^sup>*\<^sup>* (?at ?a2) (?at ?a3)"
    by (rule go [of "''enter''"])
      (simp_all add: auth_step_def updateEnterLogin_def is_enter_def typed_def newAuthModel_def ref_lib_def blank_def Let_def)
  have s4: "?R\<^sup>*\<^sup>* (?at ?a3) (?at ?a4)"
    by (rule go [of "''password''"])
      (simp_all add: auth_step_def updateEnterPassword_def is_enter_def typed_def newAuthModel_def ref_lib_def)
  have s5: "?R\<^sup>*\<^sup>* (?at ?a4) ((?at ref_auth_model)\<lparr>t_cmds := HandleAuth ref_auth_model # t_cmds t\<rparr>)"
  proof -
    have "auth_step ref_lib (typed ''enter'') ?a4 = (ref_auth_model, Some (HandleAuth ref_auth_model))"
      by (simp add: auth_step_def updateEnterPassword_def is_enter_def typed_def newAuthModel_def ref_lib_def
          ref_auth_model_def Let_def)
    then show ?thesis
      using typed_auth [of "?at ?a4" "''enter''" ref_auth_model "Some (HandleAuth ref_auth_model)"] t(2) by simp
  qed
  note tr = rtranclp_trans [of ?R]
  show ?thesis using tr [OF s1 tr [OF s2 tr [OF s3 tr [OF s4 s5]]]] t(1) by simp
qed

theorem session_behind_screens_witness:
  "\<exists>sec t. (tui_step ref_lib (\<lambda>env. env = ref_cli_env (Inr ref_auth)))\<^sup>*\<^sup>*
       (start ref_lib ''s'' (out_of (ref_cli (account_world sec)))) t \<and>
     screen (t_model t) = screenList \<and> LoadEntries \<in> set (t_cmds t) \<and> store (t_model t)"
proof -
  let ?E = "\<lambda>env. env = ref_cli_env (Inr ref_auth)"
  obtain sec s where run: "loginCmd (ref_cli_env (Inr ref_auth)) ''l'' ref_password (ref_cli (account_world sec)) =
       (Ok ''Logged in successfully. Session saved.'', s)" by (rule ref_loginCmd)
  have "am_action ref_auth_model \<noteq> ''register''" by simp
  from same_login [OF this, of "ref_cli_env (Inr ref_auth)" "ref_cli (account_world sec)"] run
  obtain sess :: Session where h: "handleAuth (ref_cli_env (Inr ref_auth)) ref_auth_model (out_of (ref_cli (account_world sec))) =
     (Ok (AuthSuccessMsg sess (sn_MasterKey sess) True) :: (string, unit, unit) msg res, out_of s)"
    by auto
  let ?t0 = "start ref_lib ''s'' (out_of (ref_cli (account_world sec)))"
  let ?t1 = "?t0\<lparr>t_model := (t_model ?t0)\<lparr>authScreen := ref_auth_model\<rparr>, t_cmds := HandleAuth ref_auth_model # t_cmds ?t0\<rparr>"
  let ?msg = "AuthSuccessMsg sess (sn_MasterKey sess) True :: (string, unit, unit) msg"
  let ?t2 = "?t1\<lparr>t_cmds := remove1 (HandleAuth ref_auth_model) (t_cmds ?t1), t_msgs := ?msg # t_msgs ?t1, t_out := out_of s\<rparr>"
  let ?m = "(t_model ?t2)\<lparr>session := Some sess, m_masterKey := sn_MasterKey sess, store := True, screen := screenList\<rparr>"
  let ?t3 = "?t2\<lparr>t_model := ?m, t_out := out_of s, t_cmds := (case Some LoadEntries of None \<Rightarrow> t_cmds ?t2 | Some c \<Rightarrow> c # t_cmds ?t2),
      t_msgs := remove1 ?msg (t_msgs ?t2)\<rparr>"
  have 1: "(tui_step ref_lib ?E)\<^sup>*\<^sup>* ?t0 ?t1" by (rule ref_login_reached)
  have 2: "tui_step ref_lib ?E ?t1 ?t2"
    by (rule Runs [where env = "ref_cli_env (Inr ref_auth)"]) (use h in \<open>simp_all add: start_def\<close>)
  have 3: "tui_step ref_lib ?E ?t2 ?t3"
    by (rule Delivers [where env = "ref_cli_env (Inr ref_auth)"]) simp_all
  have r: "(tui_step ref_lib ?E)\<^sup>*\<^sup>* ?t0 ?t3"
    using rtranclp.rtrancl_into_rtrancl [of "tui_step ref_lib ?E", OF rtranclp.rtrancl_into_rtrancl [of "tui_step ref_lib ?E", OF 1 2] 3] .
  have "store (t_model ?t3)" using session_behind_screens [OF r] by simp
  with r show ?thesis by (intro exI [of _ sec] exI [of _ ?t3]) simp
qed

end
