(* ===== verification/Repo.thy ===== *)
theory Repo
  imports SyncServer
begin

text \<open>
  The repository of entries, \<open>internal/repository/postgres/entries.go\<close>: a second access to the
  table \<open>entries\<close>, beside the statements of the synchronisation service.  \<open>fl n\<close> is the outside
  failure of the \<open>n\<close>-th database call, as in \<open>SyncServer\<close>.
\<close>

section \<open>Operations\<close>

record repo_entry =
  rp_EntryID :: string
  rp_EncryptedData :: bytes
  rp_Version :: int64

text \<open>
  \<open>SELECT ... WHERE user_id = $1 AND version > $2\<close>, without an order: the rows come as the table
  has them.
\<close>

definition sql_select_newer :: "error option \<Rightarrow> pg \<Rightarrow> string \<Rightarrow> int64 \<Rightarrow> entry_row list res" where
  "sql_select_newer fl db u since =
     (case fl of
        Some e \<Rightarrow> Err e
      | None \<Rightarrow> Ok (filter (\<lambda>r. e_user r = u \<and> sint (e_version r) > sint since) (entries_tab db)))"

text \<open>
  \<open>INSERT ... ON CONFLICT (user_id, entry_id) DO UPDATE SET encrypted_data, version, updated_at\<close>:
  no condition on the version, and \<open>encrypted_meta\<close> stays what it was.
\<close>

fun put_rows :: "entry_row \<Rightarrow> entry_row list \<Rightarrow> entry_row list" where
  "put_rows r [] = [r]"
| "put_rows r (x # xs) =
     (if row_key x = row_key r
      then x\<lparr>e_data := e_data r, e_version := e_version r, e_updated := e_updated r\<rparr> # xs
      else x # put_rows r xs)"

definition sql_put_entry :: "error option \<Rightarrow> pg \<Rightarrow> entry_row \<Rightarrow> pg res" where
  "sql_put_entry fl db r =
     (case fl of
        Some e \<Rightarrow> Err e
      | None \<Rightarrow> (case insert_checks db r of
                   Some e \<Rightarrow> Err e
                 | None \<Rightarrow> Ok (db\<lparr>entries_tab := put_rows r (entries_tab db)\<rparr>)))"

text \<open>\<open>UPDATE entries SET version = -1, updated_at = now() WHERE user_id = $1 AND entry_id = $2\<close>\<close>

definition mark_row :: "int \<Rightarrow> string \<Rightarrow> string \<Rightarrow> entry_row \<Rightarrow> entry_row" where
  "mark_row now u i r = (if row_key r = (u, i) then r\<lparr>e_version := - 1, e_updated := now\<rparr> else r)"

definition sql_mark_entry :: "error option \<Rightarrow> pg \<Rightarrow> int \<Rightarrow> string \<Rightarrow> string \<Rightarrow> pg res" where
  "sql_mark_entry fl db now u i =
     (case fl of
        Some e \<Rightarrow> Err e
      | None \<Rightarrow> Ok (db\<lparr>entries_tab := map (mark_row now u i) (entries_tab db)\<rparr>))"

definition repo_row :: "string \<Rightarrow> repo_entry \<Rightarrow> int \<Rightarrow> entry_row" where
  "repo_row userID e now =
     \<lparr>e_user = userID, e_entry = rp_EntryID e, e_data = rp_EncryptedData e, e_meta = None,
      e_version = rp_Version e, e_updated = now\<rparr>"

definition repo_Pull :: "(nat \<Rightarrow> error option) \<Rightarrow> string \<Rightarrow> int64 \<Rightarrow> pg \<Rightarrow> repo_entry list res" where
  "repo_Pull fl userID since db =
     bind_res (wrap_err ''query pull'' (sql_select_newer (fl 0) db userID since)) (\<lambda>rows.
     case (if rows = [] then None else fl 1) of
       Some e \<Rightarrow> Err (Wrapf ''scan entry'' e)
     | None \<Rightarrow>
         (case fl 2 of
            Some e \<Rightarrow> Err (Wrapf ''rows iteration'' e)
          | None \<Rightarrow> Ok (map (\<lambda>r. \<lparr>rp_EntryID = e_entry r, rp_EncryptedData = e_data r, rp_Version = e_version r\<rparr>) rows)))"

definition repo_Push :: "(nat \<Rightarrow> error option) \<Rightarrow> int \<Rightarrow> string \<Rightarrow> repo_entry \<Rightarrow> pg \<Rightarrow> unit res \<times> pg" where
  "repo_Push fl now userID e db =
     try_res (sql_put_entry (fl 0) db (repo_row userID e now)) (Wrapf ''upsert entry'') db (\<lambda>db'. (Ok (), db'))"

definition repo_Delete :: "(nat \<Rightarrow> error option) \<Rightarrow> int \<Rightarrow> string \<Rightarrow> string \<Rightarrow> pg \<Rightarrow> unit res \<times> pg" where
  "repo_Delete fl now userID entryID db =
     try_res (sql_mark_entry (fl 0) db now userID entryID) (Wrapf ''mark deleted'') db (\<lambda>db'. (Ok (), db'))"

section \<open>What the statements do to the table\<close>

lemma put_keys: "set (map row_key (put_rows r rows)) = insert (row_key r) (set (map row_key rows))"
  by (induction rows) (auto simp: row_key_def)

lemma put_distinct: "distinct (map row_key rows) \<Longrightarrow> distinct (map row_key (put_rows r rows))"
proof (induction rows)
  case (Cons x xs)
  then show ?case using put_keys [of r xs] by (auto simp: row_key_def image_iff)
qed simp

lemma put_users: "x \<in> set (put_rows r rows) \<Longrightarrow> e_user x = e_user r \<or> e_user x \<in> e_user ` set rows"
  by (induction rows) (auto split: if_splits)

lemma row_of_put:
  "row_of (put_rows r rows) u i =
     (if row_key r = (u, i)
      then Some (case row_of rows u i of
             None \<Rightarrow> r
           | Some x \<Rightarrow> x\<lparr>e_data := e_data r, e_version := e_version r, e_updated := e_updated r\<rparr>)
      else row_of rows u i)"
  by (induction rows) (auto simp: row_of_def row_key_def)

lemma mark_row_sel [simp]: "row_key (mark_row now u i r) = row_key r" "e_user (mark_row now u i r) = e_user r"
  by (simp_all add: mark_row_def row_key_def)

lemma row_of_mark:
  "row_of (map (mark_row now u i) rows) u' i' =
     (if (u', i') = (u, i) then map_option (\<lambda>r. r\<lparr>e_version := - 1, e_updated := now\<rparr>) (row_of rows u i)
      else row_of rows u' i')"
  by (induction rows) (auto simp: row_of_def row_key_def mark_row_def)

text \<open>Both operations keep the constraints of the tables.\<close>

lemma repo_Push_ok:
  assumes "repo_Push fl now u e db = (r, db')" and "pg_ok db"
  shows "pg_ok db'"
proof -
  have "pg_ok (db\<lparr>entries_tab := put_rows x (entries_tab db)\<rparr>)" if "insert_checks db x = None" for x
  proof -
    have "user_exists db (e_user x)" using that by (auto simp: insert_checks_def split: if_splits)
    then show ?thesis
      using assms(2) put_users [of _ x "entries_tab db"] by (fastforce simp: pg_ok_def put_distinct)
  qed
  then show ?thesis
    using assms by (auto simp: repo_Push_def sql_put_entry_def split: try_res_splits option.splits)
qed

lemma repo_Delete_ok: "repo_Delete fl now u i db = (r, db') \<Longrightarrow> pg_ok db \<Longrightarrow> pg_ok db'"
  by (auto simp: repo_Delete_def sql_mark_entry_def pg_ok_def comp_def split: try_res_splits option.splits)

section \<open>Properties\<close>

text \<open>
  C39. Pushed through the repository or through the service, an entry without metadata leaves the
  same table, as long as no row of the same or a higher version, and none with metadata, is
  under its key: the service's condition and its column are all that tells the two statements
  apart.\<close>

theorem push_agrees:
  assumes "\<And>x. row_of (entries_tab db) u (rp_EntryID e) = Some x \<Longrightarrow>
      sint (e_version x) < sint (rp_Version e) \<and> e_meta x = None"
  shows "snd (repo_Push fl now u e db) =
    snd (srv_Push fl (\<lambda>_. now) (Some u) [\<lparr>Id = rp_EntryID e, Type = '''', EncryptedData = rp_EncryptedData e,
       EncryptedMeta = [], Version = rp_Version e, UpdatedAt = 0\<rparr>] db)"
proof -
  let ?r = "repo_row u e now"
  have rows: "put_rows ?r rows = upsert_rows ?r rows"
    if "\<And>x. row_of rows u (rp_EntryID e) = Some x \<Longrightarrow> sint (e_version x) < sint (rp_Version e) \<and> e_meta x = None" for rows
    using that
  proof (induction rows)
    case (Cons x xs)
    show ?case
    proof (cases "row_key x = row_key ?r")
      case True
      then have "row_of (x # xs) u (rp_EntryID e) = Some x" by (simp add: row_of_def repo_row_def row_key_def)
      then have "sint (e_version x) < sint (rp_Version e)" "e_meta x = None" using Cons.prems by auto
      then show ?thesis using True by (cases x) (auto simp: newer_def repo_row_def row_key_def)
    next
      case False
      then have "row_of (x # xs) u (rp_EntryID e) = row_of xs u (rp_EntryID e)"
        by (auto simp: row_of_def repo_row_def row_key_def)
      then show ?thesis using False Cons by auto
    qed
  qed simp
  have "entry_to_row u \<lparr>Id = rp_EntryID e, Type = '''', EncryptedData = rp_EncryptedData e,
      EncryptedMeta = [], Version = rp_Version e, UpdatedAt = 0\<rparr> now = ?r"
    by (simp add: entry_to_row_def repo_row_def)
  then show ?thesis
    using rows [OF assms]
    by (auto simp: repo_Push_def srv_Push_def sql_put_entry_def sql_upsert_entry_def split: option.splits)
qed

text \<open>
  Without those conditions they differ: the repository lets an older version replace a newer
  one.
\<close>

lemma push_overwrites:
  assumes "insert_checks db (repo_row u e now) = None" and "fl 0 = None"
  shows "\<exists>x. row_of (entries_tab (snd (repo_Push fl now u e db))) u (rp_EntryID e) = Some x \<and>
    e_version x = rp_Version e \<and> e_data x = rp_EncryptedData e"
  using assms
  by (auto simp: repo_Push_def sql_put_entry_def row_of_put repo_row_def row_key_def split: option.splits)

text \<open>
  A deletion through the repository leaves the row, under a version that no pull from zero
  upwards asks for: other devices never hear of it.
\<close>

lemma deletion_not_pulled:
  assumes "repo_Delete fl now u i db = (Ok (), db')" and "- 1 \<le> sint since"
    and "repo_Pull fl' u since db' = Ok es"
  shows "i \<notin> rp_EntryID ` set es"
proof
  assume "i \<in> rp_EntryID ` set es"
  then obtain r where r: "r \<in> set (entries_tab db')" "e_user r = u" "e_entry r = i" "sint (e_version r) > sint since"
    using assms(3) by (auto simp: repo_Pull_def sql_select_newer_def split: option.splits if_splits)
  have "entries_tab db' = map (mark_row now u i) (entries_tab db)"
    using assms(1) by (auto simp: repo_Delete_def sql_mark_entry_def split: try_res_splits option.splits)
  then obtain x where x: "r = mark_row now u i x" using r(1) by auto
  then have "row_key x = (u, i)" using r(2,3) mark_row_sel(1) [of now u i x] by (simp add: row_key_def)
  then have "e_version r = - 1" by (simp add: x mark_row_def)
  then show False using r(4) assms(2) by simp
qed

theorem push_agrees_witness:
  "\<exists>db x. row_of (entries_tab db) ''u'' ''i'' = Some x \<and> e_version x = 1 \<and> user_exists db ''u'' \<and>
     snd (repo_Push (\<lambda>_. None) 0 ''u'' \<lparr>rp_EntryID = ''i'', rp_EncryptedData = [1], rp_Version = 2\<rparr> db) =
     snd (srv_Push (\<lambda>_. None) (\<lambda>_. 0) (Some ''u'') [\<lparr>Id = ''i'', Type = '''', EncryptedData = [1],
       EncryptedMeta = [], Version = 2, UpdatedAt = 0\<rparr>] db)"
proof -
  let ?x = "\<lparr>e_user = ''u'', e_entry = ''i'', e_data = [9], e_meta = None, e_version = 1, e_updated = 0\<rparr>"
  let ?db = "\<lparr>users_tab = [\<lparr>u_id = ''u'', u_login = ''l'', u_secret = [1], u_salt = [2]\<rparr>], tokens_tab = [], entries_tab = [?x]\<rparr>"
  let ?e = "\<lparr>rp_EntryID = ''i'', rp_EncryptedData = [1], rp_Version = 2\<rparr>"
  have x: "row_of (entries_tab ?db) ''u'' ''i'' = Some ?x" by (simp add: row_of_def row_key_def)
  have "snd (repo_Push (\<lambda>_. None) 0 ''u'' ?e ?db) =
      snd (srv_Push (\<lambda>_. None) (\<lambda>_. 0) (Some ''u'') [\<lparr>Id = rp_EntryID ?e, Type = '''', EncryptedData = rp_EncryptedData ?e,
        EncryptedMeta = [], Version = rp_Version ?e, UpdatedAt = 0\<rparr>] ?db)"
    by (rule push_agrees) (use x in auto)
  then show ?thesis using x by (intro exI [of _ ?db] exI [of _ ?x]) (simp add: user_exists_def)
qed

end
