(* ===== verification/Boot.thy ===== *)
theory Boot
  imports Server
begin

text \<open>
  The start of the server process: \<open>internal/config/config.go\<close>, the connection of
  \<open>internal/server/storage/storage.go\<close>, and the checks and the composition in
  \<open>cmd/server/main.go\<close>.  Parsing the environment, the connection pool, the files and the sockets
  are parameters.  Durations are nanoseconds.
\<close>

section \<open>Configuration and connection\<close>

record Config =
  ServerAddr :: string
  DatabaseDSN :: string
  JWTSecret :: string
  AccessTokenTTL :: int
  RefreshTokenTTL :: int
  TLSCertPath :: string
  TLSKeyPath :: string
  SyncPolicy :: string
  SyncRetryMax :: int
  SyncRetryBase :: int

text \<open>\<open>parsed\<close> is what \<open>env.Parse\<close> makes of the environment.\<close>

definition Load_config :: "error + Config \<Rightarrow> Config res" where
  "Load_config parsed = wrap_err ''parse env'' (res_of parsed)"

text \<open>
  \<open>pgxpool.New\<close> with the connection string, then \<open>Ping\<close>.  A pool stands for the database it is
  connected to.
\<close>

definition NewPostgresDB :: "(string \<Rightarrow> error + pg) \<Rightarrow> (pg \<Rightarrow> error option) \<Rightarrow> string \<Rightarrow> pg res" where
  "NewPostgresDB pool_New Ping connStr =
     bind_res (wrap_err ''unable to create connection pool'' (res_of (pool_New connStr))) (\<lambda>pool.
     case Ping pool of
       Some e \<Rightarrow> Err (Wrapf ''unable to ping database'' e)
     | None \<Rightarrow> Ok pool)"

section \<open>The start\<close>

record boot_env =
  be_parsed :: "error + Config"
  be_pool :: "string \<Rightarrow> error + pg"
  be_ping :: "pg \<Rightarrow> error option"
  be_stat :: "string \<Rightarrow> error option"
  be_tls :: "string \<Rightarrow> string \<Rightarrow> error option"
  be_listen :: "string \<Rightarrow> error option"

text \<open>\<open>if err != nil { slog.Error(msg, ...); os.Exit(1) }\<close>: the process ends with the logged message.\<close>

definition or_exit :: "string \<Rightarrow> error option \<Rightarrow> unit res" where
  "or_exit msg e = (case e of Some e \<Rightarrow> Err (Wrapf msg e) | None \<Rightarrow> Ok ())"

definition demand :: "string \<Rightarrow> bool \<Rightarrow> unit res" where
  "demand msg b = (if b then Ok () else Err (Errorf msg))"

text \<open>
  Everything up to the goroutine that serves: the token manager the handlers use, and the state
  they share.  The limiter allows five attempts in five minutes.
\<close>

definition boot :: "boot_env \<Rightarrow> (Manager \<times> server) res" where
  "boot b =
     bind_res (wrap_err ''Failed to load config'' (Load_config (be_parsed b))) (\<lambda>cfg.
     bind_res (wrap_err ''Failed to connect to database'' (NewPostgresDB (be_pool b) (be_ping b) (DatabaseDSN cfg))) (\<lambda>db.
     let jwtManager = NewManager (JWTSecret cfg) (AccessTokenTTL cfg) (RefreshTokenTTL cfg) in
     bind_res (NewRateLimiter 5 (300 * second)) (\<lambda>rateLimiter.
     bind_res (demand ''DATABASE_DSN is required'' (DatabaseDSN cfg \<noteq> '''')) (\<lambda>_.
     bind_res (demand ''JWT_SECRET is required'' (JWTSecret cfg \<noteq> '''')) (\<lambda>_.
     bind_res (demand ''JWT TTLs must be positive'' (\<not> (AccessTokenTTL cfg \<le> 0 \<or> RefreshTokenTTL cfg \<le> 0))) (\<lambda>_.
     bind_res (or_exit ''TLS certificate not found'' (be_stat b (TLSCertPath cfg))) (\<lambda>_.
     bind_res (or_exit ''TLS key not found'' (be_stat b (TLSKeyPath cfg))) (\<lambda>_.
     bind_res (or_exit ''Failed to load TLS credentials'' (be_tls b (TLSCertPath cfg) (TLSKeyPath cfg))) (\<lambda>_.
     bind_res (or_exit ''Failed to listen'' (be_listen b (ServerAddr cfg))) (\<lambda>_.
     Ok (jwtManager, \<lparr>limiter = rateLimiter, database = db\<rparr>)))))))))))"

section \<open>What a server that runs is\<close>

lemma or_exit_Ok [simp]: "or_exit msg e = Ok x \<longleftrightarrow> e = None"
  by (auto simp: or_exit_def split: option.splits)

lemma demand_Ok [simp]: "demand msg b = Ok x \<longleftrightarrow> b"
  by (auto simp: demand_def)

lemma NewPostgresDB_Ok: "NewPostgresDB new ping dsn = Ok db \<longleftrightarrow> new dsn = Inr db \<and> ping db = None"
  by (cases "new dsn") (auto simp: NewPostgresDB_def split: option.splits)

text \<open>
  The start ends: the process serves or exits with a message, and the limiter it starts has no
  attempts.  What it serves with was checked.
\<close>

theorem boot_checked:
  "returned (boot b) \<and>
   (case boot b of
      Ok (m, s) \<Rightarrow> secret m \<noteq> [] \<and> 0 < accessTTL m \<and> 0 < refreshTTL m \<and> attempts (limiter s) = Map.empty \<and>
        rl_max (limiter s) = 5 \<and> rl_window (limiter s) = 300 * second \<and>
        (pg_ok (database s) \<longrightarrow> server_ok s) \<and>
        (\<exists>cfg. be_parsed b = Inr cfg \<and> be_pool b (DatabaseDSN cfg) = Inr (database s) \<and>
           be_stat b (TLSCertPath cfg) = None \<and> be_stat b (TLSKeyPath cfg) = None)
    | _ \<Rightarrow> True)"
proof -
  have r: "returned (demand msg c)" "returned (or_exit msg e)" "returned (Load_config p)" for msg c e p
    by (auto simp: demand_def or_exit_def Load_config_def split: option.split)
  have p: "returned (NewPostgresDB n q d)" for n q d
    by (cases "n d") (auto simp: NewPostgresDB_def split: option.split)
  have l: "NewRateLimiter 5 (300 * second) = Ok \<lparr>attempts = Map.empty, rl_max = 5, rl_window = 300 * second, rl_stopped = False\<rparr>"
    by (simp add: NewRateLimiter_def second_def)
  have ret: "returned (boot b)"
    unfolding boot_def Let_def l bind_res.simps by (intro returned_bind_res) (simp_all add: r p)
  have "secret m \<noteq> [] \<and> 0 < accessTTL m \<and> 0 < refreshTTL m \<and> attempts (limiter s) = Map.empty \<and>
      rl_max (limiter s) = 5 \<and> rl_window (limiter s) = 300 * second \<and> (pg_ok (database s) \<longrightarrow> server_ok s) \<and>
      (\<exists>cfg. be_parsed b = Inr cfg \<and> be_pool b (DatabaseDSN cfg) = Inr (database s) \<and>
         be_stat b (TLSCertPath cfg) = None \<and> be_stat b (TLSKeyPath cfg) = None)" if "boot b = Ok (m, s)" for m s
    using that by (auto simp: boot_def Let_def l NewManager_def NewPostgresDB_Ok server_ok_def rl_ok_def Load_config_def)
  with ret show ?thesis by (auto split: res.split)
qed

text \<open>
  C38. On the server that the start composes, the limiter's five attempts bound the vault: a first
  synchronisation whose calls all come within five minutes and that succeeds leaves the device
  with at most four entries to push, so a vault of five or more never synchronises that way.\<close>

theorem five_entries_never_sync:
  assumes "boot b = Ok (m, s)" and "bolt_reliable B" and "jwt J verified" and "usable B d"
    and "rows_fit n u (entries_tab (database s))" and "u = claimed_user J (sent_token tok)"
    and "FullSync B (Inr (net_stub J m envs peer)) clk n tok (d, \<lparr>srv = s, calls = k\<rparr>) = (Ok (), d', w')"
    and "\<And>i. t0 \<le> re_rl (envs i) \<and> re_rl (envs i) \<le> t0 + 300 * second"
  shows "card {i. \<exists>x v. entry_cell B d' (key n i) = Some x \<and> version_cell B d' (key n i) = Some v \<and> v \<noteq> 0 \<and> v \<noteq> - 1} \<le> 4"
proof -
  have l: "attempts (limiter s) = Map.empty" "rl_max (limiter s) = 5" "rl_window (limiter s) = 300 * second"
    using boot_checked [of b] assms(1) by simp_all
  have "1 + int (card {i. \<exists>x v. entry_cell B d' (key n i) = Some x \<and> version_cell B d' (key n i) = Some v \<and> v \<noteq> 0 \<and> v \<noteq> - 1})
      \<le> max 1 (rl_max (limiter (srv \<lparr>srv = s, calls = k\<rparr>)))"
    by (rule FullSync_limited [OF assms(2-4) _ assms(6,7)]) (use assms(5,8) l in \<open>simp_all add: table_of_def\<close>)
  then show ?thesis using l(2) by simp
qed

section \<open>Witness\<close>

definition ref_config :: Config where
  "ref_config = \<lparr>ServerAddr = '':50051'', DatabaseDSN = ''postgres'', JWTSecret = ''s'', AccessTokenTTL = 900 * second,
     RefreshTokenTTL = 259200 * second, TLSCertPath = ''server.crt'', TLSKeyPath = ''server.key'',
     SyncPolicy = ''last-write-wins'', SyncRetryMax = 3, SyncRetryBase = 100000000\<rparr>"

definition ref_boot :: boot_env where
  "ref_boot = \<lparr>be_parsed = Inr ref_config, be_pool = (\<lambda>_. Inr (database (srv stale_world))), be_ping = (\<lambda>_. None),
     be_stat = (\<lambda>_. None), be_tls = (\<lambda>_ _. None), be_listen = (\<lambda>_. None)\<rparr>"

lemma ref_boots: "boot ref_boot = Ok (ref_manager, srv stale_world)"
  by (simp add: boot_def ref_boot_def ref_config_def Load_config_def NewPostgresDB_def NewRateLimiter_def demand_def
      or_exit_def Let_def ref_manager_def second_def stale_world_def ref_world_def ref_server_def)

theorem five_entries_never_sync_witness:
  "\<exists>s d' w'. boot ref_boot = Ok (ref_manager, s) \<and>
     FullSync ref_bolt (Inr ref_stub) (\<lambda>_. 0) ''l'' ref_access_token (stale_local, \<lparr>srv = s, calls = 0\<rparr>) = (Ok (), d', w') \<and>
     card {i. \<exists>x v. entry_cell ref_bolt d' (key ''l'' i) = Some x \<and>
       version_cell ref_bolt d' (key ''l'' i) = Some v \<and> v \<noteq> 0 \<and> v \<noteq> - 1} \<le> 4"
proof -
  have w: "stale_world = \<lparr>srv = srv stale_world, calls = 0\<rparr>" by (simp add: stale_world_def ref_world_def)
  obtain d' w' where run: "FullSync ref_bolt (Inr ref_stub) (\<lambda>_. 0) ''l'' ref_access_token (stale_local, stale_world) = (Ok (), d', w')"
    using stale_runs .
  have run': "FullSync ref_bolt (Inr ref_stub) (\<lambda>_. 0) ''l'' ref_access_token (stale_local, \<lparr>srv = srv stale_world, calls = 0\<rparr>) =
      (Ok (), d', w')" using run w by simp
  have "card {i. \<exists>x v. entry_cell ref_bolt d' (key ''l'' i) = Some x \<and>
       version_cell ref_bolt d' (key ''l'' i) = Some v \<and> v \<noteq> 0 \<and> v \<noteq> - 1} \<le> 4"
    by (rule five_entries_never_sync [OF ref_boots ref_bolt_axioms(2) ref_jwt.jwt_axioms _ _ ref_claimed run', of 0])
      (simp_all add: stale_local_def ref_local_usable ref_rpc_def second_def, simp add: stale_world_def ref_world_def ref_fits [unfolded table_of_def])
  then show ?thesis using ref_boots run' by blast
qed

end
