(* ===== verification/Process.thy ===== *)
theory Process
  imports Boot
begin

text \<open>
  The life of the server process, the rest of \<open>cmd/server/main.go\<close>: the goroutine that serves, the
  wait for a signal, and the shutdown that ends when the calls under way are done or after five
  seconds.  \<open>grpc.Server\<close> is not part of the repository; of its documentation the steps take that
  \<open>Serve\<close> accepts connections until its listener fails or the server is stopped, that
  \<open>GracefulStop\<close> takes no new connection or call and returns when no call is under way, and that
  \<open>Stop\<close> closes every connection.
\<close>

section \<open>Phases\<close>

text \<open>Before the signal, between the signal and the end of \<open>main\<close>, and after it.\<close>

datatype phase = Serving | Draining | Finished

fun rank :: "phase \<Rightarrow> nat" where
  "rank Serving = 0"
| "rank Draining = 1"
| "rank Finished = 2"

instantiation phase :: linorder
begin

definition less_eq_phase :: "phase \<Rightarrow> phase \<Rightarrow> bool" where
  "less_eq_phase p q \<longleftrightarrow> rank p \<le> rank q"

definition less_phase :: "phase \<Rightarrow> phase \<Rightarrow> bool" where
  "less_phase p q \<longleftrightarrow> rank p < rank q"

instance
proof
  fix p q :: phase
  show "p \<le> q \<Longrightarrow> q \<le> p \<Longrightarrow> p = q" by (cases p; cases q) (simp_all add: less_eq_phase_def)
qed (auto simp: less_eq_phase_def less_phase_def)

end

lemma phase_order [simp]:
  "Serving \<le> p" "p \<le> Finished" "Finished \<le> p \<longleftrightarrow> p = Finished" "p \<le> Serving \<longleftrightarrow> p = Serving"
  by (cases p; simp add: less_eq_phase_def)+

section \<open>Steps\<close>

text \<open>
  \<open>pr_accepts\<close>: \<open>Serve\<close> has not returned.  \<open>pr_calls\<close> is the number of calls under way, \<open>pr_left\<close>
  the nanoseconds left of \<open>time.After(5 * time.Second)\<close>.
\<close>

record process =
  pr_phase :: phase
  pr_accepts :: bool
  pr_conns :: nat
  pr_calls :: nat
  pr_server :: server
  pr_left :: int

definition grace :: int where "grace = 5 * second"

definition serving :: "server \<Rightarrow> process" where
  "serving s = \<lparr>pr_phase = Serving, pr_accepts = True, pr_conns = 0, pr_calls = 0, pr_server = s, pr_left = 0\<rparr>"

text \<open>
  A handler runs as one step, as in \<open>server_step\<close>.  An error of \<open>Serve\<close> is logged and nothing
  else: \<open>main\<close> goes on waiting for a signal.
\<close>

inductive process_step :: "jwt_lib \<Rightarrow> Manager \<Rightarrow> process \<Rightarrow> process \<Rightarrow> bool" for J :: jwt_lib and m :: Manager where
  Connects: "pr_accepts p \<Longrightarrow> pr_phase p = Serving \<Longrightarrow> process_step J m p (p\<lparr>pr_conns := pr_conns p + 1\<rparr>)"
| Leaves: "0 < pr_conns p \<Longrightarrow> pr_phase p \<noteq> Finished \<Longrightarrow> process_step J m p (p\<lparr>pr_conns := pr_conns p - 1\<rparr>)"
| Arrives: "0 < pr_conns p \<Longrightarrow> pr_phase p = Serving \<Longrightarrow> process_step J m p (p\<lparr>pr_calls := pr_calls p + 1\<rparr>)"
| Handles: "0 < pr_calls p \<Longrightarrow> pr_phase p \<noteq> Finished \<Longrightarrow> server_step J m (pr_server p) s \<Longrightarrow>
    process_step J m p (p\<lparr>pr_calls := pr_calls p - 1, pr_server := s\<rparr>)"
| Cleans: "pr_phase p \<noteq> Finished \<Longrightarrow>
    process_step J m p (p\<lparr>pr_server := pr_server p\<lparr>limiter := cleanup t (limiter (pr_server p))\<rparr>\<rparr>)"
| Serve_fails: "pr_phase p = Serving \<Longrightarrow> process_step J m p (p\<lparr>pr_accepts := False\<rparr>)"
| Signals: "pr_phase p = Serving \<Longrightarrow>
    process_step J m p (p\<lparr>pr_phase := Draining, pr_accepts := False, pr_left := grace\<rparr>)"
| Passes: "pr_phase p = Draining \<Longrightarrow> 0 < dt \<Longrightarrow> dt \<le> pr_left p \<Longrightarrow>
    process_step J m p (p\<lparr>pr_left := pr_left p - dt\<rparr>)"
| Stopped: "pr_phase p = Draining \<Longrightarrow> pr_calls p = 0 \<Longrightarrow> process_step J m p (p\<lparr>pr_phase := Finished\<rparr>)"
| Forced: "pr_phase p = Draining \<Longrightarrow> pr_left p = 0 \<Longrightarrow>
    process_step J m p (p\<lparr>pr_phase := Finished, pr_conns := 0, pr_calls := 0\<rparr>)"

inductive_cases process_stepE: "process_step J m p p'"

section \<open>Properties\<close>

text \<open>The phases only go forward, and a process that has ended does nothing.\<close>

lemma phase_forward: "process_step J m p p' \<Longrightarrow> pr_phase p \<le> pr_phase p'"
  by (erule process_stepE) simp_all

lemma phase_forward_star: "(process_step J m)\<^sup>*\<^sup>* p p' \<Longrightarrow> pr_phase p \<le> pr_phase p'"
  by (induction rule: rtranclp_induct) (auto dest: phase_forward)

lemma finished_still: "pr_phase p = Finished \<Longrightarrow> \<not> process_step J m p p'"
  by (auto elim: process_stepE)

text \<open>
  In every state a process can reach, the server is well formed; after the signal it accepts no
  connection and has at most five seconds left; when it has ended no call is under way.
\<close>

definition process_ok :: "process \<Rightarrow> bool" where
  "process_ok p \<longleftrightarrow> server_ok (pr_server p) \<and> (pr_accepts p \<longrightarrow> pr_phase p = Serving) \<and>
     (pr_phase p = Finished \<longrightarrow> pr_calls p = 0) \<and> 0 \<le> pr_left p \<and> pr_left p \<le> grace"

lemma process_step_ok: "process_step J m p p' \<Longrightarrow> process_ok p \<Longrightarrow> process_ok p'"
proof (induction rule: process_step.induct)
  case (Handles p s)
  then show ?case using server_step_ok by (auto simp: process_ok_def)
next
  case (Cleans p t)
  then show ?case by (auto simp: process_ok_def server_ok_def rl_ok_cleanup)
qed (auto simp: process_ok_def grace_def second_def)

theorem process_invariant:
  assumes "boot b = Ok (m, s)" and "pg_ok (database s)" and "(process_step J m)\<^sup>*\<^sup>* (serving s) p"
  shows "process_ok p"
proof -
  have "server_ok s" using boot_checked [of b] assms(1,2) by simp
  then have "process_ok (serving s)" by (simp add: process_ok_def serving_def grace_def second_def)
  from assms(3) this show ?thesis by (induction rule: rtranclp_induct) (auto dest: process_step_ok)
qed

text \<open>
  After the signal the calls under way only get fewer, whatever the clients do, and the process
  can always end: it answers them all or the time is up.
\<close>

theorem shutdown_drains:
  assumes "(process_step J m)\<^sup>*\<^sup>* p p'" and "pr_phase p \<noteq> Serving"
  shows "pr_phase p' \<noteq> Serving \<and> pr_calls p' \<le> pr_calls p \<and> pr_conns p' \<le> pr_conns p"
  using assms by (induction rule: rtranclp_induct) (auto elim!: process_stepE)

theorem shutdown_ends:
  assumes "process_ok p" and "pr_phase p = Draining"
  shows "\<exists>p'. (process_step J m)\<^sup>*\<^sup>* p p' \<and> pr_phase p' = Finished \<and> database (pr_server p') = database (pr_server p)"
proof -
  let ?q = "p\<lparr>pr_left := 0\<rparr>"
  have "(process_step J m)\<^sup>*\<^sup>* p ?q"
  proof (cases "pr_left p = 0")
    case False
    then show ?thesis
      using Passes [of p "pr_left p" J m] assms by (simp add: process_ok_def r_into_rtranclp)
  qed (cases p; simp)
  moreover have "process_step J m ?q (?q\<lparr>pr_phase := Finished, pr_conns := 0, pr_calls := 0\<rparr>)"
    by (rule Forced) (use assms(2) in simp_all)
  ultimately have "(process_step J m)\<^sup>*\<^sup>* p (?q\<lparr>pr_phase := Finished, pr_conns := 0, pr_calls := 0\<rparr>)"
    by (rule rtranclp.rtrancl_into_rtrancl)
  then show ?thesis by (intro exI [of _ "?q\<lparr>pr_phase := Finished, pr_conns := 0, pr_calls := 0\<rparr>"]) simp
qed

text \<open>
  When \<open>Serve\<close> has failed the process stays: until a signal comes it is neither finished nor takes
  another connection.
\<close>

theorem deaf_until_signal:
  assumes "(process_step J m)\<^sup>*\<^sup>* p p'" and "\<not> pr_accepts p"
  shows "\<not> pr_accepts p' \<and> pr_conns p' \<le> pr_conns p"
  using assms by (induction rule: rtranclp_induct) (auto elim!: process_stepE)

section \<open>Witness\<close>

text \<open>A process whose server stops accepting, is told to stop, and ends.\<close>

lemma ref_process_ends:
  "(process_step ref_jwt ref_manager)\<^sup>*\<^sup>* (serving (srv stale_world))
     ((serving (srv stale_world))\<lparr>pr_phase := Finished, pr_accepts := False, pr_left := grace\<rparr>)"
proof -
  let ?p = "serving (srv stale_world)"
  have "(process_step ref_jwt ref_manager)\<^sup>*\<^sup>* ?p (?p\<lparr>pr_accepts := False\<rparr>)"
    by (intro r_into_rtranclp Serve_fails) (simp add: serving_def)
  also have "process_step ref_jwt ref_manager \<dots> (?p\<lparr>pr_phase := Draining, pr_accepts := False, pr_left := grace\<rparr>)"
    using Signals [of "?p\<lparr>pr_accepts := False\<rparr>"] by (simp add: serving_def)
  also have "process_step ref_jwt ref_manager \<dots> (?p\<lparr>pr_phase := Finished, pr_accepts := False, pr_left := grace\<rparr>)"
    using Stopped [of "?p\<lparr>pr_phase := Draining, pr_accepts := False, pr_left := grace\<rparr>"] by (simp add: serving_def)
  finally show ?thesis .
qed

end
