(* ===== verification/Devices.thy ===== *)
theory Devices
  imports Cli
begin

text \<open>
  Two devices of one user and the server between them: what is added on one is shown on the other
  once both have synchronised.
\<close>

section \<open>A new entry on its way\<close>

lemma FullSync_sends_new:
  assumes "bolt_reliable B" and "jwt J verified" and "usable B d"
    and "rows_fit n u (table_of w)" and "distinct (map row_key (table_of w))"
    and "u = claimed_user J (sent_token tok)"
    and "FullSync B (Inr (net_stub J m envs peer)) clk n tok (d, w) = (Ok (), d', w')"
    and "row_of (table_of w) u i = None"
    and "entry_cell B d (key n i) = Some x" "version_cell B d (key n i) = Some v" "v \<noteq> 0" "v \<noteq> - 1"
  shows "\<exists>k. row_of (table_of w') u i = Some (entry_to_row u (push_entry i x v (clk i)) (re_clk (envs k) 0))"
proof -
  have spec: "spec_sync (net_client J m envs peer tok) clk n (own_cells B n d, w) (Ok (), own_cells B n d', w')"
    using FullSync_net_spec [OF assms(1-3)] assms(4,6,7) by blast
  note remote = jwt.net_remote [OF assms(2), of m envs peer tok, folded assms(6)]
  show ?thesis
    using sync_remote.new_entry_sent [OF remote spec assms(5,8) _ _ assms(11,12)] assms(9,10)
    by (auto simp: own_cells_def)
qed

lemma FullSync_takes_new:
  assumes "bolt_reliable B" and "jwt J verified" and "usable B d"
    and "rows_fit n u (table_of w)" and "distinct (map row_key (table_of w))"
    and "u = claimed_user J (sent_token tok)"
    and "FullSync B (Inr (net_stub J m envs peer)) clk n tok (d, w) = (Ok (), d', w')"
    and "row_of (table_of w) u i = Some r" and "dated r" and "0 < sint (e_version r)"
    and "\<And>j v. version_cell B d (key n j) = Some v \<Longrightarrow> sint v < sint (e_version r)"
  shows "entry_cell B d' (key n i) = Some (e_data r) \<and> usable B d'"
proof -
  have u: "usable B d'" and
    spec: "spec_sync (net_client J m envs peer tok) clk n (own_cells B n d, w) (Ok (), own_cells B n d', w')"
    using FullSync_net_spec [OF assms(1-3)] assms(4,6,7) by blast+
  have "bolt B" using assms(1) by (simp add: bolt_reliable_def)
  then have fin: "finite (ran (snd (own_cells B n d)))" using bolt.own_cells_finite finite_ran by metis
  note remote = jwt.net_remote [OF assms(2), of m envs peer tok, folded assms(6)]
  from spec have "fst (own_cells B n d') i = Some (e_data r)"
  proof (rule sync_remote.completed_sync [OF remote _ assms(5)])
    fix mx assume mx: "is_max_version (own_cells B n d) mx"
      and new: "\<And>i r. row_of (table_of w) u i = Some r \<Longrightarrow> sint mx < sint (e_version r) \<Longrightarrow> dated r \<Longrightarrow>
        fst (own_cells B n d') i = Some (e_data r) \<and> snd (own_cells B n d') i = Some (e_version r) \<and>
        at_least (table_of w') u i (sint (e_version r))"
    have "\<forall>x \<in> insert 0 (sint ` ran (snd (own_cells B n d))). x < sint (e_version r)"
      using assms(10,11) by (auto simp: own_cells_def ran_def)
    then have "sint mx < sint (e_version r)"
      using mx fin by (simp add: is_max_version_def)
    then show ?thesis using new assms(8,9) by blast
  qed
  then show ?thesis using u by (simp add: own_cells_def)
qed

text \<open>What the server's clock shows from a second after the epoch on dates a row.\<close>

lemma dated_pushed:
  assumes "1000000 \<le> t" and "t < 2 ^ 63"
  shows "dated (entry_to_row u e t)"
proof -
  have "0 < t div 1000000" "t div 1000000 < 2 ^ 63" using assms by auto
  then have "sint (word_of_int (t div 1000000) :: int64) = t div 1000000"
    by (simp add: sint_sbintrunc' signed_take_bit_int_eq_self)
  then show ?thesis using \<open>0 < t div 1000000\<close> by (simp add: dated_def row_to_entry_def entry_to_row_def)
qed

lemma addCmd_versions:
  assumes "bolt_reliable (ce_bolt env)" and "usable (ce_bolt env) (dbfile s)" and "ce_sync env = Inl e0"
    and "addCmd env inp s = (Ok i, s')" and "length (userID s) + length i \<le> 32767"
  shows "version_cell (ce_bolt env) (dbfile s') (key (userID s) i) = Some (ce_nano env 1)"
proof -
  let ?B = "ce_bolt env" and ?i = "add_type inp @ ''-'' @ dec_int (sint (ce_nano env 0))"
  have b: "bolt ?B" using assms(1) by (simp add: bolt_reliable_def)
  have d: "store_ok ?B (dbfile s)" "is_open (dbfile s)" using assms(2) by (simp_all add: usable_def)
  obtain e plain c where e: "add_entry (ce_read env) (cwd s) inp = Ok e" "Marshal e = Ok plain"
    "Encrypt (ce_rnd env 0) plain (masterKey s) = Ok c"
    using assms(4) by (auto simp: addCmd_def Let_def split: try_res_splits)
  obtain r d1 where put: "Put ?B (dbfile s) (userID s) ?i c = (r, d1)" by fastforce
  note p = bolt.Put_step [OF b d(1) put]
  have r: "r = Ok ()" and st: "localStore s"
    using assms(4) e put p by (auto simp: addCmd_def Let_def on_store_def split: if_splits)
  have d1: "usable ?B d1" using p d(2) by (auto simp: usable_def)
  obtain q d2 where ver: "PutVersion ?B d1 (userID s) ?i (ce_nano env 1) = (q, d2)" by fastforce
  have "s' = s\<lparr>dbfile := d2\<rparr>" and i: "i = ?i"
    using assms(4) e put ver r st runSync_offline [OF assms(3)] bolt.PutVersion_step [OF b conjunct1 [OF p] ver]
    by (auto simp: addCmd_def Let_def on_store_def)
  moreover have "put_ok (key (userID s) ?i) []" using assms(5) i by (simp add: put_ok_def length_key)
  then have "version_cell ?B d2 = (version_cell ?B d1)(key (userID s) ?i \<mapsto> ce_nano env 1)"
    using bolt_reliable.PutVersion_usable [OF assms(1) d1] ver by (metis prod.inject)
  ultimately show ?thesis by simp
qed

section \<open>Property\<close>

text \<open>
  C1. An entry that is added on a device without a connection reaches the user's other device: the first
  device synchronises, then the other does, each with success, and \<open>get\<close> on the other shows the
  entry under the id that \<open>add\<close> printed.  The id is new to the server, the entry newer than every
  version on the other device, nothing else writes the row in between, and both devices have the
  same master key.\<close>

theorem entry_reaches_device:
  assumes "bolt_reliable (ce_bolt a)" and "usable (ce_bolt a) (dbfile s)" and "ce_sync a = Inl e0"
    and "\<And>nonce. ce_rnd a 0 = Inr nonce \<Longrightarrow> length nonce = NonceSize"
    and "add_entry (ce_read a) (cwd s) inp = Ok e" and "entry_utf8 e"
    and add: "addCmd a inp s = (Ok i, s1)" and "length (userID s) + length i \<le> 32767" and "0 < sint (ce_nano a 1)"
    and "jwt J verified" and "ce_bolt a' = ce_bolt a" and "ce_sync a' = Inr (net_stub J m envs peer)"
    and first: "sync_step a' (userID s) tok s1 = (Ok (), s2)"
    and "pg_ok (database (srv (net s)))" and "rows_fit (userID s) u (table_of (net s))"
    and "row_of (table_of (net s)) u i = None"
    and "u = claimed_user J (sent_token tok)" and "\<And>k. 1000000 \<le> re_clk (envs k) 0 \<and> re_clk (envs k) 0 < 2 ^ 63"
    and "bolt_reliable (ce_bolt b)" and "usable (ce_bolt b) (dbfile t)" and "localStore t"
    and "userID t = userID s" and "masterKey t = masterKey s"
    and "ce_sync b = Inr (net_stub J m envs' peer')" and second: "sync_step b (userID t) tok' t = (Ok (), t1)"
    and "pg_ok (database (srv (net t)))" and "rows_fit (userID s) u (table_of (net t))"
    and "row_of (table_of (net t)) u i = row_of (table_of (net s2)) u i"
    and "u = claimed_user J (sent_token tok')" and "ce_write b = Written"
    and "\<And>j v. version_cell (ce_bolt b) (dbfile t) (key (userID s) j) = Some v \<Longrightarrow> sint v < sint (ce_nano a 1)"
  shows "fst (getCmd b i t1) = Ok (entry_text e)"
proof -
  let ?n = "userID s" and ?v = "ce_nano a 1" and ?A = "ce_bolt a" and ?B = "ce_bolt b"
  have ba: "bolt ?A" "bolt ?B" using assms(1,19) by (simp_all add: bolt_reliable_def)
  have sa: "store_ok ?A (dbfile s)" using assms(2) by (simp add: usable_def)
  obtain plain c where c: "Marshal e = Ok plain" "Encrypt (ce_rnd a 0) plain (masterKey s) = Ok c"
    "store_ok ?A (dbfile s1)" "is_open (dbfile s1) = is_open (dbfile s)"
    "entry_cell ?A (dbfile s1) (key ?n i) = Some c" "s1 = s\<lparr>dbfile := dbfile s1\<rparr>"
    by (rule addCmd_stores [OF ba(1) sa assms(3) add]) (use assms(5) in auto)
  have v: "version_cell ?A (dbfile s1) (key ?n i) = Some ?v"
    by (rule addCmd_versions [OF assms(1-3) add assms(8)])
  have v0: "?v \<noteq> 0" "?v \<noteq> - 1" using assms(9) by auto
  have n1: "net s1 = net s" by (subst c(6)) simp
  have ua: "usable ?A (dbfile s1)" using c(3,4) assms(2) by (simp add: usable_def)
  obtain d2 w2 where "FullSync ?A (Inr (net_stub J m envs peer)) (ce_clk a') ?n tok (dbfile s1, net s) = (Ok (), d2, w2)"
    and w2: "net s2 = w2"
    using first assms(11,12) n1 by (auto simp: sync_step_def split: prod.splits)
  from FullSync_sends_new [OF assms(1,10) ua assms(15) _ assms(17) this(1) assms(16) c(5) v v0]
  obtain k where row: "row_of (table_of (net s2)) u i =
      Some (entry_to_row u (push_entry i c ?v (ce_clk a' i)) (re_clk (envs k) 0))" (is "_ = Some ?r")
    using assms(14) w2 by (auto simp: pg_ok_def table_of_def)
  have r: "dated ?r" "e_data ?r = c" "e_version ?r = ?v"
    using dated_pushed assms(18) by (auto simp: push_entry_def)
  obtain d3 w3 where run: "FullSync ?B (Inr (net_stub J m envs' peer')) (ce_clk b) ?n tok' (dbfile t, net t) = (Ok (), d3, w3)"
    and t1: "t1 = t\<lparr>dbfile := d3, net := w3\<rparr>"
    using second assms(22,24) by (auto simp: sync_step_def split: prod.splits)
  have b: "entry_cell ?B d3 (key ?n i) = Some c" "usable ?B d3"
    using FullSync_takes_new [OF assms(19,10,20,27) _ assms(29) run, of i ?r] row r assms(9,26,28,31)
    by (auto simp: pg_ok_def table_of_def)
  have get: "Get ?B d3 ?n i = Ok c"
    using bolt.Get_cases [OF ba(2), of d3 ?n i] b bolt_reliable.usable_view [OF assms(19) b(2)]
    by (simp add: usable_def)
  obtain nonce where "ce_rnd a 0 = Inr nonce" using c(2) by (auto simp: Encrypt_def split: res.splits sum.splits)
  then have dec: "Decrypt c (masterKey s) = Ok plain"
    using Decrypt_Encrypt [of nonce plain "masterKey s" c] c(2) assms(4) by simp
  have un: "Unmarshal plain = Ok e"
    using Unmarshal_members [OF assms(6) add_entry_type [OF assms(5)]] c(1) by (simp add: Marshal_Ok)
  show ?thesis
    using get dec un assms(21-23,30) by (cases e) (auto simp: getCmd_def on_store_def t1)
qed

section \<open>Witness\<close>

text \<open>
  A note added to an empty store, sent to a server without rows, and fetched by a device with an
  empty store.
\<close>

definition ref_row_of :: "bytes \<Rightarrow> entry_row" where
  "ref_row_of c = entry_to_row ''u'' (push_entry ''text-7'' c 7 7) 7000000"

lemma ref_row_of_sel [simp]:
  "e_user (ref_row_of c) = ''u''" "e_entry (ref_row_of c) = ''text-7''" "e_data (ref_row_of c) = c"
  "row_key (ref_row_of c) = (''u'', ''text-7'')"
  by (simp_all add: ref_row_of_def push_entry_def)


lemma ref_clock: "re_clk ref_rpc k = 7000000"
  by (simp add: ref_rpc_def)

lemma varchar_note: "varchar_ok 255 ''text-7''"
proof -
  have "utf8_valid ''text-7''" by (rule utf8_lit) (simp add: cc_def)
  moreover have "length (filter (\<lambda>c. \<not> cont c) ''text-7'') \<le> 255"
    using length_filter_le [of "\<lambda>c. \<not> cont c" "''text-7''"] by simp
  ultimately show ?thesis by (simp add: varchar_ok_def ch_eq_iff cc_def)
qed

abbreviation ref_online :: "(alist, world) cli_env" where
  "ref_online \<equiv> (ref_cli_env offline)\<lparr>ce_sync := Inr ref_stub\<rparr>"

lemma ref_syncs:
  assumes "usable ref_bolt d" and "finite I" "card I \<le> 1"
    and "all_ids ''u'' (own_cells ref_bolt ''l'' d) rows \<subseteq> I" and "all_sendable ''u'' (own_cells ref_bolt ''l'' d) rows"
    and "rows_fit ''l'' ''u'' rows" and "dbfile s = d" "net s = ref_world rows"
  obtains s' where "sync_step ref_online ''l'' ref_access_token s = (Ok (), s')"
    and "FullSync ref_bolt (Inr ref_stub) (\<lambda>_. 7) ''l'' ref_access_token (d, ref_world rows) = (Ok (), dbfile s', net s')"
proof -
  have "card (all_ids ''u'' (own_cells ref_bolt ''l'' d) rows) \<le> 1" using assms(2-4) card_mono le_trans by blast
  then have "fst (FullSync ref_bolt (Inr ref_stub) (\<lambda>_. 7) ''l'' ref_access_token (d, ref_world rows)) = Ok ()"
    using assms(1,5,6)
    by (intro FullSync_net_Ok [OF ref_bolt_axioms(2) ref_jwt.jwt_axioms _ ref_quiet ref_may_call])
      (simp_all add: ref_world_user)
  then obtain d' w' where "FullSync ref_bolt (Inr ref_stub) (\<lambda>_. 7) ''l'' ref_access_token (d, ref_world rows) = (Ok (), d', w')"
    by (metis prod.collapse)
  then show ?thesis
    using that [of "s\<lparr>dbfile := d', net := w'\<rparr>"] assms(7,8) by (simp add: sync_step_def ref_cli_env_def)
qed

theorem entry_reaches_device_witness:
  "\<exists>d s2 c t1.
     addCmd (ref_cli_env offline) (AddText ''t'' ''c'' '''') (ref_cli (ref_world [])) =
       (Ok ''text-7'', (ref_cli (ref_world []))\<lparr>dbfile := d\<rparr>) \<and>
     sync_step ref_online ''l'' ref_access_token ((ref_cli (ref_world []))\<lparr>dbfile := d\<rparr>) = (Ok (), s2) \<and>
     row_of (table_of (net s2)) ''u'' ''text-7'' = Some (ref_row_of c) \<and>
     sync_step ref_online ''l'' ref_access_token (ref_cli (ref_world [ref_row_of c])) = (Ok (), t1) \<and>
     fst (getCmd ref_online ''text-7'' t1) = Ok (entry_text ref_note)"
proof -
  obtain c d where add: "addCmd (ref_cli_env offline) (AddText ''t'' ''c'' '''') (ref_cli (ref_world [])) =
      (Ok ''text-7'', (ref_cli (ref_world []))\<lparr>dbfile := d\<rparr>)"
    and d: "usable ref_bolt d" "own_cells ref_bolt ''l'' d = ([''text-7'' \<mapsto> c], [''text-7'' \<mapsto> 7])"
    and c: "c \<noteq> []" "put_ok (key ''l'' ''text-7'') c" by (rule ref_adds)
  let ?s = "(ref_cli (ref_world []))\<lparr>dbfile := d\<rparr>" and ?t = "ref_cli (ref_world [ref_row_of c])"
  have send: "sendable ''text-7'' c" using c(1) varchar_note by (simp add: sendable_def)
  obtain s2 where s2: "sync_step ref_online ''l'' ref_access_token ?s = (Ok (), s2)"
    and run: "FullSync ref_bolt (Inr ref_stub) (\<lambda>_. 7) ''l'' ref_access_token (d, ref_world []) = (Ok (), dbfile s2, net s2)"
    by (rule ref_syncs [OF d(1), of "{''text-7''}" "[]" ?s])
      (use d(2) send in \<open>auto simp: all_ids_def all_sendable_def rows_fit_def split: if_splits\<close>)
  have cells: "entry_cell ref_bolt d (key ''l'' ''text-7'') = Some c" "version_cell ref_bolt d (key ''l'' ''text-7'') = Some 7"
    using d(2) by (auto simp: own_cells_def dest: fun_cong [of _ _ "''text-7''"])
  have row: "row_of (table_of (net s2)) ''u'' ''text-7'' = Some (ref_row_of c)"
    using FullSync_sends_new [OF ref_bolt_axioms(2) ref_jwt.jwt_axioms d(1) _ _ ref_claimed run _ cells]
    by (simp add: rows_fit_def row_of_def ref_row_of_def ref_clock)
  obtain t1 where t1: "sync_step ref_online ''l'' ref_access_token ?t = (Ok (), t1)"
    by (rule ref_syncs [OF ref_local_usable, of "{''text-7''}" "[]" "[ref_row_of c]" ?t])
      (use c(2) send in \<open>auto simp: all_ids_def all_sendable_def rows_fit_def ref_own_cells\<close>)
  have ok: "pg_ok (database (srv (ref_world rows)))" if "distinct (map row_key rows)" "\<forall>r \<in> set rows. e_user r = ''u''" for rows
    using that by (simp add: pg_ok_def ref_world_def ref_server_def user_exists_def empty_pg_def)
  have "fst (getCmd ref_online ''text-7'' t1) = Ok (entry_text ref_note)"
    by (rule entry_reaches_device [OF _ _ _ _ _ ref_note_utf8 add _ _ ref_jwt.jwt_axioms _ _ _ _ _ _ ref_claimed _ _ _ _ _ _ _ _ _ _ _ ref_claimed,
          where a' = ref_online and b = ref_online and ?s2.0 = s2 and t = ?t and m = ref_manager and peer = "''p''"
            and peer' = "''p''" and envs = "\<lambda>_. ref_rpc" and envs' = "\<lambda>_. ref_rpc"])
      (use s2 t1 row c(2) in \<open>simp_all add: ref_bolt_axioms ref_local_usable NonceSize_def ref_note_def zero_text_def
        ok rows_fit_def ref_clock ref_local_cells row_of_def offline_def\<close>)
  then show ?thesis using add s2 row t1 by blast
qed

end
