(* ===== verification/Spec2Isabelle.thy ===== *)
theory Spec2Isabelle
  imports Prelude Bolt Store Policy Json Base64 Entry Postgres SyncServer Interleave RateLimit
    Jwt Middleware Sha256 Gcm Crypto AuthServer SyncClient SyncSpec Remote Server
    Files Session AuthClient Cli Presenter TuiModel TuiCommands Tui TuiProps TuiStore
    Repo Boot Process Devices
begin

text \<open>
  GophKeepston is a password manager.  A device keeps its entries encrypted in a local database
  and synchronises the ciphertexts with a server, which keeps one table of rows for all users.  Two
  clients work on a device, a command line and a terminal interface; both keep the logged-in
  session in an encrypted file.  This theory imports the whole development and states nothing of
  its own.

  \<^bold>\<open>The parts and how they call each other.\<close>  A client command (\<open>Cli\<close>, \<open>TuiCommands\<close>) opens the
  session file (\<open>Session\<close>, over \<open>Files\<close>), reads and writes the local store (\<open>Store\<close>, over the
  interface \<open>Bolt\<close>), encodes entries (\<open>Entry\<close>, over \<open>Json\<close> and \<open>Base64\<close>), encrypts them (\<open>Crypto\<close>,
  over \<open>Gcm\<close>) and runs \<open>FullSync\<close> (\<open>SyncClient\<close>, with the resolver of \<open>Policy\<close>).  \<open>FullSync\<close> and
  the authentication client (\<open>AuthClient\<close>) call the server through a stub.  On the server every call
  passes the interceptor (\<open>Middleware\<close>, over \<open>RateLimit\<close> and \<open>Jwt\<close>) to a handler of the
  synchronisation service (\<open>SyncServer\<close>) or of the authentication service (\<open>AuthServer\<close>, over
  \<open>Sha256\<close>); both work on the tables of \<open>Postgres\<close>.  \<open>Boot\<close> composes the server from its
  configuration and \<open>Process\<close> runs it until it is shut down.  \<open>Repo\<close> is a second access to the
  table of entries that no other package uses.

  \<^bold>\<open>Which theory models which file.\<close>  Definitions keep the names of the code.
  \<^item> \<open>Store\<close>: \<open>internal/client/store/store.go\<close>.  The state is a bbolt database \<open>'b db\<close>, a map from
    bucket names to buckets; each method of \<open>Store\<close> is a function on it.
  \<^item> \<open>Entry\<close>: \<open>internal/domain/entry\<close>, the four structs, \<open>Marshal\<close> and \<open>Unmarshal\<close>.  \<open>Json\<close> and
    \<open>Base64\<close> are the parts of Go's \<open>encoding/json\<close> and \<open>encoding/base64\<close> they use.
  \<^item> \<open>Crypto\<close>: \<open>internal/client/crypto/crypto.go\<close>.  \<open>Gcm\<close> and \<open>Sha256\<close> are the algorithms of Go's
    \<open>crypto/aes\<close>, \<open>crypto/cipher\<close> and \<open>crypto/sha256\<close>, concrete and executable.
  \<^item> \<open>Policy\<close>: \<open>internal/sync/policy.go\<close>.
  \<^item> \<open>SyncClient\<close>: \<open>internal/client/sync/sync.go\<close>.  Its state is the local database and a state
    \<open>'s\<close> behind the stub.  \<open>SyncSpec\<close> is the abstract synchronisation it refines, \<open>Remote\<close> what it
    needs of the other side.
  \<^item> \<open>RateLimit\<close>, \<open>Middleware\<close>: \<open>internal/server/middleware/ratelimit.go\<close>; the record \<open>RateLimiter\<close>
    and the server's state, a limiter and a database.
  \<^item> \<open>Jwt\<close>: \<open>internal/pkg/jwt/jwt.go\<close>.
  \<^item> \<open>Postgres\<close>: the tables and constraints of \<open>migrations\<close> and the statements of the handlers.
  \<^item> \<open>SyncServer\<close>, \<open>AuthServer\<close>: \<open>internal/server/sync/sync.go\<close> and \<open>internal/server/auth/auth.go\<close>.
    \<open>Interleave\<close> runs the handlers of the former at the same time, statement by statement.
  \<^item> \<open>Server\<close>: the composition in \<open>cmd/server/main.go\<close> and the generated dispatch; \<open>Boot\<close> and
    \<open>Process\<close>: its start and its end, \<open>internal/config\<close> and \<open>internal/server/storage\<close>.
  \<^item> \<open>Session\<close>, \<open>AuthClient\<close>, \<open>Cli\<close>: \<open>internal/client/session/session.go\<close>,
    \<open>internal/client/authclient/authclient.go\<close>, \<open>cmd/client/main.go\<close>.
  \<^item> \<open>Presenter\<close>: \<open>internal/presenter/presenter.go\<close>.
  \<^item> \<open>TuiModel\<close>, \<open>TuiCommands\<close>, \<open>Tui\<close>: \<open>internal/tui/components.go\<close> and \<open>cmd/tui/main.go\<close>, as data,
    commands, and \<open>Update\<close>, \<open>View\<close> and the loop; \<open>TuiProps\<close> and \<open>TuiStore\<close> hold what is proved of
    them.
  \<^item> \<open>Repo\<close>: \<open>internal/repository/postgres/entries.go\<close>.

  \<^bold>\<open>How effects are modelled.\<close>  A call answers a \<open>res\<close> of \<open>Prelude\<close>: \<open>Ok\<close>, \<open>Err\<close> with the wrapped
  error, \<open>Panic\<close>, or \<open>Hang\<close> for a call that never returns.  State is passed in and out.  What comes
  from outside is an argument: clocks, random bytes, what the user types, and the failures of the
  disk, the database and the network.  Versions are 64-bit words read with \<open>sint\<close>; strings are
  lists of bytes.

  \<^bold>\<open>Interfaces.\<close>  Libraries outside the repository are records of functions, and a locale states what
  their documentation promises: \<open>bolt\<close> and \<open>bolt_reliable\<close> for bbolt, \<open>scrypt\<close>, \<open>jwt\<close>.  Each has a
  concrete instance that obeys it, on which the witnesses are evaluated.  Interfaces within the
  program are locales too: \<open>keyed_cell\<close> is what the two halves of the store share, \<open>conflict_resolver\<close>
  is the interface of the policies, and \<open>sync_remote\<close> is what a synchronisation needs of the server,
  proved of the server's own handlers behind the interceptor.

  \<^bold>\<open>What the lemmas show.\<close>
  \<^item> The local store refines two maps of cells per user and entry, its maximum is exact, and users
    whose names contain no colon are isolated.
  \<^item> What is encoded, encrypted, saved or typed is what is decoded, decrypted, loaded or shown.
  \<^item> An entry added on one device is shown on the user's other device once both have synchronised
    (\<open>Devices\<close>): the whole way through the store, the codec, the encryption, the two synchronisations
    and the server.
  \<^item> \<open>FullSync\<close> returns, refines the abstract synchronisation, achieves what a synchronisation is
    for when it succeeds, and succeeds over a quiet connection; where it falls short (a deletion
    undone, an update not pulled, a large vault cut off by the limiter) is proved as well.
  \<^item> The server keeps its constraints through any interleaving of calls, answers no call without a
    valid token, never lowers a version, and leaves the same rows for pushes that run at the same
    time as for pushes that run one after the other.
  \<^item> The limiter lets through what it promises inside a window and over any stretch, and its
    clean-up cannot be observed.
  \<^item> Refresh tokens rotate, all or nothing, except in a race that is shown; access tokens live as
    long as they say.
  \<^item> The clients change nothing without a session, derive the same key on every device, and get
    stuck in the ways the code does: the session of a login that is not found again, the expired
    session that cannot be refreshed, the error that stays on the screen, the form that is not left.
  \<^item> The process starts only with a checked configuration, and after a signal it drains and ends.

  \<^bold>\<open>Loops and fuel.\<close>  The loops over a cursor (\<open>list_loop\<close>, \<open>max_loop\<close>) are \<open>partial_function
  (option)\<close>, with \<open>Hang\<close> for a cursor that never ends; over a cursor that obeys \<open>bolt\<close> they return.
  The reader of JSON takes fuel \<open>2 * length s + 2\<close>, which is proved enough: with more it answers the
  same.  Every other loop is structural or has its measure.

  \<^bold>\<open>Not modelled.\<close>
  \<^item> The code generated by protoc, but for the messages' fields and the choice of the handler, and
    gRPC's transport, TLS and reflection.  A call over the network can be lost before or after it took
    effect.
  \<^item> \<open>internal/pkg/hash/hash.go\<close>, which holds no code.
  \<^item> Prompts, log lines, deadlines of contexts, file modes, and the drawing of the screen (the
    styles of lipgloss, the castle); the widgets of bubbles and huh are functions over abstract types.
  \<^item> Data races of the terminal interface: a command of the loop is one step.  The methods of the
    store, the limiter and the session hold their mutex and are one step each; of the server's
    handlers those of the synchronisation service are split into their statements, and the refresh
    into its look-up and its transaction.
\<close>

end
